(* ===== verification/Prelude.thy ===== *)
theory Prelude
  imports Main "HOL-Library.Word"
begin

text \<open>
  The shared ground of the development: the machine integers of the program, the
  outcome of a Rust computation (a value, an error that \<open>?\<close> propagates, or a panic),
  \<open>std::io::Error\<close>, the big-endian byte order the protocol fixes for its integers, and
  the rules the component theories rely on to reason about chains of fallible steps.
\<close>

unbundle bit_operations_syntax

named_theorems outcome_simps \<open>unfolding a chain of fallible steps\<close>
named_theorems tuic_const \<open>the numeric constants of the protocol\<close>

section \<open>Machine integers and byte strings\<close>

type_synonym u8 = "8 word"
type_synonym u16 = "16 word"
type_synonym u32 = "32 word"
type_synonym u64 = "64 word"
type_synonym usize = nat
type_synonym bytes = "u8 list"

section \<open>Errors and outcomes\<close>

text \<open>\<open>std::io::ErrorKind\<close>, with the variants of the toolchain the crates ask for.\<close>

datatype ErrorKind =
    NotFound | PermissionDenied | ConnectionRefused | ConnectionReset | ConnectionAborted
  | NotConnected | AddrInUse | AddrNotAvailable | BrokenPipe | AlreadyExists | WouldBlock
  | InvalidInput | InvalidData | TimedOut | WriteZero | Interrupted | Unsupported
  | UnexpectedEof | OutOfMemory | Other

datatype io_error = IoError (error_kind: ErrorKind) (error_message: string)

text \<open>
  What a Rust computation does: it returns a value, returns an error, or panics
  (an \<open>unwrap\<close> of an error, a slice out of range, an underflow).
\<close>

datatype ('e, 'a) outcome = Ok 'a | Err 'e | Panic

fun and_then :: "('e, 'a) outcome \<Rightarrow> ('a \<Rightarrow> ('e, 'b) outcome) \<Rightarrow> ('e, 'b) outcome" where
  "and_then (Ok a) f = f a"
| "and_then (Err e) f = Err e"
| "and_then Panic f = Panic"

text \<open>
  What a call of another crate returns (\<open>Inl\<close> its error), as an outcome: such a call returns.
\<close>

fun returned :: "'e + 'a \<Rightarrow> ('e, 'a) outcome" where
  "returned (Inl e) = Err e"
| "returned (Inr a) = Ok a"

fun map_err :: "('e \<Rightarrow> 'f) \<Rightarrow> ('e, 'a) outcome \<Rightarrow> ('f, 'a) outcome" where
  "map_err g (Ok a) = Ok a"
| "map_err g (Err e) = Err (g e)"
| "map_err g Panic = Panic"

fun unwrap :: "('e, 'a) outcome \<Rightarrow> ('f, 'a) outcome" where
  "unwrap (Ok a) = Ok a"
| "unwrap (Err e) = Panic"
| "unwrap Panic = Panic"

fun unwrap_option :: "'a option \<Rightarrow> ('e, 'a) outcome" where
  "unwrap_option (Some a) = Ok a"
| "unwrap_option None = Panic"

fun ok_or :: "'e \<Rightarrow> 'a option \<Rightarrow> ('e, 'a) outcome" where
  "ok_or e (Some a) = Ok a"
| "ok_or e None = Err e"

text \<open>\<open>Option::or\<close>: the first value that is there.\<close>

fun option_or :: "'a option \<Rightarrow> 'a option \<Rightarrow> 'a option" where
  "option_or (Some a) b = Some a"
| "option_or None b = b"

text \<open>\<open>&xs[n..]\<close> and \<open>&xs[a..b]\<close>: out of range is a panic.\<close>

definition slice_from :: "nat \<Rightarrow> 'a list \<Rightarrow> ('e, 'a list) outcome" where
  "slice_from n xs = (if n \<le> length xs then Ok (drop n xs) else Panic)"

definition slice_range :: "nat \<Rightarrow> nat \<Rightarrow> 'a list \<Rightarrow> ('e, 'a list) outcome" where
  "slice_range a b xs = (if a \<le> b \<and> b \<le> length xs then Ok (take (b - a) (drop a xs)) else Panic)"

text \<open>
  \<open>usize\<close> subtraction, with 64 bits: an underflow is a panic in a build with overflow checks (a debug
  build) and wraps around in one without (a release build).
\<close>

definition usize_sub :: "bool \<Rightarrow> usize \<Rightarrow> usize \<Rightarrow> ('e, usize) outcome" where
  "usize_sub overflow_checks a b =
     (if b \<le> a then Ok (a - b) else if overflow_checks then Panic else Ok (2 ^ 64 + a - b))"

lemma and_then_eq_Ok [outcome_simps]:
  "and_then m f = Ok b \<longleftrightarrow> (\<exists>a. m = Ok a \<and> f a = Ok b)"
  by (cases m) auto

lemma and_then_eq_Err [outcome_simps]:
  "and_then m f = Err e \<longleftrightarrow> m = Err e \<or> (\<exists>a. m = Ok a \<and> f a = Err e)"
  by (cases m) auto

lemma and_then_eq_Panic [outcome_simps]:
  "and_then m f = Panic \<longleftrightarrow> m = Panic \<or> (\<exists>a. m = Ok a \<and> f a = Panic)"
  by (cases m) auto

lemma and_then_assoc: "and_then (and_then m f) g = and_then m (\<lambda>a. and_then (f a) g)"
  by (cases m) auto

lemma and_then_Ok [simp]: "and_then m Ok = m"
  by (cases m) auto

lemma map_err_eq_Ok [outcome_simps]: "map_err g m = Ok a \<longleftrightarrow> m = Ok a"
  by (cases m) auto

lemma map_err_eq_Err [outcome_simps]: "map_err g m = Err e \<longleftrightarrow> (\<exists>e'. m = Err e' \<and> e = g e')"
  by (cases m) auto

lemma map_err_eq_Panic [outcome_simps]: "map_err g m = Panic \<longleftrightarrow> m = Panic"
  by (cases m) auto

lemma unwrap_eq_Ok [outcome_simps]: "unwrap m = Ok a \<longleftrightarrow> m = Ok a"
  by (cases m) auto

lemma unwrap_not_Err [outcome_simps]: "unwrap m \<noteq> Err e"
  by (cases m) auto

lemma returned_eq [outcome_simps]:
  "returned x = Ok a \<longleftrightarrow> x = Inr a" "returned x = Err e \<longleftrightarrow> x = Inl e" "returned x \<noteq> Panic"
  by (cases x; simp)+

lemma ok_or_eq_Ok [outcome_simps]: "ok_or e x = Ok a \<longleftrightarrow> x = Some a"
  by (cases x) auto

lemma ok_or_eq_Err [outcome_simps]: "ok_or e x = Err e' \<longleftrightarrow> x = None \<and> e' = e"
  by (cases x) auto

lemma ok_or_not_Panic [outcome_simps]: "ok_or e x \<noteq> Panic"
  by (cases x) auto

lemma unwrap_option_eq [outcome_simps]:
  "unwrap_option x = Ok a \<longleftrightarrow> x = Some a" "unwrap_option x \<noteq> Err e" "unwrap_option x = Panic \<longleftrightarrow> x = None"
  by (cases x; simp)+

lemma slice_from_Ok [outcome_simps]:
  "slice_from n xs = Ok ys \<longleftrightarrow> n \<le> length xs \<and> ys = drop n xs"
  by (auto simp: slice_from_def)

lemma slice_range_Ok [outcome_simps]:
  "slice_range a b xs = Ok ys \<longleftrightarrow> a \<le> b \<and> b \<le> length xs \<and> ys = take (b - a) (drop a xs)"
  by (auto simp: slice_range_def)

lemma slice_range_Panic [outcome_simps]:
  "slice_range a b xs = Panic \<longleftrightarrow> \<not> (a \<le> b \<and> b \<le> length xs)"
  by (auto simp: slice_range_def)

text \<open>
  A step that reads from a source: \<open>yields content m a rest\<close> says that the step \<open>m\<close>
  returned \<open>a\<close> and left a source whose remaining content is \<open>rest\<close>.
\<close>

definition yields :: "('r \<Rightarrow> bytes) \<Rightarrow> ('e, 'a \<times> 'r) outcome \<Rightarrow> 'a \<Rightarrow> bytes \<Rightarrow> bool" where
  "yields content m a rest \<longleftrightarrow> (\<exists>r'. m = Ok (a, r') \<and> content r' = rest)"

lemma yieldsI [intro]: "m = Ok (a, r') \<Longrightarrow> content r' = rest \<Longrightarrow> yields content m a rest"
  by (auto simp: yields_def)

lemma yieldsE [elim]:
  assumes "yields content m a rest"
  obtains r' where "m = Ok (a, r')" and "content r' = rest"
  using assms by (auto simp: yields_def)

lemma yields_and_then:
  assumes "yields content m a mid"
    and "\<And>r'. content r' = mid \<Longrightarrow> yields content (f (a, r')) b rest"
  shows "yields content (and_then m f) b rest"
  using assms by (auto simp: yields_def)

text \<open>
  A total account of a reading step: it reports an error, or it returns a value with \<open>P\<close>
  whose encoding is exactly what was consumed. In particular it does not panic.
\<close>

definition exact_read ::
  "('r \<Rightarrow> bytes) \<Rightarrow> ('a \<Rightarrow> bool) \<Rightarrow> ('a \<Rightarrow> bytes) \<Rightarrow> ('e, 'a \<times> 'r) outcome \<Rightarrow> 'r \<Rightarrow> bool" where
  "exact_read content P enc m r \<longleftrightarrow>
     (\<exists>e. m = Err e) \<or> (\<exists>a r'. m = Ok (a, r') \<and> P a \<and> content r = enc a @ content r')"

lemma exact_read_Err [simp]: "exact_read content P enc (Err e) r"
  by (simp add: exact_read_def)

lemma exact_read_Ok [simp]:
  "exact_read content P enc (Ok (a, r')) r \<longleftrightarrow> P a \<and> content r = enc a @ content r'"
  by (simp add: exact_read_def)

lemma exact_read_cases [consumes 1, case_names error success]:
  assumes "exact_read content P enc m r"
  obtains e where "m = Err e"
  | a r' where "m = Ok (a, r')" and "P a" and "content r = enc a @ content r'"
  using assms by (auto simp: exact_read_def)

section \<open>Big-endian integers\<close>

definition be16 :: "u16 \<Rightarrow> bytes" where
  "be16 w = [ucast (drop_bit 8 w), ucast w]"

definition be32 :: "u32 \<Rightarrow> bytes" where
  "be32 w = [ucast (drop_bit 24 w), ucast (drop_bit 16 w), ucast (drop_bit 8 w), ucast w]"

definition of_be16 :: "u8 \<Rightarrow> u8 \<Rightarrow> u16" where
  "of_be16 a b = push_bit 8 (ucast a) OR ucast b"

definition of_be32 :: "u8 \<Rightarrow> u8 \<Rightarrow> u8 \<Rightarrow> u8 \<Rightarrow> u32" where
  "of_be32 a b c d =
     push_bit 24 (ucast a) OR push_bit 16 (ucast b) OR push_bit 8 (ucast c) OR ucast d"

lemma length_be16 [simp]: "length (be16 w) = 2"
  by (simp add: be16_def)

lemma length_be32 [simp]: "length (be32 w) = 4"
  by (simp add: be32_def)

lemma of_be16_be16 [simp]: "of_be16 (ucast (drop_bit 8 w)) (ucast w) = w"
  by (rule bit_word_eqI) (auto simp: of_be16_def bit_simps)

lemma of_be32_be32 [simp]:
  "of_be32 (ucast (drop_bit 24 w)) (ucast (drop_bit 16 w)) (ucast (drop_bit 8 w)) (ucast w) = w"
proof (rule bit_word_eqI)
  fix n assume "n < LENGTH(32)"
  then consider "n < 8" | "8 \<le> n" "n < 16" | "16 \<le> n" "n < 24" | "24 \<le> n" "n < 32"
    by fastforce
  then show "bit (of_be32 (ucast (drop_bit 24 w)) (ucast (drop_bit 16 w)) (ucast (drop_bit 8 w)) (ucast w)) n
    \<longleftrightarrow> bit w n"
    by cases (auto simp: of_be32_def bit_simps)
qed

lemma u8_no_bit [simp]: "8 \<le> n \<Longrightarrow> \<not> bit (x :: u8) n"
  by (auto dest: bit_imp_le_length)

lemma be16_of_be16 [simp]: "be16 (of_be16 a b) = [a, b]"
  by (auto intro!: bit_word_eqI simp: be16_def of_be16_def bit_simps)

lemma be32_of_be32 [simp]: "be32 (of_be32 a b c d) = [a, b, c, d]"
  by (auto intro!: bit_word_eqI simp: be32_def of_be32_def bit_simps)

lemma be16_inj [simp]: "be16 v = be16 w \<longleftrightarrow> v = w"
proof
  assume "be16 v = be16 w"
  then have "of_be16 (ucast (drop_bit 8 v)) (ucast v) = of_be16 (ucast (drop_bit 8 w)) (ucast w)"
    by (simp add: be16_def)
  then show "v = w" by simp
qed simp

lemma be32_inj [simp]: "be32 v = be32 w \<longleftrightarrow> v = w"
proof
  assume "be32 v = be32 w"
  then have "of_be32 (ucast (drop_bit 24 v)) (ucast (drop_bit 16 v)) (ucast (drop_bit 8 v)) (ucast v)
    = of_be32 (ucast (drop_bit 24 w)) (ucast (drop_bit 16 w)) (ucast (drop_bit 8 w)) (ucast w)"
    by (simp add: be32_def)
  then show "v = w" by simp
qed simp

section \<open>Lists read in pieces\<close>

lemma take_Suc_2: "2 \<le> length xs \<Longrightarrow> \<exists>a b ys. xs = a # b # ys"
  by (cases xs; cases "tl xs") auto

lemma length_eq_2: "length xs = 2 \<longleftrightarrow> (\<exists>a b. xs = [a, b])"
  by (auto simp: numeral_2_eq_2 length_Suc_conv)

lemma length_eq_6: "length xs = 6 \<longleftrightarrow> (\<exists>a b c d e f. xs = [a, b, c, d, e, f])"
  by (auto simp: numeral_eq_Suc length_Suc_conv)

lemma length_eq_4: "length xs = 4 \<longleftrightarrow> (\<exists>a b c d. xs = [a, b, c, d])"
  by (auto simp: numeral_eq_Suc length_Suc_conv)

lemma length_eq_18:
  "length xs = 18 \<longleftrightarrow>
     (\<exists>a b c d e f g h i j k l m n p q r s. xs = [a, b, c, d, e, f, g, h, i, j, k, l, m, n, p, q, r, s])"
  by (auto simp: numeral_eq_Suc length_Suc_conv)

lemma unat_u8_le: "unat (b :: u8) \<le> 255"
proof -
  have "unat b < 2 ^ LENGTH(8)" by (rule unsigned_less)
  then show ?thesis by simp
qed

lemma unat_of_nat_u8 [simp]: "n \<le> 255 \<Longrightarrow> unat (of_nat n :: u8) = n"
  by (simp add: unat_of_nat take_bit_nat_eq_self)

lemma unat_of_nat_u16 [simp]: "n \<le> 65535 \<Longrightarrow> unat (of_nat n :: u16) = n"
  by (simp add: unat_of_nat take_bit_nat_eq_self)

lemma case_option_FalseD: "(case x of None \<Rightarrow> False | Some a \<Rightarrow> P a) \<Longrightarrow> \<exists>a. x = Some a \<and> P a"
  by (cases x) auto

end
