(* ===== verification/Rust_Std.thy ===== *)
theory Rust_Std
  imports Prelude
begin

text \<open>
  What the sources use of the Rust standard library: decimal printing, \<open>String\<close> as a
  byte string with the UTF-8 validation of \<open>String::from_utf8\<close>, and socket addresses.
\<close>

section \<open>Decimal printing\<close>

definition digit_char :: "nat \<Rightarrow> char" where
  "digit_char n = char_of (48 + n)"

fun show_nat :: "nat \<Rightarrow> string" where
  "show_nat n = (if n < 10 then [digit_char n] else show_nat (n div 10) @ [digit_char (n mod 10)])"

declare show_nat.simps [simp del]

section \<open>Strings\<close>

text \<open>
  A \<open>String\<close> is the list of its bytes (a HOL \<open>char\<close> is a byte). \<open>as_bytes\<close> reads them as
  words; \<open>str_of_bytes\<close> is the unchecked converse, which \<open>from_utf8\<close> guards.
\<close>

definition as_bytes :: "string \<Rightarrow> bytes" where
  "as_bytes s = map (\<lambda>c. of_nat (of_char c)) s"

definition str_of_bytes :: "bytes \<Rightarrow> string" where
  "str_of_bytes bs = map (\<lambda>b. char_of (unat b)) bs"

lemma length_as_bytes [simp]: "length (as_bytes s) = length s"
  by (simp add: as_bytes_def)

lemma length_str_of_bytes [simp]: "length (str_of_bytes bs) = length bs"
  by (simp add: str_of_bytes_def)

lemma as_bytes_append [simp]: "as_bytes (s @ t) = as_bytes s @ as_bytes t"
  by (simp add: as_bytes_def)

lemma unat_of_char [simp]: "unat (of_nat (of_char c) :: u8) = of_char c"
  by (simp add: unat_of_nat take_bit_nat_eq_self)

lemma unat_mod_256 [simp]: "unat (b :: u8) mod 256 = unat b"
proof -
  have "unat b < 2 ^ LENGTH(8)" by (rule unsigned_less)
  then show ?thesis by simp
qed

lemma str_of_bytes_as_bytes [simp]: "str_of_bytes (as_bytes s) = s"
  by (simp add: str_of_bytes_def as_bytes_def comp_def)

lemma as_bytes_str_of_bytes [simp]: "as_bytes (str_of_bytes bs) = bs"
  by (simp add: str_of_bytes_def as_bytes_def comp_def)

lemma as_bytes_inj [simp]: "as_bytes s = as_bytes t \<longleftrightarrow> s = t"
  by (metis str_of_bytes_as_bytes)

text \<open>
  \<open>std::str::Utf8Error\<close>: how many bytes were valid, and the length of the bad sequence
  (\<open>None\<close> where the input ended inside a sequence).
\<close>

datatype utf8_error = Utf8Error (valid_up_to: nat) (error_len: "nat option")

definition utf8_char_width :: "u8 \<Rightarrow> nat" where
  "utf8_char_width b =
     (if b < 0x80 then 1
      else if 0xC2 \<le> b \<and> b \<le> 0xDF then 2
      else if 0xE0 \<le> b \<and> b \<le> 0xEF then 3
      else if 0xF0 \<le> b \<and> b \<le> 0xF4 then 4
      else 0)"

definition is_cont :: "u8 \<Rightarrow> bool" where
  "is_cont b \<longleftrightarrow> 0x80 \<le> b \<and> b \<le> 0xBF"

definition second_of_3 :: "u8 \<Rightarrow> u8 \<Rightarrow> bool" where
  "second_of_3 first b \<longleftrightarrow>
     (first = 0xE0 \<and> 0xA0 \<le> b \<and> b \<le> 0xBF)
     \<or> (0xE1 \<le> first \<and> first \<le> 0xEC \<and> 0x80 \<le> b \<and> b \<le> 0xBF)
     \<or> (first = 0xED \<and> 0x80 \<le> b \<and> b \<le> 0x9F)
     \<or> (0xEE \<le> first \<and> first \<le> 0xEF \<and> 0x80 \<le> b \<and> b \<le> 0xBF)"

definition second_of_4 :: "u8 \<Rightarrow> u8 \<Rightarrow> bool" where
  "second_of_4 first b \<longleftrightarrow>
     (first = 0xF0 \<and> 0x90 \<le> b \<and> b \<le> 0xBF)
     \<or> (0xF1 \<le> first \<and> first \<le> 0xF3 \<and> 0x80 \<le> b \<and> b \<le> 0xBF)
     \<or> (first = 0xF4 \<and> 0x80 \<le> b \<and> b \<le> 0x8F)"

text \<open>
  The validation loop, from byte \<open>i\<close> on. Each character is checked byte by byte, in the
  order the library checks them, so the error it reports is the library's.
\<close>

fun utf8_check :: "nat \<Rightarrow> bytes \<Rightarrow> utf8_error option" where
  "utf8_check i [] = None"
| "utf8_check i (first # v) =
     (if utf8_char_width first = 1 then utf8_check (i + 1) v
      else if utf8_char_width first = 2 then
        (case v of
           [] \<Rightarrow> Some (Utf8Error i None)
         | b # w \<Rightarrow> if is_cont b then utf8_check (i + 2) w else Some (Utf8Error i (Some 1)))
      else if utf8_char_width first = 3 then
        (case v of
           [] \<Rightarrow> Some (Utf8Error i None)
         | b # w \<Rightarrow>
             if \<not> second_of_3 first b then Some (Utf8Error i (Some 1))
             else (case w of
                     [] \<Rightarrow> Some (Utf8Error i None)
                   | c # x \<Rightarrow> if is_cont c then utf8_check (i + 3) x
                              else Some (Utf8Error i (Some 2))))
      else if utf8_char_width first = 4 then
        (case v of
           [] \<Rightarrow> Some (Utf8Error i None)
         | b # w \<Rightarrow>
             if \<not> second_of_4 first b then Some (Utf8Error i (Some 1))
             else (case w of
                     [] \<Rightarrow> Some (Utf8Error i None)
                   | c # x \<Rightarrow>
                       if \<not> is_cont c then Some (Utf8Error i (Some 2))
                       else (case x of
                               [] \<Rightarrow> Some (Utf8Error i None)
                             | d # y \<Rightarrow> if is_cont d then utf8_check (i + 4) y
                                        else Some (Utf8Error i (Some 3)))))
      else Some (Utf8Error i (Some 1)))"

definition String_from_utf8 :: "bytes \<Rightarrow> utf8_error + string" where
  "String_from_utf8 v = (case utf8_check 0 v of None \<Rightarrow> Inr (str_of_bytes v) | Some e \<Rightarrow> Inl e)"

fun Utf8Error_fmt :: "utf8_error \<Rightarrow> string" where
  "Utf8Error_fmt (Utf8Error n (Some k)) =
     ''invalid utf-8 sequence of '' @ show_nat k @ '' bytes from index '' @ show_nat n"
| "Utf8Error_fmt (Utf8Error n None) = ''incomplete utf-8 byte sequence from index '' @ show_nat n"

text \<open>The invariant of the type \<open>String\<close>: its bytes are valid UTF-8.\<close>

definition valid_str :: "string \<Rightarrow> bool" where
  "valid_str s \<longleftrightarrow> utf8_check 0 (as_bytes s) = None"

lemma from_utf8_as_bytes [simp]: "valid_str s \<Longrightarrow> String_from_utf8 (as_bytes s) = Inr s"
  by (simp add: valid_str_def String_from_utf8_def)

lemma from_utf8_Inr_iff:
  "String_from_utf8 bs = Inr s \<longleftrightarrow> valid_str s \<and> as_bytes s = bs"
  by (auto simp: String_from_utf8_def valid_str_def split: option.splits)

text \<open>An ASCII string is valid: the inputs of the witnesses, and every address literal.\<close>

lemma utf8_check_ascii: "\<forall>b \<in> set bs. b < 0x80 \<Longrightarrow> utf8_check i bs = None"
  by (induction bs arbitrary: i) (auto simp: utf8_char_width_def)

lemma valid_str_ascii: "\<forall>c \<in> set s. of_char c < (128 :: nat) \<Longrightarrow> valid_str s"
  unfolding valid_str_def as_bytes_def
  by (rule utf8_check_ascii) (auto simp: word_less_nat_alt)

section \<open>Socket addresses\<close>

datatype Ipv4Addr = Ipv4Addr u8 u8 u8 u8

datatype Ipv6Addr = Ipv6Addr u16 u16 u16 u16 u16 u16 u16 u16

datatype IpAddr = IpV4 Ipv4Addr | IpV6 Ipv6Addr

text \<open>\<open>SocketAddrV6\<close> also carries a flow label and a scope id.\<close>

datatype SocketAddr = V4 Ipv4Addr u16 | V6 Ipv6Addr u16 u32 u32

fun octets :: "Ipv4Addr \<Rightarrow> bytes" where
  "octets (Ipv4Addr a b c d) = [a, b, c, d]"

fun segments :: "Ipv6Addr \<Rightarrow> u16 list" where
  "segments (Ipv6Addr a b c d e f g h) = [a, b, c, d, e, f, g, h]"

lemma length_octets [simp]: "length (octets ip) = 4"
  by (cases ip) simp

lemma length_segments [simp]: "length (segments ip) = 8"
  by (cases ip) simp

text \<open>\<open>SocketAddr::from((ip, port))\<close>: an IPv6 address gets flow label and scope id 0.\<close>

fun SocketAddr_from :: "IpAddr \<Rightarrow> u16 \<Rightarrow> SocketAddr" where
  "SocketAddr_from (IpV4 ip) port = V4 ip port"
| "SocketAddr_from (IpV6 ip) port = V6 ip port 0 0"

definition Ipv4_UNSPECIFIED :: Ipv4Addr where
  "Ipv4_UNSPECIFIED = Ipv4Addr 0 0 0 0"

definition Ipv4_LOCALHOST :: Ipv4Addr where
  "Ipv4_LOCALHOST = Ipv4Addr 127 0 0 1"

definition Ipv6_UNSPECIFIED :: Ipv6Addr where
  "Ipv6_UNSPECIFIED = Ipv6Addr 0 0 0 0 0 0 0 0"

end
