(* ===== verification/Io_Interfaces.thy ===== *)
theory Io_Interfaces
  imports Rust_Std
begin

text \<open>
  The byte I/O the sources take from other crates, as dictionaries of operations that the
  model's definitions receive as arguments, and the documented behaviour of each as a locale:
  \<^item> \<open>tokio::io::AsyncReadExt\<close> on a reader (\<open>async_read\<close>, \<open>async_reader\<close>);
  \<^item> \<open>byteorder::ReadBytesExt\<close> with \<open>BigEndian\<close> on a buffer in memory (\<open>byteorder\<close>,
    \<open>big_endian\<close>);
  \<^item> \<open>bytes::BufMut\<close> on a growing buffer (\<open>buf_mut\<close>, \<open>byte_buffer\<close>);
  \<^item> \<open>tokio::io::AsyncWriteExt::write_all\<close> on a writer (\<open>async_write\<close>, \<open>byte_writer\<close>);
  \<^item> quinn's own \<open>read_exact\<close>, \<open>write_all\<close> and \<open>finish\<close> on its streams (\<open>quinn_recv\<close>,
    \<open>quinn_send\<close>, \<open>quinn_receiver\<close>, \<open>quinn_sender\<close>).
  A reader or writer is any type: what is known of it is the content it will still deliver
  before it ends, or what has been written to it.
\<close>

section \<open>Dictionaries\<close>

record 'r async_read =
  read_u8 :: "'r \<Rightarrow> (io_error, u8 \<times> 'r) outcome"
  read_u32 :: "'r \<Rightarrow> (io_error, u32 \<times> 'r) outcome"
  read_exact :: "nat \<Rightarrow> 'r \<Rightarrow> (io_error, bytes \<times> 'r) outcome"

record byteorder =
  be_read_u8 :: "bytes \<Rightarrow> (io_error, u8 \<times> bytes) outcome"
  be_read_u16 :: "bytes \<Rightarrow> (io_error, u16 \<times> bytes) outcome"
  be_read_u32 :: "bytes \<Rightarrow> (io_error, u32 \<times> bytes) outcome"

record 'b buf_mut =
  put_u8 :: "u8 \<Rightarrow> 'b \<Rightarrow> 'b"
  put_u16 :: "u16 \<Rightarrow> 'b \<Rightarrow> 'b"
  put_u32 :: "u32 \<Rightarrow> 'b \<Rightarrow> 'b"
  put_slice :: "bytes \<Rightarrow> 'b \<Rightarrow> 'b"
  extend_from_slice :: "bytes \<Rightarrow> 'b \<Rightarrow> 'b"

record 'w async_write =
  write_all :: "bytes \<Rightarrow> 'w \<Rightarrow> (io_error, 'w) outcome"

text \<open>An error of quinn is known to the code by the message it displays.\<close>

type_synonym quinn_error = string

record 'r quinn_recv =
  q_read_exact :: "nat \<Rightarrow> 'r \<Rightarrow> (quinn_error, bytes \<times> 'r) outcome"

record 'w quinn_send =
  q_write_all :: "bytes \<Rightarrow> 'w \<Rightarrow> (quinn_error, 'w) outcome"
  q_finish :: "'w \<Rightarrow> (quinn_error, 'w) outcome"

section \<open>Contracts\<close>

text \<open>
  A reader delivers its content in order; a read of more than is left is an error (the
  stream ended early or broke), never a short read and never a panic.
\<close>

locale async_reader =
  fixes rd :: "'r async_read"
    and content :: "'r \<Rightarrow> bytes"
  assumes read_u8_more: "content r = b # bs \<Longrightarrow> yields content (read_u8 rd r) b bs"
    and read_u8_end: "content r = [] \<Longrightarrow> \<exists>e. read_u8 rd r = Err e"
    and read_u32_more: "content r = be32 w @ bs \<Longrightarrow> yields content (read_u32 rd r) w bs"
    and read_u32_end: "length (content r) < 4 \<Longrightarrow> \<exists>e. read_u32 rd r = Err e"
    and read_exact_more:
      "content r = bs @ cs \<Longrightarrow> length bs = n \<Longrightarrow> yields content (read_exact rd n r) bs cs"
    and read_exact_end: "length (content r) < n \<Longrightarrow> \<exists>e. read_exact rd n r = Err e"
begin

lemma read_u8_cases:
  obtains (more) b r' where "read_u8 rd r = Ok (b, r')" and "content r = b # content r'"
  | (stop) e where "read_u8 rd r = Err e" and "content r = []"
proof (cases "content r")
  case Nil
  with read_u8_end stop show ?thesis by blast
next
  case (Cons b bs)
  with read_u8_more [OF Cons] more show ?thesis by auto
qed

lemma read_u32_cases:
  obtains (more) w r' where "read_u32 rd r = Ok (w, r')" and "content r = be32 w @ content r'"
  | (stop) e where "read_u32 rd r = Err e" and "length (content r) < 4"
proof (cases "length (content r) < 4")
  case True
  with read_u32_end stop show ?thesis by blast
next
  case False
  then have "length (take 4 (content r)) = 4" by simp
  then obtain a b c d where "take 4 (content r) = [a, b, c, d]"
    unfolding length_eq_4 by blast
  then have "content r = be32 (of_be32 a b c d) @ drop 4 (content r)"
    by (metis append_take_drop_id be32_of_be32)
  from this read_u32_more [OF this] more show ?thesis by auto
qed

lemma read_exact_cases:
  obtains (more) bs r' where "read_exact rd n r = Ok (bs, r')" and "length bs = n"
      and "content r = bs @ content r'"
  | (stop) e where "read_exact rd n r = Err e" and "length (content r) < n"
proof (cases "length (content r) < n")
  case True
  with read_exact_end stop show ?thesis by blast
next
  case False
  then have "length (take n (content r)) = n" and "content r = take n (content r) @ drop n (content r)"
    by auto
  from read_exact_more [OF this(2,1)] this more show ?thesis by (metis yieldsE)
qed

end

locale big_endian =
  fixes bo :: byteorder
  assumes be_u8 [simp]: "be_read_u8 bo (b # bs) = Ok (b, bs)"
    and be_u16 [simp]: "be_read_u16 bo (a # b # bs) = Ok (of_be16 a b, bs)"
    and be_u32 [simp]: "be_read_u32 bo (a # b # c # d # bs) = Ok (of_be32 a b c d, bs)"

locale wire_reader = async_reader rd content + big_endian bo
  for rd :: "'r async_read" and content :: "'r \<Rightarrow> bytes" and bo :: byteorder

locale byte_buffer =
  fixes bm :: "'b buf_mut"
    and bytes_of :: "'b \<Rightarrow> bytes"
  assumes put_u8 [simp]: "bytes_of (put_u8 bm b buf) = bytes_of buf @ [b]"
    and put_u16 [simp]: "bytes_of (put_u16 bm w buf) = bytes_of buf @ be16 w"
    and put_u32 [simp]: "bytes_of (put_u32 bm v buf) = bytes_of buf @ be32 v"
    and put_slice [simp]: "bytes_of (put_slice bm bs buf) = bytes_of buf @ bs"
    and extend_from_slice [simp]: "bytes_of (extend_from_slice bm bs buf) = bytes_of buf @ bs"

text \<open>
  A writer either takes all the bytes, after those it already has, or fails; \<open>finish\<close> adds
  nothing.
\<close>

locale byte_writer =
  fixes wr :: "'w async_write"
    and sent :: "'w \<Rightarrow> bytes"
  assumes write_all_Ok: "write_all wr bs w = Ok w' \<Longrightarrow> sent w' = sent w @ bs"
    and write_all_total: "write_all wr bs w \<noteq> Panic"

locale quinn_sender = byte_writer wr sent
  for wr :: "'w async_write" and sent :: "'w \<Rightarrow> bytes" +
  fixes qs :: "'w quinn_send"
  assumes q_write_all_Ok: "q_write_all qs bs w = Ok w' \<Longrightarrow> sent w' = sent w @ bs"
    and q_write_all_total: "q_write_all qs bs w \<noteq> Panic"
    and q_finish_Ok: "q_finish qs w = Ok w' \<Longrightarrow> sent w' = sent w"
    and q_finish_total: "q_finish qs w \<noteq> Panic"

locale quinn_receiver = wire_reader rd content bo
  for rd :: "'r async_read" and content :: "'r \<Rightarrow> bytes" and bo :: byteorder +
  fixes qr :: "'r quinn_recv"
  assumes q_read_exact_more:
      "content r = bs @ cs \<Longrightarrow> length bs = n \<Longrightarrow> yields content (q_read_exact qr n r) bs cs"
    and q_read_exact_end: "length (content r) < n \<Longrightarrow> \<exists>e. q_read_exact qr n r = Err e"
begin

lemma q_read_exact_cases:
  obtains (more) bs r' where "q_read_exact qr n r = Ok (bs, r')" and "length bs = n"
      and "content r = bs @ content r'"
  | (stop) e where "q_read_exact qr n r = Err e" and "length (content r) < n"
proof (cases "length (content r) < n")
  case True
  with q_read_exact_end stop show ?thesis by blast
next
  case False
  then have "length (take n (content r)) = n" and "content r = take n (content r) @ drop n (content r)"
    by auto
  from q_read_exact_more [OF this(2,1)] this more show ?thesis by (metis yieldsE)
qed

end

section \<open>The readers and buffers in memory\<close>

text \<open>
  The reader that \<open>&[u8]\<close> is (what \<open>process_datagram\<close> and the client's \<open>parse_header\<close> read
  a datagram through), and the buffer that \<open>Vec<u8>\<close> and \<open>BytesMut\<close> are.
\<close>

definition early_eof :: io_error where
  "early_eof = IoError UnexpectedEof ''early eof''"

fun slice_read_u8 :: "bytes \<Rightarrow> (io_error, u8 \<times> bytes) outcome" where
  "slice_read_u8 (b # bs) = Ok (b, bs)"
| "slice_read_u8 [] = Err early_eof"

fun slice_read_u16 :: "bytes \<Rightarrow> (io_error, u16 \<times> bytes) outcome" where
  "slice_read_u16 (a # b # bs) = Ok (of_be16 a b, bs)"
| "slice_read_u16 _ = Err early_eof"

fun slice_read_u32 :: "bytes \<Rightarrow> (io_error, u32 \<times> bytes) outcome" where
  "slice_read_u32 (a # b # c # d # bs) = Ok (of_be32 a b c d, bs)"
| "slice_read_u32 _ = Err early_eof"

definition slice_read_exact :: "nat \<Rightarrow> bytes \<Rightarrow> (io_error, bytes \<times> bytes) outcome" where
  "slice_read_exact n bs = (if n \<le> length bs then Ok (take n bs, drop n bs) else Err early_eof)"

definition slice_reader :: "bytes async_read" where
  "slice_reader = \<lparr>read_u8 = slice_read_u8, read_u32 = slice_read_u32, read_exact = slice_read_exact\<rparr>"

definition cursor_order :: byteorder where
  "cursor_order =
     \<lparr>be_read_u8 = slice_read_u8, be_read_u16 = slice_read_u16, be_read_u32 = slice_read_u32\<rparr>"

definition vec_buf :: "bytes buf_mut" where
  "vec_buf = \<lparr>put_u8 = \<lambda>b buf. buf @ [b], put_u16 = \<lambda>w buf. buf @ be16 w,
              put_u32 = \<lambda>v buf. buf @ be32 v, put_slice = \<lambda>bs buf. buf @ bs,
              extend_from_slice = \<lambda>bs buf. buf @ bs\<rparr>"

definition vec_writer :: "bytes async_write" where
  "vec_writer = \<lparr>write_all = \<lambda>bs w. Ok (w @ bs)\<rparr>"

text \<open>A stream whose bytes are all there, with quinn's operations.\<close>

definition buffered_recv :: "bytes quinn_recv" where
  "buffered_recv =
     \<lparr>q_read_exact = \<lambda>n bs. if n \<le> length bs then Ok (take n bs, drop n bs) else Err ''stream finished early''\<rparr>"

definition buffered_send :: "bytes quinn_send" where
  "buffered_send = \<lparr>q_write_all = \<lambda>bs w. Ok (w @ bs), q_finish = Ok\<rparr>"

lemma slice_read_u32_short: "length bs < 4 \<Longrightarrow> slice_read_u32 bs = Err early_eof"
  by (cases bs rule: slice_read_u32.cases) auto

interpretation slice: wire_reader slice_reader "\<lambda>bs. bs" cursor_order
  by unfold_locales
    (auto simp: slice_reader_def cursor_order_def slice_read_exact_def yields_def
      slice_read_u32_short be32_def)

interpretation vec: byte_buffer vec_buf "\<lambda>bs. bs"
  by unfold_locales (auto simp: vec_buf_def)

interpretation bufrecv: quinn_receiver slice_reader "\<lambda>bs. bs" cursor_order buffered_recv
  by unfold_locales (auto simp: buffered_recv_def yields_def)

interpretation bufsend: quinn_sender vec_writer "\<lambda>bs. bs" buffered_send
  by unfold_locales (auto simp: vec_writer_def buffered_send_def)

end
