(* ===== verification/Protocol.thy ===== *)
theory Protocol
  imports Io_Interfaces
begin

text \<open>
  The TUIC protocol crate (\<open>protocol/src/lib.rs\<close>): the types \<open>Command\<close> and \<open>Address\<close>, their
  readers, writers and lengths. The functions are generic in the reader and in the buffer,
  as the code is in \<open>R: AsyncRead\<close> and \<open>B: BufMut\<close>. The lemmas show that the reader inverts
  the writer in both directions, that the length function is the length of what is written,
  and that no input makes the reader panic.
\<close>

section \<open>Address\<close>

datatype Address = DomainAddress string u16 | SocketAddress SocketAddr

definition TYPE_DOMAIN :: u8 where [tuic_const]: "TYPE_DOMAIN = 0x00"
definition TYPE_IPV4 :: u8 where [tuic_const]: "TYPE_IPV4 = 0x01"
definition TYPE_IPV6 :: u8 where [tuic_const]: "TYPE_IPV6 = 0x02"

definition read_domain ::
  "'r async_read \<Rightarrow> byteorder \<Rightarrow> 'r \<Rightarrow> (io_error, Address \<times> 'r) outcome" where
  "read_domain rd bo stream =
     and_then (read_u8 rd stream) (\<lambda>(b, stream).
     let len = unat b in
     and_then (read_exact rd (len + 2) stream) (\<lambda>(buf, stream).
     and_then (slice_from len buf) (\<lambda>tail.
     and_then (unwrap (be_read_u16 bo tail)) (\<lambda>(port, _).
     let buf = take len buf in
     case String_from_utf8 buf of
       Inl err \<Rightarrow> Err (IoError InvalidData (''Invalid address encoding: '' @ Utf8Error_fmt err))
     | Inr addr \<Rightarrow> Ok (DomainAddress addr port, stream)))))"

definition read_ipv4 ::
  "'r async_read \<Rightarrow> byteorder \<Rightarrow> 'r \<Rightarrow> (io_error, Address \<times> 'r) outcome" where
  "read_ipv4 rd bo stream =
     and_then (read_exact rd 6 stream) (\<lambda>(rdr, stream).
     and_then (unwrap (be_read_u8 bo rdr)) (\<lambda>(a, rdr).
     and_then (unwrap (be_read_u8 bo rdr)) (\<lambda>(b, rdr).
     and_then (unwrap (be_read_u8 bo rdr)) (\<lambda>(c, rdr).
     and_then (unwrap (be_read_u8 bo rdr)) (\<lambda>(d, rdr).
     and_then (unwrap (be_read_u16 bo rdr)) (\<lambda>(port, rdr).
     Ok (SocketAddress (SocketAddr_from (IpV4 (Ipv4Addr a b c d)) port), stream)))))))"

definition read_ipv6 ::
  "'r async_read \<Rightarrow> byteorder \<Rightarrow> 'r \<Rightarrow> (io_error, Address \<times> 'r) outcome" where
  "read_ipv6 rd bo stream =
     and_then (read_exact rd 18 stream) (\<lambda>(rdr, stream).
     and_then (unwrap (be_read_u16 bo rdr)) (\<lambda>(a, rdr).
     and_then (unwrap (be_read_u16 bo rdr)) (\<lambda>(b, rdr).
     and_then (unwrap (be_read_u16 bo rdr)) (\<lambda>(c, rdr).
     and_then (unwrap (be_read_u16 bo rdr)) (\<lambda>(d, rdr).
     and_then (unwrap (be_read_u16 bo rdr)) (\<lambda>(e, rdr).
     and_then (unwrap (be_read_u16 bo rdr)) (\<lambda>(f, rdr).
     and_then (unwrap (be_read_u16 bo rdr)) (\<lambda>(g, rdr).
     and_then (unwrap (be_read_u16 bo rdr)) (\<lambda>(h, rdr).
     and_then (unwrap (be_read_u16 bo rdr)) (\<lambda>(port, rdr).
     Ok (SocketAddress (SocketAddr_from (IpV6 (Ipv6Addr a b c d e f g h)) port), stream)))))))))))"

definition Address_read_from ::
  "'r async_read \<Rightarrow> byteorder \<Rightarrow> 'r \<Rightarrow> (io_error, Address \<times> 'r) outcome" where
  "Address_read_from rd bo stream =
     and_then (read_u8 rd stream) (\<lambda>(addr_type, stream).
     if addr_type = TYPE_DOMAIN then read_domain rd bo stream
     else if addr_type = TYPE_IPV4 then read_ipv4 rd bo stream
     else if addr_type = TYPE_IPV6 then read_ipv6 rd bo stream
     else Err (IoError InvalidInput (''Unsupported address type: '' @ show_nat (unat addr_type))))"

fun Address_write_to_buf :: "'b buf_mut \<Rightarrow> Address \<Rightarrow> 'b \<Rightarrow> 'b" where
  "Address_write_to_buf bm (DomainAddress addr port) buf =
     put_u16 bm port
       (put_slice bm (as_bytes addr)
         (put_u8 bm (of_nat (length (as_bytes addr)))
           (put_u8 bm TYPE_DOMAIN buf)))"
| "Address_write_to_buf bm (SocketAddress (V4 ip port)) buf =
     put_u16 bm port (put_slice bm (octets ip) (put_u8 bm TYPE_IPV4 buf))"
| "Address_write_to_buf bm (SocketAddress (V6 ip port flowinfo scope_id)) buf =
     put_u16 bm port (fold (put_u16 bm) (segments ip) (put_u8 bm TYPE_IPV6 buf))"

fun Address_serialized_len :: "Address \<Rightarrow> usize" where
  "Address_serialized_len (DomainAddress addr port) = 1 + (1 + length (as_bytes addr) + 2)"
| "Address_serialized_len (SocketAddress (V4 ip port)) = 1 + 6"
| "Address_serialized_len (SocketAddress (V6 ip port flowinfo scope_id)) = 1 + 18"

definition Address_max_serialized_len :: usize where
  "Address_max_serialized_len = 1 + 1 + 255 + 2"

definition Address_write_to ::
  "bytes buf_mut \<Rightarrow> 'w async_write \<Rightarrow> Address \<Rightarrow> 'w \<Rightarrow> (io_error, 'w) outcome" where
  "Address_write_to bm wr addr writer =
     (let buf = Address_write_to_buf bm addr [] in write_all wr buf writer)"

section \<open>Command\<close>

datatype Command =
    Response bool
  | Authenticate bytes
  | Connect Address
  | Packet u32 u16 Address
  | Dissociate u32
  | Heartbeat

definition new_response :: "bool \<Rightarrow> Command" where
  [simp]: "new_response is_succeeded = Response is_succeeded"
definition new_authenticate :: "bytes \<Rightarrow> Command" where [simp]: "new_authenticate digest = Authenticate digest"
definition new_connect :: "Address \<Rightarrow> Command" where [simp]: "new_connect addr = Connect addr"
definition new_packet :: "u32 \<Rightarrow> u16 \<Rightarrow> Address \<Rightarrow> Command" where
  [simp]: "new_packet assoc_id len addr = Packet assoc_id len addr"
definition new_dissociate :: "u32 \<Rightarrow> Command" where [simp]: "new_dissociate assoc_id = Dissociate assoc_id"
definition new_heartbeat :: Command where [simp]: "new_heartbeat = Heartbeat"

definition TUIC_PROTOCOL_VERSION :: u8 where [tuic_const]: "TUIC_PROTOCOL_VERSION = 0x04"

definition TYPE_RESPONSE :: u8 where [tuic_const]: "TYPE_RESPONSE = 0xff"
definition TYPE_AUTHENTICATE :: u8 where [tuic_const]: "TYPE_AUTHENTICATE = 0x00"
definition TYPE_CONNECT :: u8 where [tuic_const]: "TYPE_CONNECT = 0x01"
definition TYPE_PACKET :: u8 where [tuic_const]: "TYPE_PACKET = 0x02"
definition TYPE_DISSOCIATE :: u8 where [tuic_const]: "TYPE_DISSOCIATE = 0x03"
definition TYPE_HEARTBEAT :: u8 where [tuic_const]: "TYPE_HEARTBEAT = 0x04"

definition RESPONSE_SUCCEEDED :: u8 where [tuic_const]: "RESPONSE_SUCCEEDED = 0x00"
definition RESPONSE_FAILED :: u8 where [tuic_const]: "RESPONSE_FAILED = 0xff"

definition Command_read_from ::
  "'r async_read \<Rightarrow> byteorder \<Rightarrow> 'r \<Rightarrow> (io_error, Command \<times> 'r) outcome" where
  "Command_read_from rd bo r =
     and_then (read_u8 rd r) (\<lambda>(ver, r).
     if ver \<noteq> TUIC_PROTOCOL_VERSION then
       Err (IoError Unsupported (''Unsupported TUIC version: '' @ show_nat (unat ver)))
     else
       and_then (read_u8 rd r) (\<lambda>(cmd, r).
       if cmd = TYPE_RESPONSE then
         and_then (read_u8 rd r) (\<lambda>(resp, r).
         if resp = RESPONSE_SUCCEEDED then Ok (new_response True, r)
         else if resp = RESPONSE_FAILED then Ok (new_response False, r)
         else Err (IoError InvalidInput (''Invalid response code: '' @ show_nat (unat resp))))
       else if cmd = TYPE_AUTHENTICATE then
         and_then (read_exact rd 32 r) (\<lambda>(digest, r). Ok (new_authenticate digest, r))
       else if cmd = TYPE_CONNECT then
         and_then (Address_read_from rd bo r) (\<lambda>(addr, r). Ok (new_connect addr, r))
       else if cmd = TYPE_PACKET then
         and_then (read_exact rd 6 r) (\<lambda>(rdr, r).
         and_then (unwrap (be_read_u32 bo rdr)) (\<lambda>(assoc_id, rdr).
         and_then (unwrap (be_read_u16 bo rdr)) (\<lambda>(len, rdr).
         and_then (Address_read_from rd bo r) (\<lambda>(addr, r).
         Ok (new_packet assoc_id len addr, r)))))
       else if cmd = TYPE_DISSOCIATE then
         and_then (read_u32 rd r) (\<lambda>(assoc_id, r). Ok (new_dissociate assoc_id, r))
       else if cmd = TYPE_HEARTBEAT then Ok (new_heartbeat, r)
       else Err (IoError InvalidInput (''Invalid command: '' @ show_nat (unat cmd)))))"

fun Command_write_to_buf :: "'b buf_mut \<Rightarrow> Command \<Rightarrow> 'b \<Rightarrow> 'b" where
  "Command_write_to_buf bm (Response is_succeeded) buf =
     (let buf = put_u8 bm TYPE_RESPONSE (put_u8 bm TUIC_PROTOCOL_VERSION buf) in
      if is_succeeded then put_u8 bm RESPONSE_SUCCEEDED buf else put_u8 bm RESPONSE_FAILED buf)"
| "Command_write_to_buf bm (Authenticate digest) buf =
     put_slice bm digest (put_u8 bm TYPE_AUTHENTICATE (put_u8 bm TUIC_PROTOCOL_VERSION buf))"
| "Command_write_to_buf bm (Connect addr) buf =
     Address_write_to_buf bm addr (put_u8 bm TYPE_CONNECT (put_u8 bm TUIC_PROTOCOL_VERSION buf))"
| "Command_write_to_buf bm (Packet assoc_id len addr) buf =
     Address_write_to_buf bm addr
       (put_u16 bm len
         (put_u32 bm assoc_id (put_u8 bm TYPE_PACKET (put_u8 bm TUIC_PROTOCOL_VERSION buf))))"
| "Command_write_to_buf bm (Dissociate assoc_id) buf =
     put_u32 bm assoc_id (put_u8 bm TYPE_DISSOCIATE (put_u8 bm TUIC_PROTOCOL_VERSION buf))"
| "Command_write_to_buf bm Heartbeat buf =
     put_u8 bm TYPE_HEARTBEAT (put_u8 bm TUIC_PROTOCOL_VERSION buf)"

fun Command_serialized_len :: "Command \<Rightarrow> usize" where
  "Command_serialized_len (Response b) = 2 + 1"
| "Command_serialized_len (Authenticate digest) = 2 + 32"
| "Command_serialized_len (Connect addr) = 2 + Address_serialized_len addr"
| "Command_serialized_len (Packet assoc_id len addr) = 2 + (6 + Address_serialized_len addr)"
| "Command_serialized_len (Dissociate assoc_id) = 2 + 4"
| "Command_serialized_len Heartbeat = 2 + 0"

definition Command_max_serialized_len :: usize where
  "Command_max_serialized_len = 2 + 6 + Address_max_serialized_len"

definition Command_write_to ::
  "bytes buf_mut \<Rightarrow> 'w async_write \<Rightarrow> Command \<Rightarrow> 'w \<Rightarrow> (io_error, 'w) outcome" where
  "Command_write_to bm wr cmd w =
     (let buf = Command_write_to_buf bm cmd [] in write_all wr buf w)"

section \<open>The wire format\<close>

text \<open>
  The format the protocol document fixes, as a function to byte strings: the specification
  the writers are checked against and the readers invert.
\<close>

fun encode_Address :: "Address \<Rightarrow> bytes" where
  "encode_Address (DomainAddress addr port) =
     TYPE_DOMAIN # of_nat (length addr) # as_bytes addr @ be16 port"
| "encode_Address (SocketAddress (V4 ip port)) = TYPE_IPV4 # octets ip @ be16 port"
| "encode_Address (SocketAddress (V6 ip port flowinfo scope_id)) =
     TYPE_IPV6 # concat (map be16 (segments ip)) @ be16 port"

fun encode_Command :: "Command \<Rightarrow> bytes" where
  "encode_Command (Response b) =
     [TUIC_PROTOCOL_VERSION, TYPE_RESPONSE, if b then RESPONSE_SUCCEEDED else RESPONSE_FAILED]"
| "encode_Command (Authenticate digest) = TUIC_PROTOCOL_VERSION # TYPE_AUTHENTICATE # digest"
| "encode_Command (Connect addr) = TUIC_PROTOCOL_VERSION # TYPE_CONNECT # encode_Address addr"
| "encode_Command (Packet assoc_id len addr) =
     TUIC_PROTOCOL_VERSION # TYPE_PACKET # be32 assoc_id @ be16 len @ encode_Address addr"
| "encode_Command (Dissociate assoc_id) = TUIC_PROTOCOL_VERSION # TYPE_DISSOCIATE # be32 assoc_id"
| "encode_Command Heartbeat = [TUIC_PROTOCOL_VERSION, TYPE_HEARTBEAT]"

text \<open>A UDP packet with its header, as both sides put it on the wire.\<close>

fun packet_bytes :: "u32 \<times> bytes \<times> Address \<Rightarrow> bytes" where
  "packet_bytes (assoc_id, pkt, addr) = encode_Command (Packet assoc_id (of_nat (length pkt)) addr) @ pkt"

text \<open>
  The values the format can carry: a domain name is a \<open>String\<close> of at most 255 bytes (its
  length is one byte), a digest is a \<open>[u8; 32]\<close>.
\<close>

fun Address_ok :: "Address \<Rightarrow> bool" where
  "Address_ok (DomainAddress addr port) \<longleftrightarrow> valid_str addr \<and> length addr \<le> 255"
| "Address_ok (SocketAddress a) \<longleftrightarrow> True"

fun Command_ok :: "Command \<Rightarrow> bool" where
  "Command_ok (Authenticate digest) \<longleftrightarrow> length digest = 32"
| "Command_ok (Connect addr) \<longleftrightarrow> Address_ok addr"
| "Command_ok (Packet assoc_id len addr) \<longleftrightarrow> Address_ok addr"
| "Command_ok _ \<longleftrightarrow> True"

text \<open>What a reader gives back: an IPv6 address loses its flow label and scope id.\<close>

fun wire_Address :: "Address \<Rightarrow> Address" where
  "wire_Address (SocketAddress (V6 ip port flowinfo scope_id)) = SocketAddress (V6 ip port 0 0)"
| "wire_Address a = a"

fun wire_Command :: "Command \<Rightarrow> Command" where
  "wire_Command (Connect addr) = Connect (wire_Address addr)"
| "wire_Command (Packet assoc_id len addr) = Packet assoc_id len (wire_Address addr)"
| "wire_Command c = c"

lemma wire_Address_idem [simp]: "wire_Address (wire_Address a) = wire_Address a"
  by (cases a rule: wire_Address.cases) auto

lemma wire_Command_idem [simp]: "wire_Command (wire_Command c) = wire_Command c"
  by (cases c) auto

lemma encode_wire_Address [simp]: "encode_Address (wire_Address a) = encode_Address a"
  by (cases a rule: wire_Address.cases) auto

lemma encode_wire_Command [simp]: "encode_Command (wire_Command c) = encode_Command c"
  by (cases c) auto

lemma length_concat_be16: "length (concat (map be16 ws)) = 2 * length ws"
  by (induction ws) auto

lemma length_encode_Address: "length (encode_Address a) = Address_serialized_len a"
  by (cases a rule: encode_Address.cases) (auto simp: length_concat_be16)

lemma length_encode_Command: "Command_ok c \<Longrightarrow> length (encode_Command c) = Command_serialized_len c"
  by (cases c) (auto simp: length_encode_Address)

section \<open>The writers produce the format\<close>

context byte_buffer
begin

lemma put_segments: "bytes_of (fold (put_u16 bm) ws buf) = bytes_of buf @ concat (map be16 ws)"
  by (induction ws arbitrary: buf) auto

lemma write_Address: "bytes_of (Address_write_to_buf bm a buf) = bytes_of buf @ encode_Address a"
  by (cases a rule: encode_Address.cases) (auto simp: put_segments)

lemma write_Command: "bytes_of (Command_write_to_buf bm c buf) = bytes_of buf @ encode_Command c"
  by (cases c) (auto simp: write_Address)

end

section \<open>The readers invert it\<close>

context wire_reader
begin

lemma read_domain_encode:
  assumes c: "content r = of_nat (length addr) # as_bytes addr @ be16 port @ rest"
    and ok: "valid_str addr" "length addr \<le> 255"
  shows "yields content (read_domain rd bo r) (DomainAddress addr port) rest"
proof -
  from read_u8_more [OF c] obtain r1
    where 1: "read_u8 rd r = Ok (of_nat (length addr), r1)"
      and c1: "content r1 = (as_bytes addr @ be16 port) @ rest" by auto
  from read_exact_more [OF c1 refl] obtain r2
    where 2: "read_exact rd (length addr + 2) r1 = Ok (as_bytes addr @ be16 port, r2)"
      and "content r2 = rest" by auto
  with 1 ok show ?thesis
    by (auto simp: read_domain_def Let_def slice_from_def be16_def yields_def)
qed

lemma read_ipv4_encode:
  assumes "content r = (octets ip @ be16 port) @ rest"
  shows "yields content (read_ipv4 rd bo r) (SocketAddress (V4 ip port)) rest"
proof -
  from read_exact_more [OF assms refl] obtain r'
    where "read_exact rd 6 r = Ok (octets ip @ be16 port, r')" and "content r' = rest" by auto
  then show ?thesis
    by (cases ip) (auto simp: read_ipv4_def be16_def yields_def)
qed

lemma read_ipv6_encode:
  assumes "content r = (concat (map be16 (segments ip)) @ be16 port) @ rest"
  shows "yields content (read_ipv6 rd bo r) (SocketAddress (V6 ip port 0 0)) rest"
proof -
  have "length (concat (map be16 (segments ip)) @ be16 port) = 18"
    by (simp add: length_concat_be16)
  from read_exact_more [OF assms this] obtain r'
    where "read_exact rd 18 r = Ok (concat (map be16 (segments ip)) @ be16 port, r')"
      and "content r' = rest" by auto
  then show ?thesis
    by (cases ip) (auto simp: read_ipv6_def be16_def yields_def)
qed

lemma read_Address_encode:
  assumes "content r = encode_Address a @ rest" and "Address_ok a"
  shows "yields content (Address_read_from rd bo r) (wire_Address a) rest"
proof -
  obtain t body where e: "encode_Address a = t # body"
    by (cases a rule: encode_Address.cases) auto
  with assms(1) read_u8_more [of r t "body @ rest"] obtain r'
    where "read_u8 rd r = Ok (t, r')" and "content r' = body @ rest" by auto
  with assms(2) e show ?thesis
    by (cases a rule: encode_Address.cases)
      (auto simp: Address_read_from_def tuic_const
        intro: read_domain_encode read_ipv4_encode read_ipv6_encode)
qed

lemma read_packet_encode:
  assumes "content r = be32 assoc_id @ be16 len @ encode_Address addr @ rest" and "Address_ok addr"
  obtains r' where "read_exact rd 6 r = Ok (be32 assoc_id @ be16 len, r')"
    "yields content (Address_read_from rd bo r') (wire_Address addr) rest"
proof -
  from assms(1) have "content r = (be32 assoc_id @ be16 len) @ encode_Address addr @ rest" by simp
  from read_exact_more [OF this, of 6] obtain r'
    where "read_exact rd 6 r = Ok (be32 assoc_id @ be16 len, r')" "content r' = encode_Address addr @ rest" by auto
  with that read_Address_encode [OF _ assms(2)] show thesis by blast
qed

lemma read_Command_encode:
  assumes c: "content r = encode_Command c @ rest" and ok: "Command_ok c"
  shows "yields content (Command_read_from rd bo r) (wire_Command c) rest"
proof -
  obtain t body where e: "encode_Command c = TUIC_PROTOCOL_VERSION # t # body"
    by (cases c) auto
  with c read_u8_more [of r TUIC_PROTOCOL_VERSION "t # body @ rest"] obtain r1
    where 1: "read_u8 rd r = Ok (TUIC_PROTOCOL_VERSION, r1)" and "content r1 = t # body @ rest"
    by auto
  then obtain r2 where 2: "read_u8 rd r1 = Ok (t, r2)" and c2: "content r2 = body @ rest"
    using read_u8_more [of r1 t "body @ rest"] by auto
  note step = 1 2 Command_read_from_def
  show ?thesis
  proof (cases c)
    case (Response b)
    with e c2 have "content r2 = (if b then RESPONSE_SUCCEEDED else RESPONSE_FAILED) # rest" by simp
    with read_u8_more [OF this] Response e show ?thesis
      by (auto simp: step tuic_const yields_def)
  next
    case (Authenticate digest)
    with e c2 ok have "content r2 = digest @ rest" and "length digest = 32" by auto
    with read_exact_more [OF this] Authenticate e show ?thesis
      by (auto simp: step tuic_const yields_def)
  next
    case (Connect addr)
    with e c2 ok read_Address_encode [of r2 addr rest] show ?thesis
      by (auto simp: step tuic_const yields_def)
  next
    case (Packet assoc_id len addr)
    with e c2 ok read_packet_encode [of r2 assoc_id len addr rest] obtain r3
      where "read_exact rd 6 r2 = Ok (be32 assoc_id @ be16 len, r3)"
        "yields content (Address_read_from rd bo r3) (wire_Address addr) rest" by auto
    with Packet e show ?thesis by (auto simp: step tuic_const be16_def be32_def yields_def)
  next
    case (Dissociate assoc_id)
    with e c2 have "content r2 = be32 assoc_id @ rest" by simp
    with read_u32_more [OF this] Dissociate e show ?thesis
      by (auto simp: step tuic_const yields_def)
  next
    case Heartbeat
    with e c2 show ?thesis by (auto simp: step tuic_const yields_def)
  qed
qed

text \<open>
  The other direction, with the cases of failure: on every input a reader either reports an
  error or returns a value in wire form whose encoding is exactly what it consumed.
\<close>

abbreviation reads_body :: "u8 \<Rightarrow> (io_error, Address \<times> 'r) outcome \<Rightarrow> 'r \<Rightarrow> bool" where
  "reads_body t \<equiv>
     exact_read content (\<lambda>a. Address_ok a \<and> wire_Address a = a \<and> hd (encode_Address a) = t)
       (\<lambda>a. tl (encode_Address a))"

lemma read_domain_exact:
  "reads_body TYPE_DOMAIN (read_domain rd bo r) r"
proof (cases rule: read_u8_cases [of r])
  case (stop e)
  then show ?thesis by (simp add: read_domain_def)
next
  case (more b r1)
  note 1 = more
  show ?thesis
  proof (cases rule: read_exact_cases [of "unat b + 2" r1])
    case (stop e)
    with 1 show ?thesis by (simp add: read_domain_def)
  next
    case (more buf r2)
    then have "length (drop (unat b) buf) = 2" by simp
    then obtain p q where pq: "drop (unat b) buf = [p, q]" unfolding length_eq_2 by blast
    have buf: "buf = take (unat b) buf @ [p, q]" using pq by (metis append_take_drop_id)
    have b: "unat b \<le> 255" by (rule unat_u8_le)
    show ?thesis
    proof (cases "String_from_utf8 (take (unat b) buf)")
      case (Inl err)
      with 1 more pq show ?thesis
        by (simp add: read_domain_def Let_def slice_from_def)
    next
      case (Inr addr)
      then have "valid_str addr" and ab: "as_bytes addr = take (unat b) buf"
        by (simp_all add: from_utf8_Inr_iff)
      moreover have "length addr = unat b"
        using ab more(2) by (metis length_as_bytes length_take min_absorb2 le_add1)
      ultimately show ?thesis using 1 more pq Inr buf b
        by (auto simp: read_domain_def Let_def slice_from_def)
    qed
  qed
qed

lemma read_ipv4_exact:
  "reads_body TYPE_IPV4 (read_ipv4 rd bo r) r"
proof (cases rule: read_exact_cases [of 6 r])
  case (stop e)
  then show ?thesis by (simp add: read_ipv4_def)
next
  case (more bs r1)
  then show ?thesis by (auto simp: read_ipv4_def length_eq_6)
qed

lemma read_ipv6_exact:
  "reads_body TYPE_IPV6 (read_ipv6 rd bo r) r"
proof (cases rule: read_exact_cases [of 18 r])
  case (stop e)
  then show ?thesis by (simp add: read_ipv6_def)
next
  case (more bs r1)
  then show ?thesis by (auto simp: read_ipv6_def length_eq_18)
qed

lemma hd_tl_encode_Address: "encode_Address a = hd (encode_Address a) # tl (encode_Address a)"
  by (cases a rule: encode_Address.cases) auto

lemma read_Address_exact:
  "exact_read content (\<lambda>a. Address_ok a \<and> wire_Address a = a) encode_Address
     (Address_read_from rd bo r) r"
proof (cases rule: read_u8_cases [of r])
  case (stop e)
  then show ?thesis by (simp add: Address_read_from_def)
next
  case (more t r1)
  have tagged: "exact_read content (\<lambda>a. Address_ok a \<and> wire_Address a = a) encode_Address m r"
    if "reads_body t m r1" for m
    using that
  proof (cases rule: exact_read_cases)
    case (success a r')
    with more(2) hd_tl_encode_Address [of a] show ?thesis by simp
  qed simp
  from more(1) show ?thesis
    using tagged [of "read_domain rd bo r1"] tagged [of "read_ipv4 rd bo r1"]
      tagged [of "read_ipv6 rd bo r1"]
      read_domain_exact [of r1] read_ipv4_exact [of r1] read_ipv6_exact [of r1]
    by (auto simp: Address_read_from_def)
qed

text \<open>What follows version and type.\<close>

lemma read_Command_packet_exact:
  assumes "read_u8 rd r = Ok (TUIC_PROTOCOL_VERSION, r1)" "content r = TUIC_PROTOCOL_VERSION # content r1"
    and "read_u8 rd r1 = Ok (TYPE_PACKET, r2)" "content r1 = TYPE_PACKET # content r2"
  shows "exact_read content (\<lambda>c. Command_ok c \<and> wire_Command c = c) encode_Command (Command_read_from rd bo r) r"
proof (cases rule: read_exact_cases [of 6 r2])
  case (more hdr r3)
  from read_Address_exact [of r3] assms more show ?thesis
    by (cases rule: exact_read_cases) (auto simp: Command_read_from_def tuic_const length_eq_6)
qed (simp add: Command_read_from_def tuic_const assms)

lemma read_Command_exact:
  "exact_read content (\<lambda>c. Command_ok c \<and> wire_Command c = c) encode_Command
     (Command_read_from rd bo r) r"
proof (cases rule: read_u8_cases [of r])
  case (stop e)
  then show ?thesis by (simp add: Command_read_from_def)
next
  case (more ver r1)
  note 1 = more
  show ?thesis
  proof (cases rule: read_u8_cases [of r1])
    case (stop e)
    with 1 show ?thesis by (simp add: Command_read_from_def)
  next
    case (more cmd r2)
    note step = 1 more Command_read_from_def tuic_const
    consider "ver \<noteq> TUIC_PROTOCOL_VERSION" | "ver = TUIC_PROTOCOL_VERSION" "cmd = TYPE_RESPONSE"
      | "ver = TUIC_PROTOCOL_VERSION" "cmd = TYPE_AUTHENTICATE"
      | "ver = TUIC_PROTOCOL_VERSION" "cmd = TYPE_CONNECT"
      | "ver = TUIC_PROTOCOL_VERSION" "cmd = TYPE_PACKET"
      | "ver = TUIC_PROTOCOL_VERSION" "cmd = TYPE_DISSOCIATE"
      | "ver = TUIC_PROTOCOL_VERSION" "cmd = TYPE_HEARTBEAT"
      | "ver = TUIC_PROTOCOL_VERSION" "cmd \<notin> {TYPE_RESPONSE, TYPE_AUTHENTICATE, TYPE_CONNECT,
           TYPE_PACKET, TYPE_DISSOCIATE, TYPE_HEARTBEAT}"
      by auto
    then show ?thesis
    proof cases
      case 2
      then show ?thesis by (cases rule: read_u8_cases [of r2]) (auto simp: step)
    next
      case 3
      then show ?thesis by (cases rule: read_exact_cases [of 32 r2]) (auto simp: step)
    next
      case 4
      with read_Address_exact [of r2] show ?thesis
        by (cases rule: exact_read_cases) (auto simp: step)
    next
      case 5
      with 1 more show ?thesis by (intro read_Command_packet_exact) simp_all
    next
      case 6
      then show ?thesis by (cases rule: read_u32_cases [of r2]) (auto simp: step)
    qed (auto simp: step)
  qed
qed

end

section \<open>Properties\<close>

lemma encode_vec: "Command_write_to_buf vec_buf c [] = encode_Command c"
  using vec.write_Command [of c "[]"] by simp

text \<open>
  C5: Writing a command and reading it back. With any reader and any buffer that behave as
  documented, \<open>Command::read_from\<close> applied to what \<open>Command::write_to_buf\<close> appended gives the
  command back (an IPv6 address without its flow label and scope id, which the format does not
  carry), and leaves the reader exactly at the bytes that follow.
\<close>

theorem Command_roundtrip:
  assumes reader: "wire_reader rd content bo" and buffer: "byte_buffer bm bytes_of"
    and "Command_ok c" and "bytes_of buf = []"
    and "content r = bytes_of (Command_write_to_buf bm c buf) @ rest"
  shows "\<exists>r'. Command_read_from rd bo r = Ok (wire_Command c, r') \<and> content r' = rest"
  using wire_reader.read_Command_encode [OF reader, of r c rest] assms(3-)
  by (auto simp: byte_buffer.write_Command [OF buffer] yields_def)

theorem Command_roundtrip_witness:
  "\<exists>r'. Command_read_from slice_reader cursor_order
      (Command_write_to_buf vec_buf (Packet 7 3 (DomainAddress ''a.b'' 443)) [] @ [1, 2, 3])
    = Ok (Packet 7 3 (DomainAddress ''a.b'' 443), r') \<and> r' = [1, 2, 3]"
  using Command_roundtrip [OF slice.wire_reader_axioms vec.byte_buffer_axioms,
    of "Packet 7 3 (DomainAddress ''a.b'' 443)" "[]" _ "[1, 2, 3]"]
  by (simp add: valid_str_ascii)

text \<open>
  C13: Reading is canonical and never panics. Whatever bytes arrive, \<open>Command::read_from\<close> returns
  an error or a command; the command is one the format can carry, and writing it again gives
  exactly the bytes that were consumed, so no two byte strings are read as the same command.
\<close>

theorem Command_read_exact:
  assumes "wire_reader rd content bo"
  shows "Command_read_from rd bo r \<noteq> Panic \<and>
    (\<forall>c r'. Command_read_from rd bo r = Ok (c, r') \<longrightarrow>
       Command_ok c \<and> wire_Command c = c \<and>
       content r = Command_write_to_buf vec_buf c [] @ content r')"
  using wire_reader.read_Command_exact [OF assms, of r]
  by (auto simp: exact_read_def encode_vec)

theorem Command_read_exact_witness:
  "Command_read_from slice_reader cursor_order [4, 3, 0, 0, 1, 2, 9] = Ok (Dissociate 258, [9]) \<and>
   Command_ok (Dissociate 258) \<and>
   [4, 3, 0, 0, 1, 2, 9] = Command_write_to_buf vec_buf (Dissociate 258) [] @ [9]"
proof -
  have "Command_read_from slice_reader cursor_order [4, 3, 0, 0, 1, 2, 9] = Ok (Dissociate 258, [9])"
    by (simp add: Command_read_from_def slice_reader_def tuic_const of_be32_def)
  with Command_read_exact [OF slice.wire_reader_axioms, of "[4, 3, 0, 0, 1, 2, 9]"]
  show ?thesis by blast
qed

text \<open>
  C36: A command that is cut short is never read as another one. On any proper prefix of a
  written command, \<open>Command::read_from\<close> returns an error.
\<close>

theorem Command_truncated:
  assumes "wire_reader rd content bo" and "Command_ok c"
    and "Command_write_to_buf vec_buf c [] = content r @ missing" and "missing \<noteq> []"
  shows "\<exists>e. Command_read_from rd bo r = Err e"
proof -
  note reader = assms(1)
  show ?thesis
    using wire_reader.read_Command_exact [OF reader, of r]
  proof (cases rule: exact_read_cases)
    case (success c' r')
    then have "encode_Command c = encode_Command c' @ content r' @ missing"
      using assms(3) by (simp add: encode_vec)
    then have "Command_read_from slice_reader cursor_order (encode_Command c @ [])
      = Ok (wire_Command c', content r' @ missing)"
      using slice.read_Command_encode [of "encode_Command c" c' "content r' @ missing"] success(2)
      by (auto simp: yields_def)
    moreover have "Command_read_from slice_reader cursor_order (encode_Command c @ [])
      = Ok (wire_Command c, [])"
      using slice.read_Command_encode [OF refl assms(2), of "[]"] by (auto simp: yields_def)
    ultimately show ?thesis using assms(4) by simp
  qed blast
qed

theorem Command_truncated_witness:
  "\<exists>e. Command_read_from slice_reader cursor_order [4, 3, 0, 0, 1] = Err e"
  by (rule Command_truncated [OF slice.wire_reader_axioms, of "Dissociate 258" _ "[2]"])
    (simp_all add: encode_vec tuic_const be32_def)

text \<open>
  C37: The length functions. What \<open>write_to_buf\<close> appends has exactly \<open>serialized_len\<close> bytes,
  which is at most \<open>max_serialized_len\<close>, and the bound is reached by some command.
\<close>

theorem Command_length:
  assumes "byte_buffer bm bytes_of"
  shows "(Command_ok c \<longrightarrow>
      length (bytes_of (Command_write_to_buf bm c buf)) = length (bytes_of buf) + Command_serialized_len c \<and>
      Command_serialized_len c \<le> Command_max_serialized_len) \<and>
    (\<exists>c'. Command_ok c' \<and> Command_serialized_len c' = Command_max_serialized_len)"
proof -
  have addr: "Address_ok a \<Longrightarrow> Address_serialized_len a \<le> Address_max_serialized_len" for a
    by (cases a rule: Address_serialized_len.cases) (auto simp: Address_max_serialized_len_def)
  then have "Command_ok c \<Longrightarrow> Command_serialized_len c \<le> Command_max_serialized_len"
    by (cases c) (force simp: Command_max_serialized_len_def Address_max_serialized_len_def)+
  moreover have "\<exists>c'. Command_ok c' \<and> Command_serialized_len c' = Command_max_serialized_len"
    by (rule exI [of _ "Packet 0 0 (DomainAddress (replicate 255 CHR ''a'') 0)"])
      (auto simp: Command_max_serialized_len_def Address_max_serialized_len_def intro!: valid_str_ascii)
  ultimately show ?thesis
    unfolding byte_buffer.write_Command [OF assms] by (simp add: length_encode_Command)
qed

theorem Command_length_witness:
  "length (Command_write_to_buf vec_buf (Connect (SocketAddress (V4 (Ipv4Addr 1 2 3 4) 80))) [0, 0]) = 2 + 9"
  using Command_length [OF vec.byte_buffer_axioms,
    of "Connect (SocketAddress (V4 (Ipv4Addr 1 2 3 4) 80))" "[0, 0]"]
  by simp

text \<open>
  What is refused, and how. A first byte other than the protocol version is \<open>Unsupported\<close>;
  after the right version an unknown command type, and in a response an unknown code, are
  \<open>InvalidInput\<close>; so is an unknown address type. Each names the offending byte, and nothing after
  it is read.
\<close>

lemma Command_rejects:
  assumes "wire_reader rd content bo"
  shows "(content r = v # bs \<and> v \<noteq> TUIC_PROTOCOL_VERSION \<longrightarrow>
      Command_read_from rd bo r = Err (IoError Unsupported (''Unsupported TUIC version: '' @ show_nat (unat v)))) \<and>
    (content r = TUIC_PROTOCOL_VERSION # t # bs \<and>
      t \<notin> {TYPE_RESPONSE, TYPE_AUTHENTICATE, TYPE_CONNECT, TYPE_PACKET, TYPE_DISSOCIATE, TYPE_HEARTBEAT} \<longrightarrow>
      Command_read_from rd bo r = Err (IoError InvalidInput (''Invalid command: '' @ show_nat (unat t)))) \<and>
    (content r = TUIC_PROTOCOL_VERSION # TYPE_RESPONSE # u # bs \<and> u \<notin> {RESPONSE_SUCCEEDED, RESPONSE_FAILED} \<longrightarrow>
      Command_read_from rd bo r = Err (IoError InvalidInput (''Invalid response code: '' @ show_nat (unat u)))) \<and>
    (content r = TUIC_PROTOCOL_VERSION # TYPE_CONNECT # a # bs \<and> a \<notin> {TYPE_DOMAIN, TYPE_IPV4, TYPE_IPV6} \<longrightarrow>
      Command_read_from rd bo r = Err (IoError InvalidInput (''Unsupported address type: '' @ show_nat (unat a))))"
proof -
  have u8: "\<exists>r'. read_u8 rd r = Ok (b, r') \<and> content r' = bs" if "content r = b # bs" for r b bs
    using async_reader.read_u8_more [OF wire_reader.axioms(1) [OF assms] that] by (auto simp: yields_def)
  show ?thesis
    by (intro conjI impI; elim conjE; drule u8; clarsimp simp: Command_read_from_def;
        (drule u8; clarsimp simp: Address_read_from_def tuic_const)?;
        (drule u8; clarsimp simp: Address_read_from_def tuic_const)?)
qed

lemma Command_rejects_witness:
  "Command_read_from slice_reader cursor_order [5, 0] = Err (IoError Unsupported ''Unsupported TUIC version: 5'')"
proof -
  have "show_nat (unat (5 :: u8)) = ''5''" by code_simp
  then show ?thesis
    using Command_rejects [OF slice.wire_reader_axioms, of "[5, 0]" 5 "[0]" 0 0 0]
    by (simp add: tuic_const)
qed

end
