(* ===== verification/Address_Order.thy ===== *)
theory Address_Order
  imports Protocol "HOL-Library.List_Lexorder" "HOL-Library.Char_ord" "HOL-Library.Product_Lexorder"
begin

text \<open>
  The order that \<open>#[derive(PartialOrd, Ord)]\<close> gives \<open>Address\<close> (\<open>protocol/src/lib.rs\<close>): the earlier
  variant first, then the fields from left to right. Under it are the orders of the standard
  library: IP addresses by their bytes, socket addresses by family, address and port, strings by
  their bytes. All are instances of \<open>linorder\<close>, so that sorting and ordered maps apply to them.
\<close>

section \<open>The orders of the standard library\<close>

lemma octets_inject: "octets a = octets b \<longleftrightarrow> a = b"
  by (cases a; cases b) simp

lemma segments_inject: "segments a = segments b \<longleftrightarrow> a = b"
  by (cases a; cases b) simp

instantiation Ipv4Addr :: linorder
begin

definition less_eq_Ipv4Addr :: "Ipv4Addr \<Rightarrow> Ipv4Addr \<Rightarrow> bool" where
  "less_eq_Ipv4Addr a b \<longleftrightarrow> octets a \<le> octets b"

definition less_Ipv4Addr :: "Ipv4Addr \<Rightarrow> Ipv4Addr \<Rightarrow> bool" where
  "less_Ipv4Addr a b \<longleftrightarrow> octets a < octets b"

instance
  by standard (auto simp: less_eq_Ipv4Addr_def less_Ipv4Addr_def less_le octets_inject)

end

instantiation Ipv6Addr :: linorder
begin

definition less_eq_Ipv6Addr :: "Ipv6Addr \<Rightarrow> Ipv6Addr \<Rightarrow> bool" where
  "less_eq_Ipv6Addr a b \<longleftrightarrow> segments a \<le> segments b"

definition less_Ipv6Addr :: "Ipv6Addr \<Rightarrow> Ipv6Addr \<Rightarrow> bool" where
  "less_Ipv6Addr a b \<longleftrightarrow> segments a < segments b"

instance
  by standard (auto simp: less_eq_Ipv6Addr_def less_Ipv6Addr_def less_le segments_inject)

end

instantiation SocketAddr :: linorder
begin

fun less_eq_SocketAddr :: "SocketAddr \<Rightarrow> SocketAddr \<Rightarrow> bool" where
  "less_eq_SocketAddr (V4 ip port) (V4 ip' port') \<longleftrightarrow> (ip, port) \<le> (ip', port')"
| "less_eq_SocketAddr (V4 ip port) (V6 ip' port' flow' scope') \<longleftrightarrow> True"
| "less_eq_SocketAddr (V6 ip port flow scope) (V4 ip' port') \<longleftrightarrow> False"
| "less_eq_SocketAddr (V6 ip port flow scope) (V6 ip' port' flow' scope') \<longleftrightarrow>
     (ip, port, flow, scope) \<le> (ip', port', flow', scope')"

definition less_SocketAddr :: "SocketAddr \<Rightarrow> SocketAddr \<Rightarrow> bool" where
  "less_SocketAddr a b \<longleftrightarrow> a \<le> b \<and> \<not> b \<le> a"

instance
proof
  fix a b c :: SocketAddr
  show "a < b \<longleftrightarrow> a \<le> b \<and> \<not> b \<le> a" by (rule less_SocketAddr_def)
  show "a \<le> a" by (cases a) simp_all
  show "a \<le> c" if "a \<le> b" "b \<le> c" using that by (cases a; cases b; cases c) auto
  show "a = b" if "a \<le> b" "b \<le> a" using that by (cases a; cases b) auto
  show "a \<le> b \<or> b \<le> a" by (cases a; cases b) auto
qed

end

section \<open>Addresses of the protocol\<close>

lemma as_bytes_inject: "as_bytes s = as_bytes t \<longleftrightarrow> s = t"
  by (metis str_of_bytes_as_bytes)

fun Address_le :: "Address \<Rightarrow> Address \<Rightarrow> bool" where
  "Address_le (DomainAddress addr port) (DomainAddress addr' port') \<longleftrightarrow>
     (as_bytes addr, port) \<le> (as_bytes addr', port')"
| "Address_le (DomainAddress addr port) (SocketAddress sock') \<longleftrightarrow> True"
| "Address_le (SocketAddress sock) (DomainAddress addr' port') \<longleftrightarrow> False"
| "Address_le (SocketAddress sock) (SocketAddress sock') \<longleftrightarrow> sock \<le> sock'"

instantiation Address :: linorder
begin

definition less_eq_Address :: "Address \<Rightarrow> Address \<Rightarrow> bool" where
  [simp]: "less_eq_Address = Address_le"

definition less_Address :: "Address \<Rightarrow> Address \<Rightarrow> bool" where
  "less_Address a b \<longleftrightarrow> a \<le> b \<and> \<not> b \<le> a"

instance
proof
  fix a b c :: Address
  show "a < b \<longleftrightarrow> a \<le> b \<and> \<not> b \<le> a" by (rule less_Address_def)
  show "a \<le> a" by (cases a) simp_all
  show "a \<le> c" if "a \<le> b" "b \<le> c" using that by (cases a; cases b; cases c) (auto simp: less_le as_bytes_inject)
  show "a = b" if "a \<le> b" "b \<le> a" using that by (cases a; cases b) (auto simp: less_le as_bytes_inject)
  show "a \<le> b \<or> b \<le> a" by (cases a; cases b) auto
qed

end

text \<open>The wire drops flow label and scope id; what is read back is still in order.\<close>

lemma wire_Address_mono: "a \<le> b \<Longrightarrow> wire_Address a \<le> wire_Address b"
  by (cases a rule: wire_Address.cases; cases b rule: wire_Address.cases) auto

end
