(* ===== verification/Server_Udp.thy ===== *)
theory Server_Udp
  imports Protocol
begin

text \<open>
  \<open>server/src/connection/udp.rs\<close>: the mode cell \<open>UdpPacketFrom\<close>, the table of UDP sessions
  and the two loops of a session's task. A session is named by the handle of the channel its
  sender half feeds; \<open>mpsc::channel\<close> hands out a fresh one. What is sent on a handle is kept
  as the list of packets its task has not taken yet, and the task is there until it returns.
\<close>

section \<open>The mode cell\<close>

datatype UdpPacketSource = UniStream | Datagram

type_synonym UdpPacketFrom = "UdpPacketSource option"

text \<open>
  \<open>AtomicCell::compare_exchange\<close> is an argument: from the cell's value, the expected and the
  new one it gives the result (\<open>Inr\<close> of the previous value, or \<open>Inl\<close> of the value that was
  there instead) and the cell's value afterwards.
\<close>

type_synonym 'a compare_exchange = "'a \<Rightarrow> 'a \<Rightarrow> 'a \<Rightarrow> ('a + 'a) \<times> 'a"

definition UdpPacketFrom_new :: UdpPacketFrom where
  "UdpPacketFrom_new = None"

definition UdpPacketFrom_check :: "UdpPacketFrom \<Rightarrow> UdpPacketSource option" where
  "UdpPacketFrom_check c = c"

definition uni_stream :: "UdpPacketFrom compare_exchange \<Rightarrow> UdpPacketFrom \<Rightarrow> bool \<times> UdpPacketFrom" where
  "uni_stream cas c =
     (case cas c None (Some UniStream) of
        (Inl from, c') \<Rightarrow> (from = Some UniStream, c')
      | (Inr _, c') \<Rightarrow> (True, c'))"

definition datagram :: "UdpPacketFrom compare_exchange \<Rightarrow> UdpPacketFrom \<Rightarrow> bool \<times> UdpPacketFrom" where
  "datagram cas c =
     (case cas c None (Some Datagram) of
        (Inl from, c') \<Rightarrow> (from = Some Datagram, c')
      | (Inr _, c') \<Rightarrow> (True, c'))"

text \<open>The documented behaviour of the exchange.\<close>

locale atomic_cell =
  fixes cas :: "'a compare_exchange"
  assumes cas_hit: "cas c c new = (Inr c, new)"
    and cas_miss: "c \<noteq> expected \<Longrightarrow> cas c expected new = (Inl c, c)"

definition seq_cas :: "'a compare_exchange" where
  "seq_cas c expected new = (if c = expected then (Inr c, new) else (Inl c, c))"

interpretation seqc: atomic_cell seq_cas
  by unfold_locales (auto simp: seq_cas_def)

lemma uni_stream_eq:
  assumes "atomic_cell cas"
  shows "uni_stream cas c =
    (case c of None \<Rightarrow> (True, Some UniStream) | Some k \<Rightarrow> (k = UniStream, Some k))"
  using atomic_cell.cas_hit [OF assms, of None] atomic_cell.cas_miss [OF assms, of _ None]
  by (simp add: uni_stream_def split: option.split)

lemma datagram_eq:
  assumes "atomic_cell cas"
  shows "datagram cas c =
    (case c of None \<Rightarrow> (True, Some Datagram) | Some k \<Rightarrow> (k = Datagram, Some k))"
  using atomic_cell.cas_hit [OF assms, of None] atomic_cell.cas_miss [OF assms, of _ None]
  by (simp add: datagram_def split: option.split)

section \<open>The session table\<close>

text \<open>
  A session's task: the associate id it was started for and the packets waiting for it.
\<close>

record session_task =
  task_assoc_id :: u32
  send_queue :: "(bytes \<times> Address) list"

record UdpSessionMap =
  session_map :: "u32 \<rightharpoonup> nat"
  session_tasks :: "nat \<rightharpoonup> session_task"
  next_handle :: nat
  max_pkt_size :: usize

definition UdpSessionMap_new :: "usize \<Rightarrow> UdpSessionMap" where
  "UdpSessionMap_new max_size =
     \<lparr>session_map = Map.empty, session_tasks = Map.empty, next_handle = 0, max_pkt_size = max_size\<rparr>"

text \<open>
  \<open>UdpSession::new\<close>: bind a socket (the result is the caller's argument), create the channel,
  start the task. The handle is the sender half.
\<close>

definition bind_addr :: SocketAddr where
  "bind_addr = SocketAddr_from (IpV6 Ipv6_UNSPECIFIED) 0"

definition UdpSession_new ::
  "io_error + unit \<Rightarrow> u32 \<Rightarrow> UdpSessionMap \<Rightarrow> (io_error, nat \<times> UdpSessionMap) outcome" where
  "UdpSession_new bound assoc_id m =
     and_then (returned bound) (\<lambda>_.
     let tx = next_handle m in
     Ok (tx, m\<lparr>session_tasks := (session_tasks m)(tx \<mapsto> \<lparr>task_assoc_id = assoc_id, send_queue = []\<rparr>),
               next_handle := Suc tx\<rparr>))"

text \<open>
  \<open>UdpSessionMap::send\<close> in the pieces between which other tasks may run: the look-up under the
  lock, the start of a session, its insertion under the lock, and the send on the handle. The
  channel holds one packet, so a send waits until \<open>send_ready\<close>; a send whose receiver is gone
  returns an error at once, which the code ignores. \<open>UdpSessionMap_send\<close> is the whole call when
  no other task interferes and the channel has room.
\<close>

definition send_ready :: "nat \<Rightarrow> UdpSessionMap \<Rightarrow> bool" where
  "send_ready tx m =
     (case session_tasks m tx of None \<Rightarrow> True | Some t \<Rightarrow> length (send_queue t) < 1)"

definition send_lookup :: "u32 \<Rightarrow> UdpSessionMap \<Rightarrow> nat option" where
  "send_lookup assoc_id m = session_map m assoc_id"

definition send_insert :: "u32 \<Rightarrow> nat \<Rightarrow> UdpSessionMap \<Rightarrow> UdpSessionMap" where
  "send_insert assoc_id tx m = m\<lparr>session_map := (session_map m)(assoc_id \<mapsto> tx)\<rparr>"

definition send_push :: "nat \<Rightarrow> bytes \<times> Address \<Rightarrow> UdpSessionMap \<Rightarrow> UdpSessionMap" where
  "send_push tx item m =
     (case session_tasks m tx of
        None \<Rightarrow> m
      | Some t \<Rightarrow> m\<lparr>session_tasks := (session_tasks m)(tx \<mapsto> t\<lparr>send_queue := send_queue t @ [item]\<rparr>)\<rparr>)"

definition UdpSessionMap_send ::
  "io_error + unit \<Rightarrow> u32 \<Rightarrow> bytes \<Rightarrow> Address \<Rightarrow> UdpSessionMap
   \<Rightarrow> (io_error, UdpSessionMap) outcome" where
  "UdpSessionMap_send bound assoc_id pkt addr m =
     (case send_lookup assoc_id m of
        Some tx \<Rightarrow> Ok (send_push tx (pkt, addr) m)
      | None \<Rightarrow>
          and_then (UdpSession_new bound assoc_id m) (\<lambda>(tx, m).
          Ok (send_push tx (pkt, addr) (send_insert assoc_id tx m))))"

definition UdpSessionMap_dissociate :: "u32 \<Rightarrow> UdpSessionMap \<Rightarrow> UdpSessionMap" where
  "UdpSessionMap_dissociate assoc_id m = m\<lparr>session_map := (session_map m)(assoc_id := None)\<rparr>"

section \<open>A session's task\<close>

text \<open>
  One turn of \<open>listen_send_packet\<close> for the task on \<open>tx\<close>: it takes the oldest packet and sends
  it to its address; if the socket refuses, the task returns. \<open>sent\<close> is what the socket was
  asked to send and its answer.
\<close>

definition listen_send_packet ::
  "nat \<Rightarrow> (bytes \<Rightarrow> Address \<Rightarrow> io_error + unit) \<Rightarrow> UdpSessionMap
   \<Rightarrow> (bytes \<times> Address) option \<times> UdpSessionMap" where
  "listen_send_packet tx send_to m =
     (case session_tasks m tx of
        None \<Rightarrow> (None, m)
      | Some t \<Rightarrow>
          (case send_queue t of
             [] \<Rightarrow> (None, m)
           | (pkt, addr) # rest \<Rightarrow>
               (case send_to pkt addr of
                  Inr _ \<Rightarrow> (Some (pkt, addr),
                    m\<lparr>session_tasks := (session_tasks m)(tx \<mapsto> t\<lparr>send_queue := rest\<rparr>)\<rparr>)
                | Inl _ \<Rightarrow> (None, m\<lparr>session_tasks := (session_tasks m)(tx := None)\<rparr>))))"

text \<open>
  One turn of \<open>listen_receive_packet\<close>: \<open>recv_from\<close> filled a buffer of \<open>max_pkt_size\<close> bytes with
  \<open>len\<close> bytes from \<open>addr\<close>; the message for the connection carries the session's associate id.
\<close>

definition listen_receive_packet ::
  "u32 \<Rightarrow> bytes \<times> nat \<times> SocketAddr \<Rightarrow> u32 \<times> bytes \<times> Address" where
  "listen_receive_packet assoc_id received =
     (case received of (buf, len, addr) \<Rightarrow> (assoc_id, take len buf, SocketAddress addr))"

end
