(* ===== verification/Server_Task.thy ===== *)
theory Server_Task
  imports Server_Udp
begin

text \<open>
  \<open>server/src/connection/task.rs\<close>: what a request does once it is accepted. Name resolution,
  TCP connects, the copying between the two streams and quinn's connection are arguments.
\<close>

datatype TaskError =
    TaskIo io_error
  | TaskConnection quinn_error
  | ReadStream quinn_error
  | WriteStream quinn_error
  | SendDatagram quinn_error

type_synonym tcp_stream = nat

section \<open>TCP relay\<close>

text \<open>The loop over the candidate addresses: the first that accepts.\<close>

fun first_target :: "(SocketAddr \<Rightarrow> io_error + tcp_stream) \<Rightarrow> SocketAddr list \<Rightarrow> tcp_stream option" where
  "first_target tcp_connect [] = None"
| "first_target tcp_connect (a # addrs) =
     (case tcp_connect a of Inr target \<Rightarrow> Some target | Inl _ \<Rightarrow> first_target tcp_connect addrs)"

text \<open>
  The result comes with the send stream as it was when it was handed to the tunnel, finished
  or dropped, so that what the client was sent can be stated.
\<close>

definition task_connect ::
  "bytes buf_mut \<Rightarrow> 'ss async_write \<Rightarrow> 'ss quinn_send
   \<Rightarrow> (string \<Rightarrow> u16 \<Rightarrow> io_error + SocketAddr list)
   \<Rightarrow> (SocketAddr \<Rightarrow> io_error + tcp_stream)
   \<Rightarrow> (tcp_stream \<Rightarrow> 'ss \<Rightarrow> 'rs \<Rightarrow> io_error + unit)
   \<Rightarrow> 'ss \<Rightarrow> 'rs \<Rightarrow> Address \<Rightarrow> (TaskError, unit) outcome \<times> 'ss" where
  "task_connect bm wr qs lookup_host tcp_connect copy_bidirectional send recv addr =
     (case (case addr of
              SocketAddress a \<Rightarrow> Inr [a]
            | DomainAddress domain port \<Rightarrow> lookup_host domain port) of
        Inl e \<Rightarrow> (Err (TaskIo e), send)
      | Inr addrs \<Rightarrow>
          (case first_target tcp_connect addrs of
             Some target \<Rightarrow>
               (case Command_write_to bm wr (new_response True) send of
                  Err e \<Rightarrow> (Err (TaskIo e), send)
                | Panic \<Rightarrow> (Panic, send)
                | Ok send \<Rightarrow> (map_err TaskIo (returned (copy_bidirectional target send recv)), send))
           | None \<Rightarrow>
               (case Command_write_to bm wr (new_response False) send of
                  Err e \<Rightarrow> (Err (TaskIo e), send)
                | Panic \<Rightarrow> (Panic, send)
                | Ok send \<Rightarrow>
                    (case q_finish qs send of
                       Err e \<Rightarrow> (Err (WriteStream e), send)
                     | Panic \<Rightarrow> (Panic, send)
                     | Ok send \<Rightarrow> (Ok (), send)))))"

section \<open>UDP relay\<close>

definition packet_from_uni_stream ::
  "'rs quinn_recv \<Rightarrow> io_error + unit \<Rightarrow> 'rs \<Rightarrow> UdpSessionMap \<Rightarrow> u32 \<Rightarrow> u16 \<Rightarrow> Address
   \<Rightarrow> (TaskError, UdpSessionMap) outcome" where
  "packet_from_uni_stream qr bound stream m assoc_id len addr =
     and_then (map_err ReadStream (q_read_exact qr (unat len) stream)) (\<lambda>(pkt, _).
     map_err TaskIo (UdpSessionMap_send bound assoc_id pkt addr m))"

definition packet_from_datagram ::
  "io_error + unit \<Rightarrow> bytes \<Rightarrow> UdpSessionMap \<Rightarrow> u32 \<Rightarrow> Address
   \<Rightarrow> (TaskError, UdpSessionMap) outcome" where
  "packet_from_datagram bound pkt m assoc_id addr =
     map_err TaskIo (UdpSessionMap_send bound assoc_id pkt addr m)"

text \<open>\<open>open_uni\<close> is the stream quinn opened, or its error.\<close>

definition packet_to_uni_stream ::
  "bytes buf_mut \<Rightarrow> 'ss async_write \<Rightarrow> 'ss quinn_send \<Rightarrow> quinn_error + 'ss
   \<Rightarrow> u32 \<Rightarrow> bytes \<Rightarrow> Address \<Rightarrow> (TaskError, 'ss) outcome" where
  "packet_to_uni_stream bm wr qs open_uni assoc_id pkt addr =
     and_then (map_err TaskConnection (returned open_uni)) (\<lambda>stream.
     let cmd = new_packet assoc_id (of_nat (length pkt)) addr in
     and_then (map_err TaskIo (Command_write_to bm wr cmd stream)) (\<lambda>stream.
     and_then (map_err WriteStream (q_write_all qs pkt stream)) (\<lambda>stream.
     map_err WriteStream (q_finish qs stream))))"

definition packet_to_datagram ::
  "bytes buf_mut \<Rightarrow> (bytes \<Rightarrow> quinn_error + 'd) \<Rightarrow> u32 \<Rightarrow> bytes \<Rightarrow> Address
   \<Rightarrow> (TaskError, 'd) outcome" where
  "packet_to_datagram bm send_datagram assoc_id pkt addr =
     (let cmd = new_packet assoc_id (of_nat (length pkt)) addr;
          buf = Command_write_to_buf bm cmd [];
          pkt = extend_from_slice bm pkt buf
      in map_err SendDatagram (returned (send_datagram pkt)))"

definition task_dissociate :: "UdpSessionMap \<Rightarrow> u32 \<Rightarrow> (TaskError, UdpSessionMap) outcome" where
  "task_dissociate m assoc_id = Ok (UdpSessionMap_dissociate assoc_id m)"

end
