(* ===== verification/Server_Auth.thy ===== *)
theory Server_Auth
  imports Prelude
begin

text \<open>
  The two futures a server connection shares among its tasks: \<open>IsClosed\<close>
  (\<open>server/src/connection/mod.rs\<close>) and \<open>IsAuthenticated\<close>
  (\<open>server/src/connection/authenticate.rs\<close>). A waker is named by the task it wakes. A
  \<open>poll\<close> reads its flags first and registers its waker afterwards; since tasks run on
  several threads the two halves are separate operations, and \<open>poll\<close> is their composition.
\<close>

type_synonym waker = nat

datatype 'a poll = Ready 'a | Pending

section \<open>IsClosed\<close>

record IsClosed =
  is_closed :: bool
  closed_waker :: "waker option"

definition IsClosed_new :: IsClosed where
  "IsClosed_new = \<lparr>is_closed = False, closed_waker = None\<rparr>"

text \<open>The wakers that are woken are returned with the new state.\<close>

definition set_closed :: "IsClosed \<Rightarrow> IsClosed \<times> waker list" where
  "set_closed c =
     (case closed_waker c of
        Some w \<Rightarrow> (c\<lparr>is_closed := True, closed_waker := None\<rparr>, [w])
      | None \<Rightarrow> (c\<lparr>is_closed := True\<rparr>, []))"

definition check :: "IsClosed \<Rightarrow> bool" where
  "check c = is_closed c"

definition IsClosed_poll :: "waker \<Rightarrow> IsClosed \<Rightarrow> unit poll \<times> IsClosed" where
  "IsClosed_poll w c =
     (if is_closed c then (Ready (), c) else (Pending, c\<lparr>closed_waker := Some w\<rparr>))"

section \<open>IsAuthenticated\<close>

text \<open>\<open>is_connection_closed\<close> is the connection's own \<open>IsClosed\<close>, shared through its \<open>Arc\<close>.\<close>

record IsAuthenticated =
  is_connection_closed :: IsClosed
  is_authenticated :: bool
  broadcast :: "waker list"

definition IsAuthenticated_new :: "IsClosed \<Rightarrow> IsAuthenticated" where
  "IsAuthenticated_new c = \<lparr>is_connection_closed = c, is_authenticated = False, broadcast = []\<rparr>"

definition set_authenticated :: "IsAuthenticated \<Rightarrow> IsAuthenticated" where
  "set_authenticated a = a\<lparr>is_authenticated := True\<rparr>"

definition wake :: "IsAuthenticated \<Rightarrow> IsAuthenticated \<times> waker list" where
  "wake a = (a\<lparr>broadcast := []\<rparr>, broadcast a)"

text \<open>The two halves of \<open>poll\<close>: the flags, in the order they are read, and the registration.\<close>

definition poll_flags :: "IsAuthenticated \<Rightarrow> bool poll" where
  "poll_flags a =
     (if check (is_connection_closed a) then Ready False
      else if is_authenticated a then Ready True
      else Pending)"

definition poll_register :: "waker \<Rightarrow> IsAuthenticated \<Rightarrow> IsAuthenticated" where
  "poll_register w a = a\<lparr>broadcast := broadcast a @ [w]\<rparr>"

definition IsAuthenticated_poll :: "waker \<Rightarrow> IsAuthenticated \<Rightarrow> bool poll \<times> IsAuthenticated" where
  "IsAuthenticated_poll w a =
     (case poll_flags a of
        Ready b \<Rightarrow> (Ready b, a)
      | Pending \<Rightarrow> (Pending, poll_register w a))"

lemmas auth_defs = set_authenticated_def wake_def poll_flags_def poll_register_def check_def

lemma poll_flags_True_iff:
  "poll_flags a = Ready True \<longleftrightarrow> \<not> is_closed (is_connection_closed a) \<and> is_authenticated a"
  by (simp add: auth_defs)

lemma poll_flags_False_iff:
  "poll_flags a = Ready False \<longleftrightarrow> is_closed (is_connection_closed a)"
  by (simp add: auth_defs)

end
