(* ===== verification/Server_Dispatch.thy ===== *)
theory Server_Dispatch
  imports Server_Task Server_Auth
begin

text \<open>
  \<open>server/src/connection/dispatch.rs\<close>: from a stream or a datagram to the task it asks for.
  Each \<open>process_...\<close> awaits the authentication in the middle, so it is given in two parts: the
  part up to the await, and the part that runs with the result of the await. A part returns
  the task's next state, the wakers it woke and the connection.
\<close>

section \<open>Errors\<close>

datatype DispatchError = Io io_error | AuthenticationFailed | AuthenticationTimeout | BadCommand

definition CODE_PROTOCOL :: u32 where [tuic_const]: "CODE_PROTOCOL = 0xfffffff0"
definition CODE_AUTHENTICATION_FAILED :: u32 where
  [tuic_const]: "CODE_AUTHENTICATION_FAILED = 0xfffffff1"
definition CODE_AUTHENTICATION_TIMEOUT :: u32 where
  [tuic_const]: "CODE_AUTHENTICATION_TIMEOUT = 0xfffffff2"
definition CODE_BAD_COMMAND :: u32 where [tuic_const]: "CODE_BAD_COMMAND = 0xfffffff3"

fun as_error_code :: "DispatchError \<Rightarrow> u32" where
  "as_error_code (Io e) = CODE_PROTOCOL"
| "as_error_code AuthenticationFailed = CODE_AUTHENTICATION_FAILED"
| "as_error_code AuthenticationTimeout = CODE_AUTHENTICATION_TIMEOUT"
| "as_error_code BadCommand = CODE_BAD_COMMAND"

fun DispatchError_to_string :: "DispatchError \<Rightarrow> string" where
  "DispatchError_to_string (Io e) = error_message e"
| "DispatchError_to_string AuthenticationFailed = ''authentication failed''"
| "DispatchError_to_string AuthenticationTimeout = ''authentication timeout''"
| "DispatchError_to_string BadCommand = ''bad command''"

section \<open>The connection\<close>

text \<open>
  What the connection did, for the statements about its history: it accepted a token, took a
  packet for relaying, ended an association, started a TCP relay, a session's socket sent or
  received a packet, or a packet was sent back to the client.
\<close>

datatype event =
    Authenticated bytes
  | PacketFrom UdpPacketSource u32 bytes Address
  | Dissociated u32
  | ConnectTo Address
  | SocketSent u32 bytes Address
  | SocketReceived u32 bytes Address
  | PacketTo UdpPacketSource u32 bytes Address

text \<open>
  \<open>closes\<close> are the calls of \<open>controller.close\<close>, in order; \<open>history\<close> is the newest event first.
  The tasks of a connection share one such state (every field of the struct is an \<open>Arc\<close>).
\<close>

record conn =
  closes :: "(u32 \<times> string) list"
  udp_packet_from :: UdpPacketFrom
  udp_sessions :: UdpSessionMap
  token :: "bytes set"
  auth :: IsAuthenticated
  history :: "event list"

definition controller_close :: "DispatchError \<Rightarrow> conn \<Rightarrow> conn" where
  "controller_close err c = c\<lparr>closes := closes c @ [(as_error_code err, DispatchError_to_string err)]\<rparr>"

definition log_event :: "event \<Rightarrow> conn \<Rightarrow> conn" where
  "log_event e c = c\<lparr>history := e # history c\<rparr>"

text \<open>The crates the connection calls.\<close>

record ('rs, 'ss) server_lib =
  recv_read :: "'rs async_read"
  recv_quinn :: "'rs quinn_recv"
  dgram_read :: "bytes async_read"
  order :: byteorder
  vec :: "bytes buf_mut"
  send_write :: "'ss async_write"
  send_quinn :: "'ss quinn_send"
  exchange :: "UdpPacketFrom compare_exchange"

text \<open>
  Where a spawned task stands. \<open>Polling\<close> is about to read the flags of the authentication,
  \<open>Registering\<close> has read that it is pending and is about to register, \<open>Parked\<close> waits to be
  woken. The \<open>Udp...\<close> states are the points inside \<open>UdpSessionMap::send\<close>.
\<close>

datatype wait = Polling | Registering | Parked

datatype ('rs, 'ss) task =
    UniRead 'rs
  | UniAwait wait Command 'rs
  | BiRead 'ss 'rs
  | BiAwait wait Command 'ss 'rs
  | DatagramRead bytes
  | DatagramAwait wait Command usize bytes
  | UdpLookup u32 bytes Address
  | UdpBind u32 bytes Address
  | UdpInsert u32 nat bytes Address
  | UdpPush u32 nat bytes Address
  | Connecting 'ss 'rs Address
  | Received u32 bytes Address
  | Finished "(DispatchError, unit) outcome"

type_synonym ('rs, 'ss) turn = "('rs, 'ss) task \<times> waker list \<times> conn"

section \<open>Unidirectional streams\<close>

definition process_uni_stream :: "('rs, 'ss) server_lib \<Rightarrow> 'rs \<Rightarrow> conn \<Rightarrow> ('rs, 'ss) turn" where
  "process_uni_stream L stream c =
     (case Command_read_from (recv_read L) (order L) stream of
        Err e \<Rightarrow> (Finished (Err (Io e)), [], c)
      | Panic \<Rightarrow> (Finished Panic, [], c)
      | Ok (cmd, stream) \<Rightarrow>
          (case cmd of
             Authenticate digest \<Rightarrow>
               if digest \<in> token c then
                 (case wake (set_authenticated (auth c)) of
                    (a, woken) \<Rightarrow>
                      (Finished (Ok ()), woken, log_event (Authenticated digest) (c\<lparr>auth := a\<rparr>)))
               else
                 (let err = AuthenticationFailed; c = controller_close err c in
                  case wake (auth c) of
                    (a, woken) \<Rightarrow> (Finished (Err err), woken, c\<lparr>auth := a\<rparr>))
           | _ \<Rightarrow> (UniAwait Polling cmd stream, [], c)))"

definition process_uni_stream_authed ::
  "('rs, 'ss) server_lib \<Rightarrow> bool \<Rightarrow> Command \<Rightarrow> 'rs \<Rightarrow> conn \<Rightarrow> ('rs, 'ss) turn" where
  "process_uni_stream_authed L authed cmd stream c =
     (if authed then
        (case cmd of
           Authenticate _ \<Rightarrow> (Finished Panic, [], c)
         | Packet assoc_id len addr \<Rightarrow>
             (case uni_stream (exchange L) (udp_packet_from c) of
                (accepted, from) \<Rightarrow>
                  let c = c\<lparr>udp_packet_from := from\<rparr> in
                  if accepted then
                    (case q_read_exact (recv_quinn L) (unat len) stream of
                       Ok (pkt, _) \<Rightarrow>
                         (UdpLookup assoc_id pkt addr, [],
                          log_event (PacketFrom UniStream assoc_id pkt addr) c)
                     | Err _ \<Rightarrow> (Finished (Ok ()), [], c)
                     | Panic \<Rightarrow> (Finished Panic, [], c))
                  else (Finished (Err BadCommand), [], c))
         | Dissociate assoc_id \<Rightarrow>
             (case task_dissociate (udp_sessions c) assoc_id of
                Ok m \<Rightarrow> (Finished (Ok ()), [], log_event (Dissociated assoc_id) (c\<lparr>udp_sessions := m\<rparr>))
              | Err _ \<Rightarrow> (Finished (Ok ()), [], c)
              | Panic \<Rightarrow> (Finished Panic, [], c))
         | Heartbeat \<Rightarrow> (Finished (Ok ()), [], c)
         | _ \<Rightarrow> (Finished (Err BadCommand), [], c))
      else (Finished (Err AuthenticationTimeout), [], c))"

section \<open>Bidirectional streams\<close>

definition process_bi_stream ::
  "('rs, 'ss) server_lib \<Rightarrow> 'ss \<Rightarrow> 'rs \<Rightarrow> conn \<Rightarrow> ('rs, 'ss) turn" where
  "process_bi_stream L send recv c =
     (case Command_read_from (recv_read L) (order L) recv of
        Err e \<Rightarrow> (Finished (Err (Io e)), [], c)
      | Panic \<Rightarrow> (Finished Panic, [], c)
      | Ok (cmd, recv) \<Rightarrow> (BiAwait Polling cmd send recv, [], c))"

definition process_bi_stream_authed ::
  "bool \<Rightarrow> Command \<Rightarrow> 'ss \<Rightarrow> 'rs \<Rightarrow> conn \<Rightarrow> ('rs, 'ss) turn" where
  "process_bi_stream_authed authed cmd send recv c =
     (if authed then
        (case cmd of
           Connect addr \<Rightarrow> (Connecting send recv addr, [], log_event (ConnectTo addr) c)
         | _ \<Rightarrow> (Finished (Err BadCommand), [], c))
      else (Finished (Err AuthenticationTimeout), [], c))"

section \<open>Datagrams\<close>

definition process_datagram :: "('rs, 'ss) server_lib \<Rightarrow> bytes \<Rightarrow> conn \<Rightarrow> ('rs, 'ss) turn" where
  "process_datagram L dgram c =
     (case Command_read_from (dgram_read L) (order L) dgram of
        Err e \<Rightarrow> (Finished (Err (Io e)), [], c)
      | Panic \<Rightarrow> (Finished Panic, [], c)
      | Ok (cmd, _) \<Rightarrow>
          (let cmd_len = Command_serialized_len cmd in
           (DatagramAwait Polling cmd cmd_len dgram, [], c)))"

definition process_datagram_authed ::
  "('rs, 'ss) server_lib \<Rightarrow> bool \<Rightarrow> Command \<Rightarrow> usize \<Rightarrow> bytes \<Rightarrow> conn \<Rightarrow> ('rs, 'ss) turn" where
  "process_datagram_authed L authed cmd cmd_len dgram c =
     (if authed then
        (case cmd of
           Packet assoc_id _ addr \<Rightarrow>
             (case datagram (exchange L) (udp_packet_from c) of
                (accepted, from) \<Rightarrow>
                  let c = c\<lparr>udp_packet_from := from\<rparr> in
                  if accepted then
                    (case slice_from cmd_len dgram of
                       Ok pkt \<Rightarrow>
                         (UdpLookup assoc_id pkt addr, [],
                          log_event (PacketFrom Datagram assoc_id pkt addr) c)
                     | Err () \<Rightarrow> (Finished (Ok ()), [], c)
                     | Panic \<Rightarrow> (Finished Panic, [], c))
                  else (Finished (Err BadCommand), [], c))
         | _ \<Rightarrow> (Finished (Err BadCommand), [], c))
      else (Finished (Err AuthenticationTimeout), [], c))"

section \<open>Packets from the outside\<close>

text \<open>
  A packet a session received goes back the way the client's packets came. The stream quinn
  opens and its answer to a datagram are arguments; the outcome of the send is only logged.
\<close>

definition process_received_udp_packet ::
  "('rs, 'ss) server_lib \<Rightarrow> quinn_error + 'ss \<Rightarrow> (bytes \<Rightarrow> quinn_error + unit)
   \<Rightarrow> u32 \<Rightarrow> bytes \<Rightarrow> Address \<Rightarrow> conn \<Rightarrow> ('rs, 'ss) turn" where
  "process_received_udp_packet L open_uni send_datagram assoc_id pkt addr c =
     (case unwrap_option (UdpPacketFrom_check (udp_packet_from c)) of
        Ok UniStream \<Rightarrow>
          (case packet_to_uni_stream (vec L) (send_write L) (send_quinn L) open_uni assoc_id pkt addr of
             Panic \<Rightarrow> (Finished Panic, [], c)
           | _ \<Rightarrow> (Finished (Ok ()), [], log_event (PacketTo UniStream assoc_id pkt addr) c))
      | Ok Datagram \<Rightarrow>
          (case packet_to_datagram (vec L) send_datagram assoc_id pkt addr of
             Panic \<Rightarrow> (Finished Panic, [], c)
           | _ \<Rightarrow> (Finished (Ok ()), [], log_event (PacketTo Datagram assoc_id pkt addr) c))
      | Err () \<Rightarrow> (Finished (Ok ()), [], c)
      | Panic \<Rightarrow> (Finished Panic, [], c))"

section \<open>The contract of the crates\<close>

locale server_env =
  fixes L :: "('rs, 'ss) server_lib"
    and content :: "'rs \<Rightarrow> bytes"
    and sent :: "'ss \<Rightarrow> bytes"
  assumes recv_contract: "quinn_receiver (recv_read L) content (order L) (recv_quinn L)"
    and dgram_contract: "wire_reader (dgram_read L) (\<lambda>bs. bs) (order L)"
    and vec_contract: "byte_buffer (vec L) (\<lambda>bs. bs)"
    and send_contract: "quinn_sender (send_write L) sent (send_quinn L)"
    and cell_contract: "atomic_cell (exchange L)"
begin

lemma recv_wire: "wire_reader (recv_read L) content (order L)"
  using recv_contract by (simp add: quinn_receiver_def)

lemmas read_stream_exact = wire_reader.read_Command_exact [OF recv_wire]
lemmas read_dgram_exact = wire_reader.read_Command_exact [OF dgram_contract]
lemmas uni_stream_cell = uni_stream_eq [OF cell_contract]
lemmas datagram_cell = datagram_eq [OF cell_contract]

lemma q_read_total: "q_read_exact (recv_quinn L) n r \<noteq> Panic"
  using quinn_receiver.q_read_exact_cases [OF recv_contract, of n r] by (metis outcome.distinct(3,5))

lemma dgram_header:
  assumes "Command_read_from (dgram_read L) (order L) d = Ok (cmd, rest)"
  shows "Command_ok cmd" and "wire_Command cmd = cmd" and "d = encode_Command cmd @ rest"
    and "Command_serialized_len cmd \<le> length d"
proof -
  show ok: "Command_ok cmd" and "wire_Command cmd = cmd" and d: "d = encode_Command cmd @ rest"
    using assms read_dgram_exact [of d] by simp_all
  show "Command_serialized_len cmd \<le> length d"
    unfolding length_encode_Command [OF ok, symmetric] by (subst d) simp
qed

lemma packet_to_uni_stream_total:
  "packet_to_uni_stream (vec L) (send_write L) (send_quinn L) opened assoc_id pkt addr \<noteq> Panic"
proof -
  note laws = quinn_sender.q_write_all_total [OF send_contract]
    quinn_sender.q_finish_total [OF send_contract]
    byte_writer.write_all_total [OF quinn_sender.axioms(1) [OF send_contract]]
  show ?thesis
    by (auto simp: packet_to_uni_stream_def Command_write_to_def Let_def outcome_simps laws)
qed

lemma task_connect_total:
  "fst (task_connect (vec L) (send_write L) (send_quinn L) lookup tcp copy send recv addr) \<noteq> Panic"
proof -
  note laws = quinn_sender.q_finish_total [OF send_contract]
    byte_writer.write_all_total [OF quinn_sender.axioms(1) [OF send_contract]]
  show ?thesis
    using laws
    by (auto simp: task_connect_def Command_write_to_def Let_def outcome_simps
        split: sum.splits option.splits outcome.splits)
qed

end

text \<open>The contract can hold: streams and datagrams that are byte strings in memory.\<close>

definition mem_lib :: "(bytes, bytes) server_lib" where
  "mem_lib =
     \<lparr>recv_read = slice_reader, recv_quinn = buffered_recv, dgram_read = slice_reader,
      order = cursor_order, vec = vec_buf, send_write = vec_writer, send_quinn = buffered_send,
      exchange = seq_cas\<rparr>"

interpretation mem: server_env mem_lib "\<lambda>bs. bs" "\<lambda>bs. bs"
  by (rule server_env.intro)
    (simp_all add: mem_lib_def bufrecv.quinn_receiver_axioms slice.wire_reader_axioms
      vec.byte_buffer_axioms bufsend.quinn_sender_axioms seqc.atomic_cell_axioms)

end
