(* ===== verification/Server_Connection.thy ===== *)
theory Server_Connection
  imports Server_Dispatch
begin

text \<open>
  \<open>server/src/connection/mod.rs\<close>: a connection with its spawned tasks, its UDP sessions and
  the authentication timer, as a machine whose labels name what happens next: a stream or a
  datagram arrives, a task takes its next turn, a socket answers, the timer elapses, the
  listeners fail. The tasks interleave at the points where the code awaits or takes a lock.
\<close>

datatype phase = Listening | Closing | Closed

record ('rs, 'ss) server =
  shared :: conn
  tasks :: "nat \<rightharpoonup> ('rs, 'ss) task"
  next_task :: nat
  timer_waiting :: bool
  phase :: phase
  recv_pkts :: "(u32 \<times> bytes \<times> Address) list"

text \<open>The waker of the task that runs \<open>Connection::handle\<close> itself.\<close>

definition handle_waker :: waker where
  "handle_waker = 0"

definition handle_init :: "bytes set \<Rightarrow> usize \<Rightarrow> ('rs, 'ss) server" where
  "handle_init tokens max_size =
     \<lparr>shared =
        \<lparr>closes = [], udp_packet_from = UdpPacketFrom_new,
         udp_sessions = UdpSessionMap_new max_size, token = tokens,
         auth = IsAuthenticated_new IsClosed_new, history = []\<rparr>,
      tasks = Map.empty, next_task = 1, timer_waiting = True, phase = Listening, recv_pkts = []\<rparr>"

section \<open>Tasks\<close>

fun unpark :: "('rs, 'ss) task \<Rightarrow> ('rs, 'ss) task" where
  "unpark (UniAwait Parked cmd stream) = UniAwait Polling cmd stream"
| "unpark (BiAwait Parked cmd send recv) = BiAwait Polling cmd send recv"
| "unpark (DatagramAwait Parked cmd n dgram) = DatagramAwait Polling cmd n dgram"
| "unpark t = t"

definition wake_tasks :: "waker list \<Rightarrow> (nat \<rightharpoonup> ('rs, 'ss) task) \<Rightarrow> (nat \<rightharpoonup> ('rs, 'ss) task)" where
  "wake_tasks woken ts = (\<lambda>i. if i \<in> set woken then map_option unpark (ts i) else ts i)"

text \<open>
  The end of a turn: the task's new state is stored, the woken tasks may run again, and a task
  that returned an error closes the connection with the error's code, as every listener's
  spawned block does.
\<close>

definition spawned_result :: "('rs, 'ss) task \<Rightarrow> conn \<Rightarrow> conn" where
  "spawned_result t c = (case t of Finished (Err err) \<Rightarrow> controller_close err c | _ \<Rightarrow> c)"

definition end_turn :: "nat \<Rightarrow> ('rs, 'ss) turn \<Rightarrow> ('rs, 'ss) server \<Rightarrow> ('rs, 'ss) server" where
  "end_turn i r s =
     (case r of (t, woken, c) \<Rightarrow>
        s\<lparr>shared := spawned_result t c, tasks := wake_tasks woken ((tasks s)(i \<mapsto> t))\<rparr>)"

definition spawn :: "('rs, 'ss) task \<Rightarrow> ('rs, 'ss) server \<Rightarrow> ('rs, 'ss) server" where
  "spawn t s = s\<lparr>tasks := (tasks s)(next_task s \<mapsto> t), next_task := Suc (next_task s)\<rparr>"

text \<open>One turn of \<open>self.is_authenticated.clone().await\<close> in task \<open>i\<close>.\<close>

definition await_authenticated ::
  "nat \<Rightarrow> wait \<Rightarrow> (wait \<Rightarrow> ('rs, 'ss) task) \<Rightarrow> (bool \<Rightarrow> conn \<Rightarrow> ('rs, 'ss) turn) \<Rightarrow> conn
   \<Rightarrow> ('rs, 'ss) turn option" where
  "await_authenticated i w waiting resume c =
     (case w of
        Polling \<Rightarrow>
          (case poll_flags (auth c) of
             Ready b \<Rightarrow> Some (resume b c)
           | Pending \<Rightarrow> Some (waiting Registering, [], c))
      | Registering \<Rightarrow> Some (waiting Parked, [], c\<lparr>auth := poll_register i (auth c)\<rparr>)
      | Parked \<Rightarrow> None)"

text \<open>
  The next turn of a task, where it depends on nothing outside the connection; \<open>None\<close> while it
  waits (to be woken, for room in a channel, or for an answer that comes with a label).
\<close>

fun task_turn :: "('rs, 'ss) server_lib \<Rightarrow> nat \<Rightarrow> ('rs, 'ss) task \<Rightarrow> conn \<Rightarrow> ('rs, 'ss) turn option" where
  "task_turn L i (UniRead stream) c = Some (process_uni_stream L stream c)"
| "task_turn L i (UniAwait w cmd stream) c =
     await_authenticated i w (\<lambda>w. UniAwait w cmd stream)
       (\<lambda>b. process_uni_stream_authed L b cmd stream) c"
| "task_turn L i (BiRead send recv) c = Some (process_bi_stream L send recv c)"
| "task_turn L i (BiAwait w cmd send recv) c =
     await_authenticated i w (\<lambda>w. BiAwait w cmd send recv)
       (\<lambda>b. process_bi_stream_authed b cmd send recv) c"
| "task_turn L i (DatagramRead dgram) c = Some (process_datagram L dgram c)"
| "task_turn L i (DatagramAwait w cmd n dgram) c =
     await_authenticated i w (\<lambda>w. DatagramAwait w cmd n dgram)
       (\<lambda>b. process_datagram_authed L b cmd n dgram) c"
| "task_turn L i (UdpLookup assoc_id pkt addr) c =
     (case send_lookup assoc_id (udp_sessions c) of
        Some tx \<Rightarrow> Some (UdpPush assoc_id tx pkt addr, [], c)
      | None \<Rightarrow> Some (UdpBind assoc_id pkt addr, [], c))"
| "task_turn L i (UdpInsert assoc_id tx pkt addr) c =
     Some (UdpPush assoc_id tx pkt addr, [],
       c\<lparr>udp_sessions := send_insert assoc_id tx (udp_sessions c)\<rparr>)"
| "task_turn L i (UdpPush assoc_id tx pkt addr) c =
     (if send_ready tx (udp_sessions c) then
        Some (Finished (Ok ()), [], c\<lparr>udp_sessions := send_push tx (pkt, addr) (udp_sessions c)\<rparr>)
      else None)"
| "task_turn L i _ c = None"

text \<open>\<open>UdpSession::new\<close> returned: on an error the request ends (the error is only logged).\<close>

definition bind_turn :: "io_error + unit \<Rightarrow> ('rs, 'ss) task \<Rightarrow> conn \<Rightarrow> ('rs, 'ss) turn option" where
  "bind_turn bound t c =
     (case t of
        UdpBind assoc_id pkt addr \<Rightarrow>
          (case UdpSession_new bound assoc_id (udp_sessions c) of
             Ok (tx, m) \<Rightarrow> Some (UdpInsert assoc_id tx pkt addr, [], c\<lparr>udp_sessions := m\<rparr>)
           | Err _ \<Rightarrow> Some (Finished (Ok ()), [], c)
           | Panic \<Rightarrow> Some (Finished Panic, [], c))
      | _ \<Rightarrow> None)"

definition relay_turn ::
  "('rs, 'ss) server_lib \<Rightarrow> (string \<Rightarrow> u16 \<Rightarrow> io_error + SocketAddr list)
   \<Rightarrow> (SocketAddr \<Rightarrow> io_error + tcp_stream)
   \<Rightarrow> (tcp_stream \<Rightarrow> 'ss \<Rightarrow> 'rs \<Rightarrow> io_error + unit)
   \<Rightarrow> ('rs, 'ss) task \<Rightarrow> conn \<Rightarrow> ('rs, 'ss) turn option" where
  "relay_turn L lookup_host tcp_connect copy t c =
     (case t of
        Connecting send recv addr \<Rightarrow>
          (case fst (task_connect (vec L) (send_write L) (send_quinn L) lookup_host tcp_connect copy
                       send recv addr) of
             Panic \<Rightarrow> Some (Finished Panic, [], c)
           | _ \<Rightarrow> Some (Finished (Ok ()), [], c))
      | _ \<Rightarrow> None)"

definition send_back_turn ::
  "('rs, 'ss) server_lib \<Rightarrow> quinn_error + 'ss \<Rightarrow> (bytes \<Rightarrow> quinn_error + unit)
   \<Rightarrow> ('rs, 'ss) task \<Rightarrow> conn \<Rightarrow> ('rs, 'ss) turn option" where
  "send_back_turn L open_uni send_datagram t c =
     (case t of
        Received assoc_id pkt addr \<Rightarrow>
          Some (process_received_udp_packet L open_uni send_datagram assoc_id pkt addr c)
      | _ \<Rightarrow> None)"

definition take_turn ::
  "nat \<Rightarrow> (('rs, 'ss) task \<Rightarrow> conn \<Rightarrow> ('rs, 'ss) turn option) \<Rightarrow> ('rs, 'ss) server
   \<Rightarrow> ('rs, 'ss) server option" where
  "take_turn i turn s =
     (case tasks s i of
        None \<Rightarrow> None
      | Some t \<Rightarrow>
          (case turn t (shared s) of
             None \<Rightarrow> None
           | Some r \<Rightarrow> Some (end_turn i r s)))"

section \<open>Listeners, sessions and the timer\<close>

definition set_sessions :: "UdpSessionMap \<Rightarrow> ('rs, 'ss) server \<Rightarrow> ('rs, 'ss) server" where
  "set_sessions m s = s\<lparr>shared := (shared s)\<lparr>udp_sessions := m\<rparr>\<rparr>"

definition log_server :: "event \<Rightarrow> ('rs, 'ss) server \<Rightarrow> ('rs, 'ss) server" where
  "log_server e s = s\<lparr>shared := log_event e (shared s)\<rparr>"

definition listen_uni_streams :: "'rs \<Rightarrow> ('rs, 'ss) server \<Rightarrow> ('rs, 'ss) server option" where
  "listen_uni_streams stream s =
     (if phase s = Listening then Some (spawn (UniRead stream) s) else None)"

definition listen_bi_streams :: "'ss \<Rightarrow> 'rs \<Rightarrow> ('rs, 'ss) server \<Rightarrow> ('rs, 'ss) server option" where
  "listen_bi_streams send recv s =
     (if phase s = Listening then Some (spawn (BiRead send recv) s) else None)"

definition listen_datagrams :: "bytes \<Rightarrow> ('rs, 'ss) server \<Rightarrow> ('rs, 'ss) server option" where
  "listen_datagrams dgram s =
     (if phase s = Listening then Some (spawn (DatagramRead dgram) s) else None)"

definition listen_received_udp_packet :: "('rs, 'ss) server \<Rightarrow> ('rs, 'ss) server option" where
  "listen_received_udp_packet s =
     (case recv_pkts s of
        [] \<Rightarrow> None
      | (assoc_id, pkt, addr) # rest \<Rightarrow>
          if phase s = Listening
          then Some (spawn (Received assoc_id pkt addr) (s\<lparr>recv_pkts := rest\<rparr>)) else None)"

text \<open>
  \<open>handle_authentication_timeout\<close>: polling the authentication ends the wait without an error
  once it is decided; the timer closes the connection, wakes the waiting tasks and ends the
  listeners.
\<close>

definition timer_poll :: "('rs, 'ss) server \<Rightarrow> ('rs, 'ss) server option" where
  "timer_poll s =
     (if phase s = Listening \<and> timer_waiting s then
        (case poll_flags (auth (shared s)) of
           Ready _ \<Rightarrow> Some (s\<lparr>timer_waiting := False\<rparr>)
         | Pending \<Rightarrow>
             Some (s\<lparr>shared := (shared s)\<lparr>auth := poll_register handle_waker (auth (shared s))\<rparr>\<rparr>))
      else None)"

definition timer_elapsed :: "('rs, 'ss) server \<Rightarrow> ('rs, 'ss) server option" where
  "timer_elapsed s =
     (if phase s = Listening \<and> timer_waiting s then
        (let c = controller_close AuthenticationTimeout (shared s) in
         case wake (auth c) of
           (a, woken) \<Rightarrow>
             Some (s\<lparr>shared := c\<lparr>auth := a\<rparr>, tasks := wake_tasks woken (tasks s),
                     timer_waiting := False, phase := Closing\<rparr>))
      else None)"

text \<open>A listener returned: the connection was closed by either side or timed out.\<close>

definition listener_fails :: "('rs, 'ss) server \<Rightarrow> ('rs, 'ss) server option" where
  "listener_fails s =
     (if phase s = Listening then Some (s\<lparr>timer_waiting := False, phase := Closing\<rparr>) else None)"

definition handle_closed :: "('rs, 'ss) server \<Rightarrow> ('rs, 'ss) server option" where
  "handle_closed s =
     (if phase s = Closing then
        (case set_closed (is_connection_closed (auth (shared s))) of
           (cl, woken) \<Rightarrow>
             Some (s\<lparr>shared := (shared s)\<lparr>auth := (auth (shared s))\<lparr>is_connection_closed := cl\<rparr>\<rparr>,
                     tasks := wake_tasks woken (tasks s), phase := Closed\<rparr>))
      else None)"

text \<open>
  The tasks of the UDP sessions. \<open>recv_from\<close> fills at most the buffer; the channel to the
  connection holds one packet, and once the listeners are gone a packet is dropped. A session
  whose senders are all gone (it is in the table no more and no request holds it) returns.
\<close>

definition session_send ::
  "nat \<Rightarrow> io_error + unit \<Rightarrow> ('rs, 'ss) server \<Rightarrow> ('rs, 'ss) server option" where
  "session_send tx answer s =
     (case session_tasks (udp_sessions (shared s)) tx of
        None \<Rightarrow> None
      | Some t \<Rightarrow>
          if send_queue t = [] then None
          else
            (case listen_send_packet tx (\<lambda>_ _. answer) (udp_sessions (shared s)) of
               (Some (pkt, addr), m) \<Rightarrow>
                 Some (set_sessions m (log_server (SocketSent (task_assoc_id t) pkt addr) s))
             | (None, m) \<Rightarrow> Some (set_sessions m s)))"

definition session_receive ::
  "nat \<Rightarrow> bytes \<times> nat \<times> SocketAddr \<Rightarrow> ('rs, 'ss) server \<Rightarrow> ('rs, 'ss) server option" where
  "session_receive tx received s =
     (case session_tasks (udp_sessions (shared s)) tx of
        None \<Rightarrow> None
      | Some t \<Rightarrow>
          if length (fst received) = max_pkt_size (udp_sessions (shared s))
            \<and> fst (snd received) \<le> length (fst received) then
            (if phase s \<noteq> Listening then Some s
             else if recv_pkts s = [] then
               (case listen_receive_packet (task_assoc_id t) received of
                  (assoc_id, pkt, addr) \<Rightarrow>
                    Some (log_server (SocketReceived assoc_id pkt addr)
                      (s\<lparr>recv_pkts := [(assoc_id, pkt, addr)]\<rparr>)))
             else None)
          else None)"

definition session_returns :: "nat \<Rightarrow> ('rs, 'ss) server \<Rightarrow> ('rs, 'ss) server" where
  "session_returns tx s =
     set_sessions ((udp_sessions (shared s))
       \<lparr>session_tasks := (session_tasks (udp_sessions (shared s)))(tx := None)\<rparr>) s"

fun holds_sender :: "nat \<Rightarrow> ('rs, 'ss) task \<Rightarrow> bool" where
  "holds_sender tx (UdpInsert assoc_id tx' pkt addr) \<longleftrightarrow> tx' = tx"
| "holds_sender tx (UdpPush assoc_id tx' pkt addr) \<longleftrightarrow> tx' = tx"
| "holds_sender tx _ \<longleftrightarrow> False"

fun is_finished :: "('rs, 'ss) task \<Rightarrow> bool" where
  "is_finished (Finished r) \<longleftrightarrow> True"
| "is_finished _ \<longleftrightarrow> False"

text \<open>
  The session table is shared by the clones of the connection. The listeners have one each until
  the first of them returns, and every spawned task has one until it ends; then the table is
  dropped, and with it the senders in it.
\<close>

definition table_alive :: "('rs, 'ss) server \<Rightarrow> bool" where
  "table_alive s \<longleftrightarrow>
     phase s = Listening \<or>
     list_ex (\<lambda>i. case tasks s i of None \<Rightarrow> False | Some t \<Rightarrow> \<not> is_finished t) [0..<next_task s]"

text \<open>
  The sender half of \<open>tx\<close> is alive while the table has it (a session is stored under the id it
  was started for and no other) or a request is about to insert it or to send on it.
\<close>

definition sender_alive :: "nat \<Rightarrow> session_task \<Rightarrow> ('rs, 'ss) server \<Rightarrow> bool" where
  "sender_alive tx t s \<longleftrightarrow>
     table_alive s \<and> session_map (udp_sessions (shared s)) (task_assoc_id t) = Some tx \<or>
     list_ex (\<lambda>i. case tasks s i of None \<Rightarrow> False | Some t' \<Rightarrow> holds_sender tx t') [0..<next_task s]"

section \<open>The machine\<close>

datatype ('rs, 'ss) label =
    AcceptUni 'rs
  | AcceptBi 'ss 'rs
  | AcceptDatagram bytes
  | AcceptReceived
  | Run nat
  | Bound nat "io_error + unit"
  | Relay nat "string \<Rightarrow> u16 \<Rightarrow> io_error + SocketAddr list"
      "SocketAddr \<Rightarrow> io_error + tcp_stream"
      "tcp_stream \<Rightarrow> 'ss \<Rightarrow> 'rs \<Rightarrow> io_error + unit"
  | SendBack nat "quinn_error + 'ss" "bytes \<Rightarrow> quinn_error + unit"
  | SocketSend nat "io_error + unit"
  | SocketReceive nat "bytes \<times> nat \<times> SocketAddr"
  | SocketFails nat
  | SessionOver nat
  | TimerPoll
  | TimerElapsed
  | ListenerFails
  | SetClosed

fun step :: "('rs, 'ss) server_lib \<Rightarrow> ('rs, 'ss) label \<Rightarrow> ('rs, 'ss) server \<Rightarrow> ('rs, 'ss) server option" where
  "step L (AcceptUni stream) s = listen_uni_streams stream s"
| "step L (AcceptBi send recv) s = listen_bi_streams send recv s"
| "step L (AcceptDatagram dgram) s = listen_datagrams dgram s"
| "step L AcceptReceived s = listen_received_udp_packet s"
| "step L (Run i) s = take_turn i (task_turn L i) s"
| "step L (Bound i bound) s = take_turn i (bind_turn bound) s"
| "step L (Relay i lookup_host tcp_connect copy) s =
     take_turn i (relay_turn L lookup_host tcp_connect copy) s"
| "step L (SendBack i open_uni send_datagram) s =
     take_turn i (send_back_turn L open_uni send_datagram) s"
| "step L (SocketSend tx answer) s = session_send tx answer s"
| "step L (SocketReceive tx received) s = session_receive tx received s"
| "step L (SocketFails tx) s =
     (if session_tasks (udp_sessions (shared s)) tx = None then None else Some (session_returns tx s))"
| "step L (SessionOver tx) s =
     (case session_tasks (udp_sessions (shared s)) tx of
        None \<Rightarrow> None
      | Some t \<Rightarrow>
          if send_queue t = [] \<and> \<not> sender_alive tx t s then Some (session_returns tx s) else None)"
| "step L TimerPoll s = timer_poll s"
| "step L TimerElapsed s = timer_elapsed s"
| "step L ListenerFails s = listener_fails s"
| "step L SetClosed s = handle_closed s"

fun run :: "('rs, 'ss) server_lib \<Rightarrow> ('rs, 'ss) label list \<Rightarrow> ('rs, 'ss) server \<Rightarrow> ('rs, 'ss) server option" where
  "run L [] s = Some s"
| "run L (l # ls) s = (case step L l s of None \<Rightarrow> None | Some s' \<Rightarrow> run L ls s')"

inductive reachable ::
  "('rs, 'ss) server_lib \<Rightarrow> bytes set \<Rightarrow> usize \<Rightarrow> ('rs, 'ss) server \<Rightarrow> bool"
  for L :: "('rs, 'ss) server_lib" and tokens :: "bytes set" and max_size :: usize
where
  init: "reachable L tokens max_size (handle_init tokens max_size)"
| step: "reachable L tokens max_size s \<Longrightarrow> step L l s = Some s' \<Longrightarrow> reachable L tokens max_size s'"

inductive_cases reachable_cases: "reachable L tokens max_size s"

lemma run_reachable: "run L ls s = Some s' \<Longrightarrow> reachable L T n s \<Longrightarrow> reachable L T n s'"
  by (induction ls arbitrary: s) (auto split: option.splits intro: reachable.step)

lemma run_append: "run L (ls @ ls') s = (case run L ls s of None \<Rightarrow> None | Some s' \<Rightarrow> run L ls' s')"
  by (induction ls arbitrary: s) (auto split: option.split)

section \<open>A run\<close>

text \<open>
  One connection from the token to a packet's way out and back, on byte strings in memory: the
  concrete case at which the properties below are evaluated.
\<close>

definition demo_token :: bytes where
  "demo_token = replicate 32 1"

definition demo_target :: Address where
  "demo_target = SocketAddress (V4 (Ipv4Addr 9 9 9 9) 53)"

definition demo_start :: "(bytes, bytes) server" where
  "demo_start = handle_init {demo_token} 4"

definition demo_authenticate :: "(bytes, bytes) label list" where
  "demo_authenticate = [AcceptUni (encode_Command (Authenticate demo_token)), Run 1]"

definition demo_packet :: "(bytes, bytes) label list" where
  "demo_packet =
     [AcceptDatagram (encode_Command (Packet 5 2 demo_target) @ [7, 8]), Run 2, Run 2, Run 2,
      Bound 2 (Inr ()), Run 2, Run 2]"

definition demo_exchange :: "(bytes, bytes) label list" where
  "demo_exchange =
     [SocketSend 0 (Inr ()), SocketReceive 0 ([1, 2, 3, 0], 3, V4 (Ipv4Addr 9 9 9 9) 53),
      AcceptReceived, SendBack 3 (Inl ''no stream'') (\<lambda>_. Inr ())]"

definition demo_end :: "(bytes, bytes) server" where
  "demo_end = (case run mem_lib (demo_authenticate @ demo_packet @ demo_exchange) demo_start of
     None \<Rightarrow> demo_start | Some s \<Rightarrow> s)"

lemma demo_end_run: "run mem_lib (demo_authenticate @ demo_packet @ demo_exchange) demo_start = Some demo_end"
proof -
  have "run mem_lib (demo_authenticate @ demo_packet @ demo_exchange) demo_start \<noteq> None"
    by code_simp
  then show ?thesis by (auto simp: demo_end_def)
qed

lemma demo_end_reachable: "reachable mem_lib {demo_token} 4 demo_end"
  using demo_end_run run_reachable reachable.init unfolding demo_start_def by metis

lemma demo_end_history:
  "history (shared demo_end) =
     [PacketTo Datagram 5 [1, 2, 3] demo_target, SocketReceived 5 [1, 2, 3] demo_target,
      SocketSent 5 [7, 8] demo_target, PacketFrom Datagram 5 [7, 8] demo_target,
      Authenticated demo_token]"
  by code_simp

text \<open>A request that arrives before the token: its task is parked.\<close>

definition demo_connect :: "(bytes, bytes) label list" where
  "demo_connect = [AcceptBi [] (encode_Command (Connect demo_target)), Run 1, Run 1, Run 1]"

definition demo_waiting :: "(bytes, bytes) server" where
  "demo_waiting = (case run mem_lib demo_connect demo_start of None \<Rightarrow> demo_start | Some s \<Rightarrow> s)"

lemma demo_waiting_run: "run mem_lib demo_connect demo_start = Some demo_waiting"
proof -
  have "run mem_lib demo_connect demo_start \<noteq> None" by code_simp
  then show ?thesis by (auto simp: demo_waiting_def)
qed

lemma demo_waiting_reachable: "reachable mem_lib {demo_token} 4 demo_waiting"
  using demo_waiting_run run_reachable reachable.init unfolding demo_start_def by metis

lemma demo_waiting_task: "tasks demo_waiting 1 = Some (BiAwait Parked (Connect demo_target) [] [])"
  by code_simp

end
