(* ===== verification/Server_Safety.thy ===== *)
theory Server_Safety
  imports Server_Connection
begin

text \<open>
  The invariants of a server connection, for every interleaving of its tasks: what only grows
  (\<open>conn_le\<close>), what holds of the shared state (\<open>conn_ok\<close>) and of each task (\<open>task_ok\<close>), and the
  consequences: nothing is relayed before a valid token was received, a connection keeps the
  UDP mode of its first packet, an associate id's packets stay with its own session, and no
  task panics.
\<close>

section \<open>What only grows\<close>

definition session_le :: "UdpSessionMap \<Rightarrow> UdpSessionMap \<Rightarrow> bool" where
  "session_le m m' \<longleftrightarrow>
     next_handle m \<le> next_handle m' \<and> max_pkt_size m' = max_pkt_size m \<and>
     (\<forall>tx t'. tx < next_handle m \<longrightarrow> session_tasks m' tx = Some t' \<longrightarrow>
        (\<exists>t. session_tasks m tx = Some t \<and> task_assoc_id t = task_assoc_id t'))"

definition conn_le :: "conn \<Rightarrow> conn \<Rightarrow> bool" where
  "conn_le c c' \<longleftrightarrow>
     token c' = token c \<and>
     (is_authenticated (auth c) \<longrightarrow> is_authenticated (auth c')) \<and>
     (is_closed (is_connection_closed (auth c)) \<longrightarrow> is_closed (is_connection_closed (auth c'))) \<and>
     (\<forall>k. udp_packet_from c = Some k \<longrightarrow> udp_packet_from c' = Some k) \<and>
     (\<exists>h. history c' = h @ history c) \<and>
     (\<exists>cl. closes c' = closes c @ cl) \<and>
     session_le (udp_sessions c) (udp_sessions c')"

lemma session_le_refl [simp, intro]: "session_le m m"
  by (auto simp: session_le_def)

lemma session_le_trans:
  assumes "session_le m m'" and "session_le m' m''"
  shows "session_le m m''"
  unfolding session_le_def
proof (intro conjI allI impI)
  show "next_handle m \<le> next_handle m''" and "max_pkt_size m'' = max_pkt_size m"
    using assms by (auto simp: session_le_def)
  fix tx t'' assume "tx < next_handle m" and t'': "session_tasks m'' tx = Some t''"
  moreover from this(1) assms(1) have "tx < next_handle m'" by (auto simp: session_le_def)
  ultimately obtain t' where "session_tasks m' tx = Some t'" "task_assoc_id t' = task_assoc_id t''"
    using assms(2) by (auto simp: session_le_def)
  with assms(1) \<open>tx < next_handle m\<close>
  show "\<exists>t. session_tasks m tx = Some t \<and> task_assoc_id t = task_assoc_id t''"
    unfolding session_le_def by metis
qed

lemma conn_le_refl [simp, intro]: "conn_le c c"
  by (auto simp: conn_le_def)

lemma conn_le_trans [trans]: "conn_le c c' \<Longrightarrow> conn_le c' c'' \<Longrightarrow> conn_le c c''"
  unfolding conn_le_def by (auto dest: session_le_trans)

lemma session_le_insert [simp]: "session_le m (send_insert a tx m)"
  by (auto simp: session_le_def send_insert_def)

lemma session_le_push [simp]: "session_le m (send_push tx item m)"
  by (auto simp: session_le_def send_push_def split: option.splits)

lemma session_le_dissociate [simp]: "session_le m (UdpSessionMap_dissociate a m)"
  by (auto simp: session_le_def UdpSessionMap_dissociate_def)

lemma session_le_new: "UdpSession_new bound a m = Ok (tx, m') \<Longrightarrow> session_le m m'"
  by (auto simp: session_le_def UdpSession_new_def Let_def outcome_simps)

lemma session_le_send_packet [simp]: "session_le m (snd (listen_send_packet tx answer m))"
  by (auto simp: session_le_def listen_send_packet_def split: option.splits list.splits sum.splits)

lemma session_le_returns [simp]:
  "session_le m (m\<lparr>session_tasks := (session_tasks m)(tx := None)\<rparr>)"
  by (auto simp: session_le_def)

section \<open>The shared state\<close>

fun event_source :: "event \<Rightarrow> UdpPacketSource option" where
  "event_source (PacketFrom k a pkt addr) = Some k"
| "event_source (PacketTo k a pkt addr) = Some k"
| "event_source _ = None"

definition authed_in :: "bytes set \<Rightarrow> event list \<Rightarrow> bool" where
  "authed_in T h \<longleftrightarrow> (\<exists>d \<in> T. Authenticated d \<in> set h)"

definition from_client :: "event list \<Rightarrow> u32 \<Rightarrow> bytes \<Rightarrow> Address \<Rightarrow> bool" where
  "from_client h a pkt addr \<longleftrightarrow> (\<exists>k. PacketFrom k a pkt addr \<in> set h)"

definition associated :: "event list \<Rightarrow> u32 \<Rightarrow> bool" where
  "associated h a \<longleftrightarrow> (\<exists>pkt addr. from_client h a pkt addr)"

text \<open>
  What must have happened before an event (the list is what happened before it): a token of
  the server's before anything is relayed, a packet of the client's before a session sends it
  on or receives for it, and a packet received on a session before it goes back to the client
  under that session's id.
\<close>

fun justified :: "bytes set \<Rightarrow> event \<Rightarrow> event list \<Rightarrow> bool" where
  "justified T (Authenticated d) h \<longleftrightarrow> d \<in> T"
| "justified T (PacketFrom k a pkt addr) h \<longleftrightarrow> authed_in T h"
| "justified T (Dissociated a) h \<longleftrightarrow> authed_in T h"
| "justified T (ConnectTo addr) h \<longleftrightarrow> authed_in T h"
| "justified T (SocketSent a pkt addr) h \<longleftrightarrow> from_client h a pkt addr"
| "justified T (SocketReceived a pkt addr) h \<longleftrightarrow> associated h a"
| "justified T (PacketTo k a pkt addr) h \<longleftrightarrow> SocketReceived a pkt addr \<in> set h"

fun gated :: "bytes set \<Rightarrow> event list \<Rightarrow> bool" where
  "gated T [] \<longleftrightarrow> True"
| "gated T (e # h) \<longleftrightarrow> justified T e h \<and> gated T h"

definition handle_for :: "UdpSessionMap \<Rightarrow> u32 \<Rightarrow> nat \<Rightarrow> bool" where
  "handle_for m a tx \<longleftrightarrow>
     tx < next_handle m \<and> (\<forall>t. session_tasks m tx = Some t \<longrightarrow> task_assoc_id t = a)"

definition sessions_ok :: "UdpSessionMap \<Rightarrow> bool" where
  "sessions_ok m \<longleftrightarrow>
     (\<forall>a tx. session_map m a = Some tx \<longrightarrow> handle_for m a tx) \<and>
     (\<forall>tx t. session_tasks m tx = Some t \<longrightarrow> tx < next_handle m \<and> length (send_queue t) \<le> 1)"

definition queues_ok :: "event list \<Rightarrow> UdpSessionMap \<Rightarrow> bool" where
  "queues_ok h m \<longleftrightarrow>
     (\<forall>tx t. session_tasks m tx = Some t \<longrightarrow>
        associated h (task_assoc_id t) \<and>
        (\<forall>pkt addr. (pkt, addr) \<in> set (send_queue t) \<longrightarrow> from_client h (task_assoc_id t) pkt addr))"

definition conn_ok :: "bytes set \<Rightarrow> conn \<Rightarrow> bool" where
  "conn_ok T c \<longleftrightarrow>
     token c = T \<and> gated T (history c) \<and>
     (is_authenticated (auth c) \<longrightarrow> authed_in T (history c)) \<and>
     (udp_packet_from c \<noteq> None \<longrightarrow> is_authenticated (auth c)) \<and>
     (\<forall>e \<in> set (history c). \<forall>k. event_source e = Some k \<longrightarrow> udp_packet_from c = Some k) \<and>
     sessions_ok (udp_sessions c) \<and> queues_ok (history c) (udp_sessions c)"

fun task_ok :: "conn \<Rightarrow> ('rs, 'ss) task \<Rightarrow> bool" where
  "task_ok c (UniAwait w cmd stream) \<longleftrightarrow> (\<forall>d. cmd \<noteq> Authenticate d)"
| "task_ok c (DatagramAwait w cmd n dgram) \<longleftrightarrow> n \<le> length dgram"
| "task_ok c (UdpLookup a pkt addr) \<longleftrightarrow> from_client (history c) a pkt addr"
| "task_ok c (UdpBind a pkt addr) \<longleftrightarrow> from_client (history c) a pkt addr"
| "task_ok c (UdpInsert a tx pkt addr) \<longleftrightarrow>
     from_client (history c) a pkt addr \<and> handle_for (udp_sessions c) a tx"
| "task_ok c (UdpPush a tx pkt addr) \<longleftrightarrow>
     from_client (history c) a pkt addr \<and> handle_for (udp_sessions c) a tx"
| "task_ok c (Received a pkt addr) \<longleftrightarrow> SocketReceived a pkt addr \<in> set (history c)"
| "task_ok c (Connecting send recv addr) \<longleftrightarrow> ConnectTo addr \<in> set (history c)"
| "task_ok c (Finished r) \<longleftrightarrow> r \<noteq> Panic"
| "task_ok c _ \<longleftrightarrow> True"

lemma authed_in_mono: "authed_in T h \<Longrightarrow> authed_in T (h' @ h)"
  by (auto simp: authed_in_def)

lemma from_client_mono: "from_client h a pkt addr \<Longrightarrow> from_client (h' @ h) a pkt addr"
  by (auto simp: from_client_def)

lemma from_client_Cons [simp]: "from_client (PacketFrom k a pkt addr # h) a pkt addr"
  by (auto simp: from_client_def)

lemma queues_ok_mono: "queues_ok h m \<Longrightarrow> queues_ok (h' @ h) m"
  unfolding queues_ok_def associated_def by (meson from_client_mono)

lemmas history_mono_Cons =
  authed_in_mono [of _ _ "[e]", simplified] from_client_mono [of _ _ _ _ "[e]", simplified]
  queues_ok_mono [of _ _ "[e]", simplified] for e

lemma handle_for_mono: "session_le m m' \<Longrightarrow> handle_for m a tx \<Longrightarrow> handle_for m' a tx"
  unfolding session_le_def handle_for_def by fastforce

lemma task_ok_mono: "conn_le c c' \<Longrightarrow> task_ok c t \<Longrightarrow> task_ok c' t"
  by (cases t) (auto simp: conn_le_def intro: handle_for_mono from_client_mono)

lemma task_ok_unpark [simp]: "task_ok c (unpark t) \<longleftrightarrow> task_ok c t"
  by (cases t rule: unpark.cases) auto

lemma gated_split: "gated T (later @ e # earlier) \<Longrightarrow> justified T e earlier \<and> gated T earlier"
  by (induction later) auto

lemma gated_authed:
  "gated T h \<Longrightarrow> e \<in> set h \<Longrightarrow> authed_in T h"
proof (induction h arbitrary: e)
  case (Cons e' h)
  have "authed_in T (e' # h)" if "justified T e' h"
    using that Cons.prems(1) Cons.IH
    by (cases e') (auto simp: associated_def from_client_def authed_in_def)
  with Cons.prems show ?case by simp
qed simp

lemma sessions_ok_new:
  assumes "UdpSession_new bound a m = Ok (tx, m')" and "sessions_ok m"
  shows "sessions_ok m'" and "handle_for m' a tx"
  using assms
  by (auto simp: UdpSession_new_def Let_def outcome_simps sessions_ok_def handle_for_def
      less_Suc_eq split: if_splits) (metis less_irrefl)

lemma queues_ok_new:
  "UdpSession_new bound a m = Ok (tx, m') \<Longrightarrow> queues_ok h m \<Longrightarrow> associated h a \<Longrightarrow> queues_ok h m'"
  by (auto simp: UdpSession_new_def Let_def outcome_simps queues_ok_def split: if_splits)

lemma sessions_ok_insert: "sessions_ok m \<Longrightarrow> handle_for m a tx \<Longrightarrow> sessions_ok (send_insert a tx m)"
  by (auto simp: sessions_ok_def handle_for_def send_insert_def)

lemma sessions_ok_push: "sessions_ok m \<Longrightarrow> send_ready tx m \<Longrightarrow> sessions_ok (send_push tx item m)"
  by (auto simp: sessions_ok_def handle_for_def send_push_def send_ready_def split: option.splits)

lemma queues_ok_push:
  "queues_ok h m \<Longrightarrow> handle_for m a tx \<Longrightarrow> from_client h a pkt addr \<Longrightarrow> queues_ok h (send_push tx (pkt, addr) m)"
  by (auto simp: queues_ok_def handle_for_def send_push_def split: option.splits)

lemma sessions_ok_dissociate: "sessions_ok m \<Longrightarrow> sessions_ok (UdpSessionMap_dissociate a m)"
  by (auto simp: sessions_ok_def handle_for_def UdpSessionMap_dissociate_def)

lemma sessions_ok_send_packet: "sessions_ok m \<Longrightarrow> sessions_ok (snd (listen_send_packet tx answer m))"
  unfolding sessions_ok_def handle_for_def listen_send_packet_def
  by (auto split: option.splits list.splits sum.splits if_splits) fastforce+

lemma queues_ok_send_packet: "queues_ok h m \<Longrightarrow> queues_ok h (snd (listen_send_packet tx answer m))"
  unfolding queues_ok_def listen_send_packet_def
  by (auto split: option.splits list.splits sum.splits if_splits)

lemma sessions_ok_returns:
  "sessions_ok m \<Longrightarrow> sessions_ok (m\<lparr>session_tasks := (session_tasks m)(tx := None)\<rparr>)"
  by (auto simp: sessions_ok_def handle_for_def)

lemma queues_ok_same [simp]:
  "queues_ok h (send_insert a tx m) \<longleftrightarrow> queues_ok h m"
  "queues_ok h (UdpSessionMap_dissociate a m) \<longleftrightarrow> queues_ok h m"
  by (simp_all add: queues_ok_def send_insert_def UdpSessionMap_dissociate_def)

lemma queues_ok_returns:
  "queues_ok h m \<Longrightarrow> queues_ok h (m\<lparr>session_tasks := (session_tasks m)(tx := None)\<rparr>)"
  by (auto simp: queues_ok_def)

text \<open>A change of the session table alone, by an operation that keeps it well formed.\<close>

lemma conn_sessions_update:
  assumes "conn_ok T c" and "sessions_ok m" and "queues_ok (history c) m"
    and "session_le (udp_sessions c) m"
  shows "conn_ok T (c\<lparr>udp_sessions := m\<rparr>)" and "conn_le c (c\<lparr>udp_sessions := m\<rparr>)"
  using assms by (auto simp: conn_ok_def conn_le_def)

section \<open>Turns\<close>

lemma history_log [simp]: "history (log_event e c) = e # history c"
  by (simp add: log_event_def)


definition good_turn :: "bytes set \<Rightarrow> conn \<Rightarrow> ('rs, 'ss) turn \<Rightarrow> bool" where
  "good_turn T c r \<longleftrightarrow> (case r of (t, woken, c') \<Rightarrow> conn_ok T c' \<and> task_ok c' t \<and> conn_le c c')"

lemma conn_ok_log:
  assumes "conn_ok T c" and "justified T e (history c)"
    and "\<forall>k. event_source e = Some k \<longrightarrow> udp_packet_from c = Some k"
  shows "conn_ok T (log_event e c)" and "conn_le c (log_event e c)"
  using assms by (auto simp: conn_ok_def conn_le_def log_event_def intro: history_mono_Cons)

lemma conn_ok_close: "conn_ok T c \<Longrightarrow> conn_ok T (controller_close err c)"
  by (auto simp: conn_ok_def controller_close_def)

lemma conn_le_close [simp]: "conn_le c (controller_close err c)"
  by (auto simp: conn_le_def controller_close_def)

lemma conn_ok_authed: "conn_ok T c \<Longrightarrow> is_authenticated (auth c) \<Longrightarrow> authed_in T (history c)"
  by (auto simp: conn_ok_def)

lemma conn_ok_received:
  assumes "conn_ok T c" and "SocketReceived a pkt addr \<in> set (history c)"
  shows "udp_packet_from c \<noteq> None"
proof -
  obtain later earlier where h: "history c = later @ SocketReceived a pkt addr # earlier"
    using assms(2) by (auto dest: split_list)
  with assms(1) have "associated earlier a" by (auto simp: conn_ok_def dest: gated_split)
  with h obtain k p ad where "PacketFrom k a p ad \<in> set (history c)"
    by (auto simp: associated_def from_client_def)
  with assms(1) show ?thesis by (fastforce simp: conn_ok_def)
qed

text \<open>Choosing the mode: only an authenticated request does it, and never against an earlier one.\<close>

lemma conn_choose_mode:
  assumes "conn_ok T c" and "is_authenticated (auth c)"
    and "udp_packet_from c = None \<or> udp_packet_from c = Some k"
  shows "conn_ok T (c\<lparr>udp_packet_from := Some k\<rparr>)" and "conn_le c (c\<lparr>udp_packet_from := Some k\<rparr>)"
  using assms by (auto simp: conn_ok_def conn_le_def)

lemma conn_auth_update:
  assumes "conn_ok T c" and "is_authenticated a = is_authenticated (auth c)"
    and "is_closed (is_connection_closed (auth c)) \<longrightarrow> is_closed (is_connection_closed a)"
  shows "conn_ok T (c\<lparr>auth := a\<rparr>)" and "conn_le c (c\<lparr>auth := a\<rparr>)"
  using assms by (auto simp: conn_ok_def conn_le_def)

lemma conn_authenticate:
  assumes "conn_ok T c" and "d \<in> T"
  shows "conn_ok T (log_event (Authenticated d) (c\<lparr>auth := (auth c)\<lparr>is_authenticated := True, broadcast := b\<rparr>\<rparr>))"
    and "conn_le c (log_event (Authenticated d) (c\<lparr>auth := (auth c)\<lparr>is_authenticated := True, broadcast := b\<rparr>\<rparr>))"
  using assms
  by (auto simp: conn_ok_def conn_le_def log_event_def authed_in_def intro: history_mono_Cons)

lemma same_mode: "udp_packet_from c = m \<Longrightarrow> c\<lparr>udp_packet_from := m\<rparr> = c"
  by simp

context server_env
begin

lemma good_process_uni_stream:
  assumes "conn_ok T c"
  shows "good_turn T c (process_uni_stream L stream c)"
proof (cases rule: exact_read_cases [OF read_stream_exact [of stream]])
  case (1 e)
  with assms show ?thesis by (simp add: good_turn_def process_uni_stream_def)
next
  case (2 cmd rest)
  have T: "token c = T" using assms by (simp add: conn_ok_def)
  have a: "conn_ok T (controller_close AuthenticationFailed c\<lparr>auth := (auth c)\<lparr>broadcast := []\<rparr>\<rparr>)"
    using conn_auth_update(1) [OF conn_ok_close [OF assms], of "(auth c)\<lparr>broadcast := []\<rparr>" AuthenticationFailed]
    by (simp add: controller_close_def)
  have b: "conn_le c (controller_close AuthenticationFailed c\<lparr>auth := (auth c)\<lparr>broadcast := []\<rparr>\<rparr>)"
    by (simp add: conn_le_def controller_close_def)
  show ?thesis
    using 2 assms T a b conn_authenticate [OF assms]
    by (auto simp: good_turn_def process_uni_stream_def auth_defs controller_close_def Let_def
        split: Command.split)
qed

lemma good_uni_stream_authed:
  assumes c: "conn_ok T c" and b: "b \<longrightarrow> is_authenticated (auth c)"
    and cmd: "\<forall>d. cmd \<noteq> Authenticate d"
  shows "good_turn T c (process_uni_stream_authed L b cmd stream c)"
proof (cases "b \<and> (\<exists>a n addr. cmd = Packet a n addr)")
  case True
  then obtain a n addr where cmd: "cmd = Packet a n addr" and b: "b" by auto
  with assms(2) have auth: "is_authenticated (auth c)" by simp
  consider "udp_packet_from c = None \<or> udp_packet_from c = Some UniStream"
    | "udp_packet_from c = Some Datagram"
    by (cases "udp_packet_from c") (auto intro: UdpPacketSource.exhaust)
  then show ?thesis
  proof cases
    case 1
    note m = conn_choose_mode [OF c auth 1]
    have h: "authed_in T (history c)" using c auth by (rule conn_ok_authed)
    from 1 have "uni_stream (exchange L) (udp_packet_from c) = (True, Some UniStream)"
      by (auto simp: uni_stream_cell)
    then show ?thesis
      using m h q_read_total [of "unat n" stream]
        conn_ok_log [OF m(1), of "PacketFrom UniStream a _ addr"]
      by (auto simp: good_turn_def process_uni_stream_authed_def cmd b log_event_def Let_def
          split: outcome.splits intro: conn_le_trans [OF m(2)])
  next
    case 2
    with c show ?thesis
      by (auto simp: good_turn_def process_uni_stream_authed_def cmd b uni_stream_cell same_mode)
  qed
next
  case False
  have d: "conn_ok T (log_event (Dissociated a) (c\<lparr>udp_sessions := UdpSessionMap_dissociate a (udp_sessions c)\<rparr>))
    \<and> conn_le c (log_event (Dissociated a) (c\<lparr>udp_sessions := UdpSessionMap_dissociate a (udp_sessions c)\<rparr>))"
    if b for a
  proof -
    let ?m = "UdpSessionMap_dissociate a (udp_sessions c)"
    have "sessions_ok ?m" and "queues_ok (history c) ?m"
      using c by (auto simp: conn_ok_def intro: sessions_ok_dissociate)
    note u = conn_sessions_update [OF c this session_le_dissociate]
    have "authed_in T (history c)" using c b that by (auto simp: conn_ok_def)
    then show ?thesis
      using conn_ok_log [OF u(1), of "Dissociated a"] u(2) by (auto intro: conn_le_trans)
  qed
  from False c cmd d show ?thesis
    by (auto simp: good_turn_def process_uni_stream_authed_def task_dissociate_def split: Command.split)
qed

lemma good_process_bi_stream:
  assumes "conn_ok T c"
  shows "good_turn T c (process_bi_stream L send recv c)"
  using read_stream_exact [of recv]
  by (cases rule: exact_read_cases) (auto simp: good_turn_def process_bi_stream_def assms)

lemma good_bi_stream_authed:
  assumes "conn_ok T c" and "b \<longrightarrow> is_authenticated (auth c)"
  shows "good_turn T c (process_bi_stream_authed b cmd send recv c)"
  using assms conn_ok_log [OF assms(1)] conn_ok_authed [OF assms(1)]
  by (auto simp: good_turn_def process_bi_stream_authed_def split: Command.split)

lemma good_process_datagram:
  assumes "conn_ok T c"
  shows "good_turn T c (process_datagram L dgram c)"
  using read_dgram_exact [of dgram]
proof (cases rule: exact_read_cases)
  case (success cmd rest)
  with dgram_header(4) [OF success(1)] assms show ?thesis
    by (simp add: good_turn_def process_datagram_def)
qed (simp add: good_turn_def process_datagram_def assms)

lemma good_datagram_authed:
  assumes c: "conn_ok T c" and b: "b \<longrightarrow> is_authenticated (auth c)" and n: "n \<le> length dgram"
  shows "good_turn T c (process_datagram_authed L b cmd n dgram c)"
proof (cases "b \<and> (\<exists>a k addr. cmd = Packet a k addr)")
  case True
  then obtain a k addr where cmd: "cmd = Packet a k addr" and b: "b" by auto
  with assms(2) have auth: "is_authenticated (auth c)" by simp
  consider "udp_packet_from c = None \<or> udp_packet_from c = Some Datagram"
    | "udp_packet_from c = Some UniStream"
    by (cases "udp_packet_from c") (auto intro: UdpPacketSource.exhaust)
  then show ?thesis
  proof cases
    case 1
    note m = conn_choose_mode [OF c auth 1]
    have h: "authed_in T (history c)" using c auth by (rule conn_ok_authed)
    from 1 have "datagram (exchange L) (udp_packet_from c) = (True, Some Datagram)"
      by (auto simp: datagram_cell)
    then show ?thesis
      using m h n conn_ok_log [OF m(1), of "PacketFrom Datagram a _ addr"]
      by (auto simp: good_turn_def process_datagram_authed_def cmd b log_event_def slice_from_def
          intro: conn_le_trans [OF m(2)])
  next
    case 2
    with c show ?thesis
      by (auto simp: good_turn_def process_datagram_authed_def cmd b datagram_cell same_mode)
  qed
next
  case False
  with c show ?thesis
    by (auto simp: good_turn_def process_datagram_authed_def split: Command.split)
qed

lemma good_received:
  assumes "conn_ok T c" and "SocketReceived a pkt addr \<in> set (history c)"
  shows "good_turn T c (process_received_udp_packet L opened send_dg a pkt addr c)"
proof -
  obtain k where k: "udp_packet_from c = Some k" using conn_ok_received [OF assms] by auto
  show ?thesis
    using assms k conn_ok_log [OF assms(1), of "PacketTo k a pkt addr"]
      packet_to_uni_stream_total [of opened a pkt addr]
    by (cases k)
      (auto simp: good_turn_def process_received_udp_packet_def UdpPacketFrom_check_def
        packet_to_datagram_def Let_def outcome_simps split: outcome.split)
qed

lemma good_await:
  assumes "conn_ok T c" and "\<And>w. task_ok c (waiting w)" and "\<And>w c c'. task_ok c (waiting w) \<Longrightarrow> task_ok c' (waiting w)"
    and "\<And>b. b \<longrightarrow> is_authenticated (auth c) \<Longrightarrow> good_turn T c (resume b c)"
    and "await_authenticated i w waiting resume c = Some r"
  shows "good_turn T c r"
  using assms(5,1,2) conn_auth_update [OF assms(1), of "poll_register i (auth c)"] assms(4) [of True] assms(4) [of False]
    assms(3) [of c]
  by (auto simp: await_authenticated_def poll_flags_def poll_register_def check_def good_turn_def
      split: wait.splits if_splits)

lemma good_udp_turn:
  assumes c: "conn_ok T c" and t: "task_ok c t"
    and "t = UdpLookup a pkt addr \<or> t = UdpInsert a tx pkt addr \<or> t = UdpPush a tx pkt addr"
    and r: "task_turn L i t c = Some r"
  shows "good_turn T c r"
  using assms(3)
proof (elim disjE)
  assume "t = UdpLookup a pkt addr"
  with c t r show ?thesis
    by (auto simp: good_turn_def send_lookup_def conn_ok_def sessions_ok_def split: option.splits)
next
  let ?m = "send_insert a tx (udp_sessions c)"
  assume t': "t = UdpInsert a tx pkt addr"
  with c t have "sessions_ok ?m" "queues_ok (history c) ?m"
    by (auto simp: conn_ok_def intro: sessions_ok_insert)
  note u = conn_sessions_update [OF c this session_le_insert]
  from u r t t' show ?thesis
    by (auto simp: good_turn_def intro: handle_for_mono [OF session_le_insert])
next
  let ?m = "send_push tx (pkt, addr) (udp_sessions c)"
  assume t': "t = UdpPush a tx pkt addr"
  with r have ready: "send_ready tx (udp_sessions c)" by (auto split: if_splits)
  with c t t' have "sessions_ok ?m" "queues_ok (history c) ?m"
    by (auto simp: conn_ok_def intro: sessions_ok_push queues_ok_push)
  note u = conn_sessions_update [OF c this session_le_push]
  from u ready r t t' show ?thesis by (auto simp: good_turn_def)
qed

lemma good_task_turn:
  assumes c: "conn_ok T c" and t: "task_ok c t" and r: "task_turn L i t c = Some r"
  shows "good_turn T c r"
proof (cases t)
  case (UniAwait w cmd stream)
  from r have r: "await_authenticated i w (\<lambda>w. UniAwait w cmd stream)
      (\<lambda>b. process_uni_stream_authed L b cmd stream) c = Some r"
    by (simp add: UniAwait)
  show ?thesis
    by (rule good_await [OF c _ _ _ r]) (use t UniAwait in \<open>simp_all add: good_uni_stream_authed [OF c]\<close>)
next
  case (BiAwait w cmd send recv)
  from r have r: "await_authenticated i w (\<lambda>w. BiAwait w cmd send recv)
      (\<lambda>b. process_bi_stream_authed b cmd send recv) c = Some r"
    by (simp add: BiAwait)
  show ?thesis
    by (rule good_await [OF c _ _ _ r]) (simp_all add: good_bi_stream_authed [OF c])
next
  case (DatagramAwait w cmd n dgram)
  from r have r: "await_authenticated i w (\<lambda>w. DatagramAwait w cmd n dgram)
      (\<lambda>b. process_datagram_authed L b cmd n dgram) c = Some r"
    by (simp add: DatagramAwait)
  show ?thesis
    by (rule good_await [OF c _ _ _ r])
      (use t DatagramAwait in \<open>simp_all add: good_datagram_authed [OF c]\<close>)
next
  case (UniRead stream)
  with r good_process_uni_stream [OF c] show ?thesis by auto
next
  case (BiRead send recv)
  with r good_process_bi_stream [OF c] show ?thesis by auto
next
  case (DatagramRead dgram)
  with r good_process_datagram [OF c] show ?thesis by auto
qed (use r good_udp_turn [OF c t _ r] in auto)

lemma good_bind_turn:
  assumes c: "conn_ok T c" and t: "task_ok c t" and r: "bind_turn bound t c = Some r"
  shows "good_turn T c r"
proof -
  from r obtain a pkt addr where t': "t = UdpBind a pkt addr"
    by (auto simp: bind_turn_def split: task.splits)
  show ?thesis
  proof (cases "UdpSession_new bound a (udp_sessions c)")
    case (Ok p)
    obtain tx m where p: "p = (tx, m)" by fastforce
    have h: "associated (history c) a" using t t' by (auto simp: associated_def)
    note new = Ok [unfolded p]
    have "sessions_ok m" "queues_ok (history c) m" "handle_for m a tx"
      using c h sessions_ok_new [OF new] queues_ok_new [OF new] by (auto simp: conn_ok_def)
    with conn_sessions_update [OF c this(1,2) session_le_new [OF new]] t t' r new
    show ?thesis by (auto simp: good_turn_def bind_turn_def)
  qed (use r t' c in \<open>auto simp: good_turn_def bind_turn_def UdpSession_new_def outcome_simps Let_def\<close>)
qed

lemma good_relay_turn:
  assumes "conn_ok T c" and "relay_turn L lookup tcp copy t c = Some r"
  shows "good_turn T c r"
proof -
  from assms(2) obtain send recv addr where "t = Connecting send recv addr"
    by (auto simp: relay_turn_def split: task.splits)
  with assms task_connect_total [of lookup tcp copy send recv addr] show ?thesis
    by (auto simp: relay_turn_def good_turn_def split: outcome.splits)
qed

lemma good_send_back_turn:
  assumes "conn_ok T c" and "task_ok c t" and "send_back_turn L opened send_dg t c = Some r"
  shows "good_turn T c r"
  using assms by (auto simp: send_back_turn_def intro: good_received split: task.splits)

end

section \<open>The whole connection\<close>

definition tasks_ok :: "('rs, 'ss) server \<Rightarrow> bool" where
  "tasks_ok s \<longleftrightarrow>
     (\<forall>i t. tasks s i = Some t \<longrightarrow> i \<noteq> handle_waker \<and> i < next_task s \<and> task_ok (shared s) t)"

definition server_ok :: "bytes set \<Rightarrow> ('rs, 'ss) server \<Rightarrow> bool" where
  "server_ok T s \<longleftrightarrow>
     conn_ok T (shared s) \<and> tasks_ok s \<and> handle_waker < next_task s \<and> length (recv_pkts s) \<le> 1 \<and>
     (\<forall>a pkt addr. (a, pkt, addr) \<in> set (recv_pkts s) \<longrightarrow>
        SocketReceived a pkt addr \<in> set (history (shared s)))"

lemma server_ok_shared:
  assumes "server_ok T s" and "conn_ok T c" and "conn_le (shared s) c"
  shows "server_ok T (s\<lparr>shared := c\<rparr>)"
  using assms task_ok_mono [OF assms(3)] by (fastforce simp: server_ok_def tasks_ok_def conn_le_def)

lemma server_ok_wake [simp]:
  "server_ok T (s\<lparr>tasks := wake_tasks woken (tasks s)\<rparr>) \<longleftrightarrow> server_ok T s"
  by (fastforce simp: server_ok_def tasks_ok_def wake_tasks_def split: if_splits)

lemma server_ok_task:
  assumes "server_ok T s" and "task_ok (shared s) t" and "i \<noteq> handle_waker" and "i < next_task s"
  shows "server_ok T (s\<lparr>tasks := (tasks s)(i \<mapsto> t)\<rparr>)"
  using assms by (auto simp: server_ok_def tasks_ok_def)

lemma server_ok_spawn: "server_ok T s \<Longrightarrow> task_ok (shared s) t \<Longrightarrow> server_ok T (spawn t s)"
  by (auto simp: server_ok_def tasks_ok_def spawn_def less_Suc_eq)

lemma server_ok_flags [simp]:
  "server_ok T (s\<lparr>timer_waiting := b\<rparr>) \<longleftrightarrow> server_ok T s"
  "server_ok T (s\<lparr>phase := p\<rparr>) \<longleftrightarrow> server_ok T s"
  by (simp_all add: server_ok_def tasks_ok_def)

lemma conn_spawned_result:
  "conn_ok T c \<Longrightarrow> conn_ok T (spawned_result t c)" "conn_le c (spawned_result t c)"
  by (auto simp: spawned_result_def conn_ok_close split: task.split outcome.split)

lemma server_ok_end_turn:
  assumes s: "server_ok T s" and i: "tasks s i = Some t" and r: "good_turn T (shared s) r"
  shows "server_ok T (end_turn i r s)" and "conn_le (shared s) (shared (end_turn i r s))"
proof -
  obtain t' woken c where r': "r = (t', woken, c)" by (cases r)
  let ?c = "spawned_result t' c"
  have le: "conn_le (shared s) ?c" and ok: "conn_ok T ?c" and t': "task_ok ?c t'"
    using r conn_spawned_result(1) [of T c t'] conn_spawned_result(2) [of c t'] task_ok_mono [of c ?c t']
    by (auto simp: good_turn_def r' intro: conn_le_trans)
  let ?s = "s\<lparr>shared := ?c\<rparr>"
  have "i \<noteq> handle_waker" "i < next_task s" using s i by (auto simp: server_ok_def tasks_ok_def)
  let ?s' = "?s\<lparr>tasks := (tasks ?s)(i \<mapsto> t')\<rparr>"
  from \<open>i \<noteq> handle_waker\<close> \<open>i < next_task s\<close> have "server_ok T ?s'"
    using server_ok_task [OF server_ok_shared [OF s ok le]] t' by simp
  then have "server_ok T (?s'\<lparr>tasks := wake_tasks woken (tasks ?s')\<rparr>)" by (simp only: server_ok_wake)
  then show "server_ok T (end_turn i r s)" by (simp add: end_turn_def r')
  show "conn_le (shared s) (shared (end_turn i r s))" using le by (simp add: end_turn_def r')
qed

lemma server_ok_sessions:
  assumes "server_ok T s" and "sessions_ok m" and "queues_ok (history (shared s)) m"
    and "session_le (udp_sessions (shared s)) m"
  shows "server_ok T (set_sessions m s)" and "conn_le (shared s) (shared (set_sessions m s))"
proof -
  have "conn_ok T (shared s)" using assms(1) by (simp add: server_ok_def)
  note u = conn_sessions_update [OF this assms(2-4)]
  from server_ok_shared [OF assms(1) u] u(2)
  show "server_ok T (set_sessions m s)" and "conn_le (shared s) (shared (set_sessions m s))"
    by (simp_all add: set_sessions_def)
qed

lemma server_ok_log:
  assumes "server_ok T s" and "justified T e (history (shared s))" and "event_source e = None"
  shows "server_ok T (log_server e s)" and "conn_le (shared s) (shared (log_server e s))"
proof -
  have "conn_ok T (shared s)" using assms(1) by (simp add: server_ok_def)
  note u = conn_ok_log [OF this assms(2)]
  from server_ok_shared [OF assms(1) u] u(2) assms(3)
  show "server_ok T (log_server e s)" and "conn_le (shared s) (shared (log_server e s))"
    by (simp_all add: log_server_def)
qed

lemma server_ok_auth:
  assumes "server_ok T s" and "is_authenticated a = is_authenticated (auth (shared s))"
    and "is_closed (is_connection_closed (auth (shared s))) \<longrightarrow> is_closed (is_connection_closed a)"
  shows "server_ok T (s\<lparr>shared := (shared s)\<lparr>auth := a\<rparr>\<rparr>)" and "conn_le (shared s) ((shared s)\<lparr>auth := a\<rparr>)"
proof -
  have "conn_ok T (shared s)" using assms(1) by (simp add: server_ok_def)
  note u = conn_auth_update [OF this assms(2,3)]
  from server_ok_shared [OF assms(1) u] u(2)
  show "server_ok T (s\<lparr>shared := (shared s)\<lparr>auth := a\<rparr>\<rparr>)" and "conn_le (shared s) ((shared s)\<lparr>auth := a\<rparr>)"
    by simp_all
qed

lemma shared_log [simp]: "udp_sessions (shared (log_server e s)) = udp_sessions (shared s)"
  by (simp add: log_server_def log_event_def)

text \<open>The steps that are not a task's.\<close>

definition good_step :: "bytes set \<Rightarrow> ('rs, 'ss) server \<Rightarrow> ('rs, 'ss) server \<Rightarrow> bool" where
  "good_step T s s' \<longleftrightarrow> server_ok T s' \<and> conn_le (shared s) (shared s')"

lemma good_session_send:
  assumes s: "server_ok T s" and "session_send tx answer s = Some s'"
  shows "good_step T s s'"
proof -
  let ?m = "udp_sessions (shared s)"
  from assms(2) obtain t p rest where t: "session_tasks ?m tx = Some t" and q: "send_queue t = p # rest"
    by (auto simp: session_send_def neq_Nil_conv split: option.splits if_splits)
  obtain pkt addr where p: "p = (pkt, addr)" by fastforce
  let ?m' = "snd (listen_send_packet tx (\<lambda>_ _. answer) ?m)" and ?e = "SocketSent (task_assoc_id t) pkt addr"
  have ok: "sessions_ok ?m'" "queues_ok (history (shared s)) ?m'"
    using s by (auto simp: server_ok_def conn_ok_def intro: sessions_ok_send_packet queues_ok_send_packet)
  have "justified T ?e (history (shared s))"
    using s t q by (auto simp: p server_ok_def conn_ok_def queues_ok_def)
  note log = server_ok_log [OF s this, simplified]
  have "queues_ok (history (shared (log_server ?e s))) ?m'"
    using ok(2) by (auto simp: log_server_def log_event_def intro: history_mono_Cons)
  note sent = server_ok_sessions [OF log(1) ok(1) this, unfolded shared_log, OF session_le_send_packet]
  from server_ok_sessions [OF s ok session_le_send_packet] sent conn_le_trans [OF log(2) sent(2)] assms(2) t q
  show ?thesis
    by (auto simp: p good_step_def session_send_def listen_send_packet_def split: sum.splits)
qed

lemma good_session_receive:
  assumes s: "server_ok T s" and "session_receive tx received s = Some s'"
  shows "good_step T s s'"
proof -
  from assms(2) obtain t where t: "session_tasks (udp_sessions (shared s)) tx = Some t"
    by (auto simp: session_receive_def split: option.splits)
  obtain a pkt addr where r: "listen_receive_packet (task_assoc_id t) received = (a, pkt, addr)"
    by (metis surj_pair)
  then have a: "a = task_assoc_id t" by (auto simp: listen_receive_packet_def split: prod.splits)
  have "justified T (SocketReceived a pkt addr) (history (shared s))"
    using s t by (auto simp: a server_ok_def conn_ok_def queues_ok_def)
  note log = server_ok_log [OF s this]
  have "server_ok T (log_server (SocketReceived a pkt addr) (s\<lparr>recv_pkts := [(a, pkt, addr)]\<rparr>))"
    using log(1) by (simp add: server_ok_def tasks_ok_def log_server_def log_event_def)
  with assms(2) s t r log show ?thesis
    by (auto simp: good_step_def session_receive_def log_server_def split: if_splits)
qed

lemma good_session_returns: "server_ok T s \<Longrightarrow> good_step T s (session_returns tx s)"
  unfolding session_returns_def good_step_def
  by (intro conjI server_ok_sessions [where T = T] session_le_returns sessions_ok_returns queues_ok_returns)
    (auto simp: server_ok_def conn_ok_def)

lemma good_accept:
  "server_ok T s \<Longrightarrow> listen_uni_streams stream s = Some s' \<Longrightarrow> good_step T s s'"
  "server_ok T s \<Longrightarrow> listen_bi_streams send recv s = Some s' \<Longrightarrow> good_step T s s'"
  "server_ok T s \<Longrightarrow> listen_datagrams dgram s = Some s' \<Longrightarrow> good_step T s s'"
  by (auto simp: good_step_def listen_uni_streams_def listen_bi_streams_def listen_datagrams_def
      server_ok_spawn split: if_splits) (simp_all add: spawn_def)

lemma good_accept_received:
  assumes "server_ok T s" and "listen_received_udp_packet s = Some s'"
  shows "good_step T s s'"
proof -
  from assms(2) obtain a pkt addr rest where r: "recv_pkts s = (a, pkt, addr) # rest"
    by (auto simp: listen_received_udp_packet_def split: list.splits)
  with assms(1) have "server_ok T (s\<lparr>recv_pkts := rest\<rparr>)" by (auto simp: server_ok_def tasks_ok_def)
  from server_ok_spawn [OF this, of "Received a pkt addr"] assms r show ?thesis
    by (auto simp: listen_received_udp_packet_def good_step_def server_ok_def [of T s] split: if_splits)
      (simp add: spawn_def)
qed

lemma is_closed_set_closed: "is_closed (fst (set_closed x))"
  by (simp add: set_closed_def split: option.split)

lemma good_timer:
  assumes s: "server_ok T s"
  shows "timer_poll s = Some s' \<Longrightarrow> good_step T s s'" and "timer_elapsed s = Some s' \<Longrightarrow> good_step T s s'"
    and "listener_fails s = Some s' \<Longrightarrow> good_step T s s'" and "handle_closed s = Some s' \<Longrightarrow> good_step T s s'"
proof -
  let ?c = "controller_close AuthenticationTimeout (shared s)"
  have "server_ok T (s\<lparr>shared := ?c\<rparr>)"
    using server_ok_shared [OF s _ conn_le_close] s by (simp add: server_ok_def conn_ok_close)
  from server_ok_auth [OF this, of "(auth ?c)\<lparr>broadcast := []\<rparr>"]
  have close: "server_ok T (s\<lparr>shared := ?c\<lparr>auth := (auth ?c)\<lparr>broadcast := []\<rparr>\<rparr>\<rparr>)"
    and "conn_le ?c (?c\<lparr>auth := (auth ?c)\<lparr>broadcast := []\<rparr>\<rparr>)" by simp_all
  then have le: "conn_le (shared s) (?c\<lparr>auth := (auth ?c)\<lparr>broadcast := []\<rparr>\<rparr>)"
    using conn_le_close conn_le_trans by blast
  show "good_step T s s'" if "timer_elapsed s = Some s'"
    using that server_ok_wake [of T _ "s\<lparr>shared := ?c\<lparr>auth := (auth ?c)\<lparr>broadcast := []\<rparr>\<rparr>\<rparr>"] close le
    by (auto simp: timer_elapsed_def wake_def good_step_def Let_def split: if_splits)
  show "good_step T s s'" if "timer_poll s = Some s'"
    using that server_ok_auth [OF s, of "poll_register handle_waker (auth (shared s))"] s
    by (auto simp: timer_poll_def poll_register_def good_step_def split: if_splits poll.splits)
  show "good_step T s s'" if "listener_fails s = Some s'"
    using that s by (auto simp: listener_fails_def good_step_def split: if_splits)
  let ?a = "(auth (shared s))\<lparr>is_connection_closed := fst (set_closed (is_connection_closed (auth (shared s))))\<rparr>"
  show "good_step T s s'" if "handle_closed s = Some s'"
    using that server_ok_auth [OF s, of ?a] server_ok_wake [of T _ "s\<lparr>shared := (shared s)\<lparr>auth := ?a\<rparr>\<rparr>"]
    by (auto simp: handle_closed_def good_step_def is_closed_set_closed split: if_splits prod.splits)
qed

context server_env
begin

lemma good_take_turn:
  assumes "server_ok T s" and "take_turn i turn s = Some s'"
    and "\<And>t r. conn_ok T (shared s) \<Longrightarrow> task_ok (shared s) t \<Longrightarrow> turn t (shared s) = Some r
      \<Longrightarrow> good_turn T (shared s) r"
  shows "good_step T s s'"
proof -
  from assms(2) obtain t r where t: "tasks s i = Some t" and r: "turn t (shared s) = Some r"
    and s': "s' = end_turn i r s"
    by (auto simp: take_turn_def split: option.splits)
  have "conn_ok T (shared s)" and "task_ok (shared s) t"
    using assms(1) t by (auto simp: server_ok_def tasks_ok_def)
  from server_ok_end_turn [OF assms(1) t assms(3) [OF this r]] show ?thesis by (simp add: s' good_step_def)
qed

lemma good_step:
  assumes s: "server_ok T s" and l: "step L l s = Some s'"
  shows "good_step T s s'"
proof (cases l)
  case (Run i)
  with l show ?thesis by (auto intro: good_take_turn [OF s] good_task_turn)
next
  case (Bound i bound)
  with l show ?thesis by (auto intro: good_take_turn [OF s] good_bind_turn)
next
  case (Relay i lookup tcp copy)
  with l show ?thesis by (auto intro: good_take_turn [OF s] good_relay_turn)
next
  case (SendBack i opened send_dg)
  with l show ?thesis by (auto intro: good_take_turn [OF s] good_send_back_turn)
next
  case (SocketSend tx answer)
  with l show ?thesis by (auto intro: good_session_send [OF s])
next
  case (SocketReceive tx received)
  with l show ?thesis by (auto intro: good_session_receive [OF s])
qed (use l s in \<open>auto intro: good_accept good_accept_received good_timer good_session_returns
  split: option.splits if_splits\<close>)

lemma reachable_ok: "reachable L T n s \<Longrightarrow> server_ok T s"
proof (induction rule: reachable.induct)
  case init
  show ?case
    by (simp add: server_ok_def conn_ok_def tasks_ok_def handle_init_def handle_waker_def
        UdpPacketFrom_new_def UdpSessionMap_new_def sessions_ok_def queues_ok_def
        IsAuthenticated_new_def)
next
  case (step s l s')
  then show ?case using good_step by (auto simp: good_step_def)
qed

lemma good_run: "server_ok T s \<Longrightarrow> run L ls s = Some s' \<Longrightarrow> good_step T s s'"
proof (induction ls arbitrary: s)
  case (Cons l ls)
  then obtain s1 where 1: "step L l s = Some s1" and 2: "run L ls s1 = Some s'"
    by (auto split: option.splits)
  from good_step [OF Cons.prems(1) 1] Cons.IH [OF _ 2] show ?case
    by (auto simp: good_step_def intro: conn_le_trans)
qed (simp add: good_step_def)

end

section \<open>Properties\<close>

fun relaying :: "('rs, 'ss) task \<Rightarrow> bool" where
  "relaying (UdpLookup a pkt addr) \<longleftrightarrow> True"
| "relaying (UdpBind a pkt addr) \<longleftrightarrow> True"
| "relaying (UdpInsert a tx pkt addr) \<longleftrightarrow> True"
| "relaying (UdpPush a tx pkt addr) \<longleftrightarrow> True"
| "relaying (Connecting send recv addr) \<longleftrightarrow> True"
| "relaying (Received a pkt addr) \<longleftrightarrow> True"
| "relaying t \<longleftrightarrow> False"

lemma relaying_history: "task_ok c t \<Longrightarrow> relaying t \<Longrightarrow> history c \<noteq> []"
  by (cases t) (auto simp: from_client_def)

text \<open>
  C1: The authentication gate, for every interleaving of a connection's tasks. As long as no
  token of the server's set was received, the connection does nothing for the client: no task
  has gone past its header, no UDP mode is chosen, no UDP session exists, nothing was relayed.
\<close>

theorem auth_gate:
  assumes "server_env L content sent" and "reachable L T n s"
    and "\<forall>d \<in> T. Authenticated d \<notin> set (history (shared s))"
  shows "history (shared s) = [] \<and> \<not> is_authenticated (auth (shared s)) \<and>
    udp_packet_from (shared s) = None \<and> session_tasks (udp_sessions (shared s)) = Map.empty \<and>
    recv_pkts s = [] \<and> (\<forall>i t. tasks s i = Some t \<longrightarrow> \<not> relaying t)"
proof -
  have ok: "server_ok T s" using server_env.reachable_ok [OF assms(1,2)] .
  then have conn: "conn_ok T (shared s)" by (simp add: server_ok_def)
  have no: "\<not> authed_in T (history (shared s))" using assms(3) by (auto simp: authed_in_def)
  then have h: "history (shared s) = []"
    using conn gated_authed by (fastforce simp: conn_ok_def neq_Nil_conv)
  have "session_tasks (udp_sessions (shared s)) tx = None" for tx
    using conn h by (cases "session_tasks (udp_sessions (shared s)) tx")
      (auto simp: conn_ok_def queues_ok_def associated_def from_client_def)
  moreover have "recv_pkts s = []" using ok h by (cases "recv_pkts s") (auto simp: server_ok_def)
  moreover have "\<not> relaying t" if "tasks s i = Some t" for i t
    using that ok h relaying_history [of "shared s" t] by (auto simp: server_ok_def tasks_ok_def)
  ultimately show ?thesis using conn no h by (auto simp: conn_ok_def)
qed

theorem auth_gate_witness:
  "tasks demo_waiting 1 \<noteq> None \<and> history (shared demo_waiting) = [] \<and>
   session_tasks (udp_sessions (shared demo_waiting)) = Map.empty"
proof -
  have "history (shared demo_waiting) = []" by code_simp
  with auth_gate [OF mem.server_env_axioms demo_waiting_reachable] demo_waiting_task show ?thesis
    by simp
qed

text \<open>
  Nothing happens on a connection without its cause. Every relayed packet, association end
  and TCP connect comes after the acceptance of one of the server's tokens; a UDP session sends
  out only packets the client sent for that session's associate id, to the address the client
  gave; and what goes back to the client under an associate id was received by a session of
  that id.
\<close>

lemma events_justified:
  assumes "server_env L content sent" and "reachable L T n s"
    and "history (shared s) = later @ e # earlier"
  shows "justified T e earlier \<and> ((\<forall>d. e \<noteq> Authenticated d) \<longrightarrow> (\<exists>d \<in> T. Authenticated d \<in> set earlier))"
proof -
  have "gated T (history (shared s))"
    using server_env.reachable_ok [OF assms(1,2)] by (simp add: server_ok_def conn_ok_def)
  then have j: "justified T e earlier" and g: "gated T earlier"
    using assms(3) gated_split by metis+
  have "authed_in T earlier" if "\<forall>d. e \<noteq> Authenticated d"
    using that j gated_authed [OF g] by (cases e) (auto simp: associated_def from_client_def)
  with j show ?thesis by (auto simp: authed_in_def)
qed

lemma events_justified_witness:
  "justified {demo_token} (PacketTo Datagram 5 [1, 2, 3] demo_target) (tl (history (shared demo_end))) \<and>
   (\<exists>d \<in> {demo_token}. Authenticated d \<in> set (tl (history (shared demo_end))))"
  using events_justified [OF mem.server_env_axioms demo_end_reachable,
    of "[]" "PacketTo Datagram 5 [1, 2, 3] demo_target" "tl (history (shared demo_end))"]
  by (simp add: demo_end_history)

text \<open>
  C22: The UDP relay mode is chosen once. After the first relayed packet, and in every later
  state, all packets of the connection travel the same way, towards the server and back: all on
  unidirectional streams or all in datagrams.
\<close>

theorem udp_mode_fixed:
  assumes "server_env L content sent" and "reachable L T n s"
    and "e \<in> set (history (shared s))" and "event_source e = Some k" and "run L ls s = Some s'"
  shows "udp_packet_from (shared s') = Some k \<and>
    (\<forall>e' \<in> set (history (shared s')). event_source e' = None \<or> event_source e' = Some k)"
proof -
  note ok = server_env.reachable_ok [OF assms(1,2)]
  have "udp_packet_from (shared s) = Some k"
    using ok assms(3,4) by (auto simp: server_ok_def conn_ok_def)
  with server_env.good_run [OF assms(1) ok assms(5)]
  have k: "udp_packet_from (shared s') = Some k" and ok': "conn_ok T (shared s')"
    by (auto simp: good_step_def conn_le_def server_ok_def)
  have "event_source e' = None \<or> event_source e' = Some k" if "e' \<in> set (history (shared s'))" for e'
    using ok' k that by (cases "event_source e'") (auto simp: conn_ok_def)
  with k show ?thesis by blast
qed

theorem udp_mode_fixed_witness:
  "udp_packet_from (shared demo_end) = Some Datagram \<and>
   event_source (PacketTo Datagram 5 [1, 2, 3] demo_target) = Some Datagram"
  using udp_mode_fixed [OF mem.server_env_axioms demo_end_reachable,
    of "PacketFrom Datagram 5 [7, 8] demo_target" Datagram "[]" demo_end]
  by (simp add: demo_end_history)

text \<open>
  C12: No task of a connection panics, whatever the client sends and however the tasks
  interleave: the \<open>unreachable!()\<close> of \<open>process_uni_stream\<close>, the \<open>unwrap\<close> of the mode in
  \<open>process_received_udp_packet\<close>, the slice of the datagram after its header and the \<open>unwrap\<close>s of
  the header parser are never reached with a bad value.
\<close>

theorem no_task_panics:
  assumes "server_env L content sent" and "reachable L T n s"
  shows "tasks s i \<noteq> Some (Finished Panic)"
proof
  assume "tasks s i = Some (Finished Panic)"
  moreover have "tasks_ok s" using server_env.reachable_ok [OF assms] by (simp add: server_ok_def)
  ultimately show False by (fastforce simp: tasks_ok_def)
qed

theorem no_task_panics_witness:
  "tasks demo_end 1 \<noteq> Some (Finished Panic) \<and> tasks demo_end 2 \<noteq> Some (Finished Panic)"
  using no_task_panics [OF mem.server_env_axioms demo_end_reachable] by blast

text \<open>
  C23: UDP sessions are isolated. The session an associate id leads to was started for that id;
  what waits in any session's queue was sent by the client for that session's id; the queue and
  the channel back to the connection hold at most one packet, as the channels' capacity says.
\<close>

theorem sessions_isolated:
  assumes "server_env L content sent" and "reachable L T n s"
  shows "(\<forall>a tx t. session_map (udp_sessions (shared s)) a = Some tx \<and>
        session_tasks (udp_sessions (shared s)) tx = Some t \<longrightarrow> task_assoc_id t = a) \<and>
    (\<forall>tx t. session_tasks (udp_sessions (shared s)) tx = Some t \<longrightarrow>
        length (send_queue t) \<le> 1 \<and>
        (\<forall>(pkt, addr) \<in> set (send_queue t). from_client (history (shared s)) (task_assoc_id t) pkt addr)) \<and>
    length (recv_pkts s) \<le> 1"
proof -
  have "server_ok T s" using server_env.reachable_ok [OF assms] .
  then have "sessions_ok (udp_sessions (shared s))" "length (recv_pkts s) \<le> 1"
    "queues_ok (history (shared s)) (udp_sessions (shared s))"
    by (auto simp: server_ok_def conn_ok_def)
  then show ?thesis by (auto simp: sessions_ok_def handle_for_def queues_ok_def)
qed

theorem sessions_isolated_witness:
  "session_map (udp_sessions (shared demo_end)) 5 = Some 0 \<and>
   map_option task_assoc_id (session_tasks (udp_sessions (shared demo_end)) 0) = Some 5"
proof -
  have "session_map (udp_sessions (shared demo_end)) 5 = Some 0"
    and "session_tasks (udp_sessions (shared demo_end)) 0 \<noteq> None"
    by code_simp+
  with sessions_isolated [OF mem.server_env_axioms demo_end_reachable] show ?thesis by auto
qed

text \<open>
  What a connection never takes back. Along every run the token set stays, an authenticated
  connection stays authenticated, a closed one closed, a chosen UDP mode chosen, and what the
  connection did and the close codes it gave to quinn are only added to.
\<close>

lemma run_monotone:
  assumes "server_env L content sent" and "reachable L T n s" and "run L ls s = Some s'"
  shows "conn_le (shared s) (shared s')"
  using server_env.good_run [OF assms(1) server_env.reachable_ok [OF assms(1,2)] assms(3)]
  by (simp add: good_step_def)

end
