(* ===== verification/Server_Wakeup.thy ===== *)
theory Server_Wakeup
  imports Server_Safety
begin

text \<open>
  Who wakes whom on a server connection. A task that waits for the authentication is in the
  broadcast list whenever it is parked, so a valid token lets every parked task run again. The
  other direction fails in two ways, which the last section shows: closing the connection does
  not wake the list, and a task that registers after the wake is not in it.
\<close>

section \<open>Parked tasks are registered\<close>

fun parked :: "('rs, 'ss) task \<Rightarrow> bool" where
  "parked (UniAwait w cmd stream) \<longleftrightarrow> w = Parked"
| "parked (BiAwait w cmd send recv) \<longleftrightarrow> w = Parked"
| "parked (DatagramAwait w cmd n dgram) \<longleftrightarrow> w = Parked"
| "parked t \<longleftrightarrow> False"

definition wakers :: "conn \<Rightarrow> nat set" where
  "wakers c = set (broadcast (auth c))"

definition registered :: "('rs, 'ss) server \<Rightarrow> bool" where
  "registered s \<longleftrightarrow> (\<forall>i t. tasks s i = Some t \<longrightarrow> parked t \<longrightarrow> i \<in> wakers (shared s))"

text \<open>A turn of task \<open>i\<close> drops no waker without waking it, and parks only with a waker.\<close>

definition fair_turn :: "nat \<Rightarrow> conn \<Rightarrow> ('rs, 'ss) turn \<Rightarrow> bool" where
  "fair_turn i c r \<longleftrightarrow>
     (case r of (t, woken, c') \<Rightarrow>
        wakers c \<subseteq> wakers c' \<union> set woken \<and> (parked t \<longrightarrow> i \<in> wakers c'))"

lemma parked_unpark [simp]: "\<not> parked (unpark t)"
  by (cases t rule: unpark.cases) auto

lemma wakers_simps [simp]:
  "wakers (log_event e c) = wakers c"
  "wakers (controller_close err c) = wakers c"
  "wakers (spawned_result t c) = wakers c"
  "wakers (c\<lparr>udp_packet_from := k\<rparr>) = wakers c"
  "wakers (c\<lparr>udp_sessions := m\<rparr>) = wakers c"
  by (auto simp: wakers_def log_event_def controller_close_def spawned_result_def
      split: task.split outcome.split)

lemma fair_uni_stream: "fair_turn i c (process_uni_stream L stream c)"
  by (auto simp: fair_turn_def process_uni_stream_def wake_def set_authenticated_def wakers_def
      controller_close_def log_event_def Let_def split: outcome.split Command.split)

lemma fair_uni_stream_authed: "fair_turn i c (process_uni_stream_authed L b cmd stream c)"
  by (auto simp: fair_turn_def process_uni_stream_authed_def Let_def
      split: outcome.split Command.split prod.split)

lemma fair_bi_stream: "fair_turn i c (process_bi_stream L send recv c)"
  by (auto simp: fair_turn_def process_bi_stream_def split: outcome.split)

lemma fair_bi_stream_authed: "fair_turn i c (process_bi_stream_authed b cmd send recv c)"
  by (auto simp: fair_turn_def process_bi_stream_authed_def split: Command.split)

lemma fair_datagram: "fair_turn i c (process_datagram L dgram c)"
  by (auto simp: fair_turn_def process_datagram_def Let_def split: outcome.split)

lemma fair_datagram_authed: "fair_turn i c (process_datagram_authed L b cmd n dgram c)"
  by (cases "datagram (exchange L) (udp_packet_from c)")
    (auto simp: fair_turn_def process_datagram_authed_def Let_def slice_from_def split: Command.split)

lemma fair_await:
  assumes "await_authenticated i w waiting resume c = Some r"
    and "\<And>b. fair_turn i c (resume b c)" and "\<And>w. parked (waiting w) \<longleftrightarrow> w = Parked"
  shows "fair_turn i c r"
proof (cases w)
  case Polling
  with assms(1) assms(2) [of "case poll_flags (auth c) of Ready b \<Rightarrow> b"] show ?thesis
    by (cases "poll_flags (auth c)") (auto simp: await_authenticated_def fair_turn_def assms(3))
next
  case Registering
  with assms show ?thesis
    by (auto simp: await_authenticated_def fair_turn_def wakers_def poll_register_def)
qed (use assms in \<open>simp add: await_authenticated_def\<close>)

lemma fair_task_turn: "task_turn L i t c = Some r \<Longrightarrow> fair_turn i c r"
proof (induction L i t c rule: task_turn.induct)
  case (1 L i stream c)
  then show ?case using fair_uni_stream by auto
next
  case (2 L i w cmd stream c)
  show ?case by (rule fair_await [OF 2 [simplified]]) (simp_all add: fair_uni_stream_authed)
next
  case (3 L i send recv c)
  then show ?case using fair_bi_stream by auto
next
  case (4 L i w cmd send recv c)
  show ?case by (rule fair_await [OF 4 [simplified]]) (simp_all add: fair_bi_stream_authed)
next
  case (5 L i dgram c)
  then show ?case using fair_datagram by auto
next
  case (6 L i w cmd n dgram c)
  show ?case by (rule fair_await [OF 6 [simplified]]) (simp_all add: fair_datagram_authed)
qed (auto simp: fair_turn_def split: option.splits if_splits)

lemma fair_bind_turn: "bind_turn bound t c = Some r \<Longrightarrow> fair_turn i c r"
  by (auto simp: fair_turn_def bind_turn_def split: task.splits outcome.splits)

lemma fair_relay_turn: "relay_turn L lookup tcp copy t c = Some r \<Longrightarrow> fair_turn i c r"
  by (auto simp: fair_turn_def relay_turn_def split: task.splits outcome.splits)

lemma fair_received: "fair_turn i c (process_received_udp_packet L opened send_dg a pkt addr c)"
proof (cases "udp_packet_from c")
  case (Some k)
  then show ?thesis
    by (cases k) (auto simp: fair_turn_def process_received_udp_packet_def UdpPacketFrom_check_def
        split: outcome.split)
qed (simp add: fair_turn_def process_received_udp_packet_def UdpPacketFrom_check_def)

lemma fair_send_back_turn: "send_back_turn L opened send_dg t c = Some r \<Longrightarrow> fair_turn i c r"
  by (cases t) (auto simp: send_back_turn_def fair_received)

lemma registered_end_turn:
  assumes "registered s" and "fair_turn i (shared s) r"
  shows "registered (end_turn i r s)"
  using assms
  by (auto simp: registered_def end_turn_def fair_turn_def wake_tasks_def split: prod.splits if_splits)

lemma registered_take_turn:
  assumes "registered s" and "take_turn i turn s = Some s'"
    and "\<And>t r. turn t (shared s) = Some r \<Longrightarrow> fair_turn i (shared s) r"
  shows "registered s'"
  using assms registered_end_turn [OF assms(1)] by (auto simp: take_turn_def split: option.splits)

lemma registered_simps [simp]:
  "registered (s\<lparr>timer_waiting := b\<rparr>) \<longleftrightarrow> registered s"
  "registered (s\<lparr>phase := p\<rparr>) \<longleftrightarrow> registered s"
  "registered (s\<lparr>recv_pkts := q\<rparr>) \<longleftrightarrow> registered s"
  "registered (log_server e s) \<longleftrightarrow> registered s"
  "registered (set_sessions m s) \<longleftrightarrow> registered s"
  "registered (session_returns tx s) \<longleftrightarrow> registered s"
  by (simp_all add: registered_def log_server_def set_sessions_def session_returns_def)

lemma registered_spawn: "registered s \<Longrightarrow> \<not> parked t \<Longrightarrow> registered (spawn t s)"
  by (auto simp: registered_def spawn_def)

lemma registered_wakers:
  assumes "registered s" and "wakers (shared s) \<subseteq> wakers c \<union> set woken"
  shows "registered (s\<lparr>shared := c, tasks := wake_tasks woken (tasks s)\<rparr>)"
  using assms by (auto simp: registered_def wake_tasks_def split: if_splits)

lemma registered_listen:
  "registered s \<Longrightarrow> listen_uni_streams stream s = Some s' \<Longrightarrow> registered s'"
  "registered s \<Longrightarrow> listen_bi_streams send recv s = Some s' \<Longrightarrow> registered s'"
  "registered s \<Longrightarrow> listen_datagrams dgram s = Some s' \<Longrightarrow> registered s'"
  "registered s \<Longrightarrow> listen_received_udp_packet s = Some s' \<Longrightarrow> registered s'"
  by (auto simp: listen_uni_streams_def listen_bi_streams_def listen_datagrams_def
      listen_received_udp_packet_def intro!: registered_spawn split: if_splits list.splits)

lemma registered_timer:
  assumes s: "registered s"
  shows "timer_poll s = Some s' \<Longrightarrow> registered s'" and "timer_elapsed s = Some s' \<Longrightarrow> registered s'"
    and "listener_fails s = Some s' \<Longrightarrow> registered s'" and "handle_closed s = Some s' \<Longrightarrow> registered s'"
proof -
  show "registered s'" if "timer_poll s = Some s'"
    using that s
    by (auto simp: timer_poll_def registered_def wakers_def poll_register_def
        split: if_splits poll.splits)
  show "registered s'" if "timer_elapsed s = Some s'"
    using that registered_wakers [OF s, of "(controller_close AuthenticationTimeout (shared s))
      \<lparr>auth := (auth (shared s))\<lparr>broadcast := []\<rparr>\<rparr>" "broadcast (auth (shared s))"]
    by (auto simp: timer_elapsed_def wake_def wakers_def controller_close_def Let_def split: if_splits)
  show "registered s'" if "listener_fails s = Some s'"
    using that s by (auto simp: listener_fails_def split: if_splits)
  show "registered s'" if "handle_closed s = Some s'"
  proof -
    obtain cl woken where c: "set_closed (is_connection_closed (auth (shared s))) = (cl, woken)"
      by fastforce
    let ?c = "(shared s)\<lparr>auth := (auth (shared s))\<lparr>is_connection_closed := cl\<rparr>\<rparr>"
    show ?thesis
      using that registered_wakers [OF s, of ?c woken]
      by (auto simp: handle_closed_def c wakers_def split: if_splits)
  qed
qed

lemma registered_session:
  "registered s \<Longrightarrow> session_send tx answer s = Some s' \<Longrightarrow> registered s'"
  "registered s \<Longrightarrow> session_receive tx received s = Some s' \<Longrightarrow> registered s'"
  by (auto simp: session_send_def session_receive_def split: option.splits if_splits prod.splits)

lemma registered_step:
  assumes s: "registered s" and l: "step L l s = Some s'"
  shows "registered s'"
proof (cases l)
  case (Run i)
  with l show ?thesis by (auto intro: registered_take_turn [OF s] fair_task_turn)
next
  case (Bound i bound)
  with l show ?thesis by (auto intro: registered_take_turn [OF s] fair_bind_turn)
next
  case (Relay i lookup tcp copy)
  with l show ?thesis by (auto intro: registered_take_turn [OF s] fair_relay_turn)
next
  case (SendBack i opened send_dg)
  with l show ?thesis by (auto intro: registered_take_turn [OF s] fair_send_back_turn)
qed (use l s in \<open>auto intro: registered_listen registered_timer registered_session
  split: option.splits if_splits\<close>)

lemma reachable_registered: "reachable L T n s \<Longrightarrow> registered s"
proof (induction rule: reachable.induct)
  case init
  show ?case by (simp add: registered_def handle_init_def)
qed (rule registered_step)

section \<open>A token that arrives while a request waits\<close>

definition demo_token_arrives :: "(bytes, bytes) server" where
  "demo_token_arrives = spawn (UniRead (encode_Command (Authenticate demo_token))) demo_waiting"

lemma demo_token_reachable: "reachable mem_lib {demo_token} 4 demo_token_arrives"
proof -
  have "phase demo_waiting = Listening" by code_simp
  then have "step mem_lib (AcceptUni (encode_Command (Authenticate demo_token))) demo_waiting
      = Some demo_token_arrives"
    by (simp add: listen_uni_streams_def demo_token_arrives_def)
  with demo_waiting_reachable show ?thesis by (rule reachable.step)
qed

lemma demo_token_tasks:
  "tasks demo_token_arrives 1 = Some (BiAwait Parked (Connect demo_target) [] [])"
  "tasks demo_token_arrives 2 = Some (UniRead (encode_Command (Authenticate demo_token)))"
  by code_simp+

text \<open>The same on a server that has no token.\<close>

definition demo_token_other :: "(bytes, bytes) server" where
  "demo_token_other =
     (case run mem_lib (demo_connect @ [AcceptUni (encode_Command (Authenticate demo_token))])
             (handle_init {} 4) of None \<Rightarrow> demo_start | Some s \<Rightarrow> s)"

lemma demo_token_other_reachable: "reachable mem_lib {} 4 demo_token_other"
proof -
  have "run mem_lib (demo_connect @ [AcceptUni (encode_Command (Authenticate demo_token))])
      (handle_init {} 4) \<noteq> None"
    by code_simp
  then have "run mem_lib (demo_connect @ [AcceptUni (encode_Command (Authenticate demo_token))])
      (handle_init {} 4) = Some demo_token_other"
    by (auto simp: demo_token_other_def)
  then show ?thesis using run_reachable reachable.init by metis
qed

lemma demo_token_other_task:
  "tasks demo_token_other 2 = Some (UniRead (encode_Command (Authenticate demo_token)))"
  by code_simp

section \<open>Properties\<close>

lemma step_Run:
  "tasks s i = Some t \<Longrightarrow> task_turn L i t (shared s) = Some r \<Longrightarrow> step L (Run i) s = Some (end_turn i r s)"
  by (simp add: take_turn_def)

lemma end_turn_wakes:
  assumes "registered s" and "wakers (shared s) \<subseteq> set woken" and "\<not> parked t"
  shows "tasks (end_turn i (t, woken, c) s) j = Some t' \<Longrightarrow> \<not> parked t'"
  using assms by (auto simp: end_turn_def wake_tasks_def registered_def split: if_splits)

context server_env
begin

lemma read_authenticate:
  assumes "content stream = encode_Command (Authenticate d) @ rest" and "length d = 32"
  shows "\<exists>stream'. Command_read_from (recv_read L) (order L) stream = Ok (Authenticate d, stream')"
  using wire_reader.read_Command_encode [OF recv_wire assms(1)] assms(2) by (auto simp: yields_def)

end

text \<open>
  C20: A valid token lets every waiting request go on. When the task that reads an \<open>Authenticate\<close>
  with one of the server's tokens takes its turn, it ends well, the connection is authenticated,
  and no task of the connection is left parked.
\<close>

theorem authenticate_wakes_all:
  assumes env: "server_env L content sent" and "reachable L T n s"
    and i: "tasks s i = Some (UniRead stream)"
    and "content stream = encode_Command (Authenticate d) @ rest" and "length d = 32" and "d \<in> T"
  shows "\<exists>s'. step L (Run i) s = Some s' \<and> tasks s' i = Some (Finished (Ok ())) \<and>
    is_authenticated (auth (shared s')) \<and> history (shared s') = Authenticated d # history (shared s) \<and>
    (\<forall>j t. tasks s' j = Some t \<longrightarrow> \<not> parked t)"
proof -
  have T: "token (shared s) = T"
    using server_env.reachable_ok [OF assms(1,2)] by (simp add: server_ok_def conn_ok_def)
  obtain stream' where "Command_read_from (recv_read L) (order L) stream = Ok (Authenticate d, stream')"
    using server_env.read_authenticate [OF env assms(4,5)] by blast
  then have "task_turn L i (UniRead stream) (shared s) = Some
    (Finished (Ok ()), broadcast (auth (shared s)), log_event (Authenticated d)
      ((shared s)\<lparr>auth := (auth (shared s))\<lparr>is_authenticated := True, broadcast := []\<rparr>\<rparr>))" (is "_ = Some ?r")
    using assms(6) T by (simp add: process_uni_stream_def wake_def set_authenticated_def)
  from step_Run [OF i this] have "step L (Run i) s = Some (end_turn i ?r s)" .
  moreover have "\<not> parked t" if "tasks (end_turn i ?r s) j = Some t" for j t
    by (rule end_turn_wakes [OF reachable_registered [OF assms(2)] _ _ that]) (simp_all add: wakers_def)
  moreover have "tasks (end_turn i ?r s) i = Some (Finished (Ok ()))"
    by (simp add: end_turn_def wake_tasks_def)
  moreover have "is_authenticated (auth (shared (end_turn i ?r s)))"
    "history (shared (end_turn i ?r s)) = Authenticated d # history (shared s)"
    by (simp_all add: end_turn_def spawned_result_def log_event_def)
  ultimately show ?thesis by blast
qed

theorem authenticate_wakes_all_witness:
  "\<exists>s'. step mem_lib (Run 2) demo_token_arrives = Some s' \<and> tasks s' 2 = Some (Finished (Ok ())) \<and>
    is_authenticated (auth (shared s')) \<and> (\<nexists>j t. tasks s' j = Some t \<and> parked t)"
  using authenticate_wakes_all [OF mem.server_env_axioms demo_token_reachable demo_token_tasks(2),
    of demo_token "[]"]
  by (auto simp: demo_token_def)

text \<open>
  A wrong token ends the connection. The task that reads an \<open>Authenticate\<close> with another
  token fails, the connection is closed with the code for a failed authentication (by the task
  and once more by its listener), and it is not authenticated by it.
\<close>

lemma authenticate_refused:
  assumes env: "server_env L content sent" and "reachable L T n s"
    and i: "tasks s i = Some (UniRead stream)"
    and "content stream = encode_Command (Authenticate d) @ rest" and "length d = 32" and "d \<notin> T"
  shows "\<exists>s'. step L (Run i) s = Some s' \<and>
    tasks s' i = Some (Finished (Err AuthenticationFailed)) \<and>
    closes (shared s') = closes (shared s) @
      [(0xfffffff1, ''authentication failed''), (0xfffffff1, ''authentication failed'')] \<and>
    is_authenticated (auth (shared s')) = is_authenticated (auth (shared s)) \<and>
    history (shared s') = history (shared s)"
proof -
  have T: "token (shared s) = T"
    using server_env.reachable_ok [OF assms(1,2)] by (simp add: server_ok_def conn_ok_def)
  obtain stream' where "Command_read_from (recv_read L) (order L) stream = Ok (Authenticate d, stream')"
    using server_env.read_authenticate [OF env assms(4,5)] by blast
  then have "task_turn L i (UniRead stream) (shared s) = Some
    (Finished (Err AuthenticationFailed), broadcast (auth (shared s)),
      (controller_close AuthenticationFailed (shared s))\<lparr>auth := (auth (shared s))\<lparr>broadcast := []\<rparr>\<rparr>)"
    using assms(6) T by (simp add: process_uni_stream_def wake_def controller_close_def Let_def)
  from step_Run [OF i this] show ?thesis
    by (auto simp: end_turn_def wake_tasks_def spawned_result_def controller_close_def tuic_const)
qed

text \<open>
  A request that came before the token is served after it. If a \<open>Connect\<close> waits on an open
  connection and the token arrives, then after one turn of the task with the token and one of
  the waiting task the TCP relay to the requested address has started.
\<close>

lemma early_connect_served:
  assumes "server_env L content sent" and "reachable L T n s"
    and "tasks s i = Some (UniRead stream)"
    and "content stream = encode_Command (Authenticate d) @ rest" and "length d = 32" and "d \<in> T"
    and "tasks s j = Some (BiAwait Parked (Connect addr) send recv)"
    and "\<not> is_closed (is_connection_closed (auth (shared s)))"
  shows "\<exists>s'. run L [Run i, Run j] s = Some s' \<and> tasks s' j = Some (Connecting send recv addr) \<and>
    history (shared s') = ConnectTo addr # Authenticated d # history (shared s)"
proof -
  have T: "token (shared s) = T"
    using server_env.reachable_ok [OF assms(1,2)] by (simp add: server_ok_def conn_ok_def)
  have j: "j \<in> set (broadcast (auth (shared s)))"
    using reachable_registered [OF assms(2)] assms(7) by (fastforce simp: registered_def wakers_def)
  have "i \<noteq> j" using assms(3,7) by auto
  obtain stream' where "Command_read_from (recv_read L) (order L) stream = Ok (Authenticate d, stream')"
    using server_env.read_authenticate [OF assms(1,4,5)] by blast
  then show ?thesis
    using assms(3,6,7,8) T j \<open>i \<noteq> j\<close>
    by (simp add: take_turn_def process_uni_stream_def wake_def set_authenticated_def end_turn_def
        spawned_result_def wake_tasks_def await_authenticated_def poll_flags_def check_def log_event_def
        process_bi_stream_authed_def)
qed

lemma early_connect_served_witness:
  "\<exists>s'. run mem_lib [Run 2, Run 1] demo_token_arrives = Some s' \<and>
    tasks s' 1 = Some (Connecting [] [] demo_target)"
proof -
  have "\<not> is_closed (is_connection_closed (auth (shared demo_token_arrives)))" by code_simp
  with early_connect_served [OF mem.server_env_axioms demo_token_reachable demo_token_tasks(2),
    of demo_token "[]" 1] demo_token_tasks(1)
  show ?thesis by (auto simp: demo_token_def)
qed

section \<open>Where the wake-ups are missing\<close>

text \<open>
  On a closed connection only a task that still reads its header could wake others, with a
  token; every other step wakes nobody and starts no task.
\<close>

definition no_reader :: "('rs, 'ss) server \<Rightarrow> bool" where
  "no_reader s \<longleftrightarrow> (\<forall>i stream. tasks s i \<noteq> Some (UniRead stream))"

definition silent_turn :: "('rs, 'ss) turn \<Rightarrow> bool" where
  "silent_turn r \<longleftrightarrow> (case r of (t, woken, c) \<Rightarrow> woken = [] \<and> (\<forall>stream. t \<noteq> UniRead stream))"

lemma silent_authed:
  "silent_turn (process_uni_stream_authed L b cmd stream c)"
  "silent_turn (process_bi_stream L send recv c)"
  "silent_turn (process_bi_stream_authed b cmd send recv c)"
  "silent_turn (process_datagram L dgram c)"
  by (auto simp: silent_turn_def process_uni_stream_authed_def process_bi_stream_def
      process_bi_stream_authed_def process_datagram_def Let_def
      split: Command.split outcome.split prod.split)

lemma silent_datagram_authed: "silent_turn (process_datagram_authed L b cmd n dgram c)"
  by (cases "datagram (exchange L) (udp_packet_from c)")
    (auto simp: silent_turn_def process_datagram_authed_def Let_def slice_from_def split: Command.split)

lemma silent_await:
  assumes "await_authenticated i w waiting resume c = Some r"
    and "\<And>b. silent_turn (resume b c)" and "\<And>w stream. waiting w \<noteq> UniRead stream"
  shows "silent_turn r"
  using assms(1) assms(2) [of "case poll_flags (auth c) of Ready b \<Rightarrow> b"] assms(3)
  by (cases w; cases "poll_flags (auth c)") (auto simp: await_authenticated_def silent_turn_def)

lemma silent_task_turn: "task_turn L i t c = Some r \<Longrightarrow> \<forall>stream. t \<noteq> UniRead stream \<Longrightarrow> silent_turn r"
proof (induction L i t c rule: task_turn.induct)
  case (2 L i w cmd stream c)
  show ?case by (rule silent_await [OF 2(1) [simplified]]) (simp_all add: silent_authed)
next
  case (4 L i w cmd send recv c)
  show ?case by (rule silent_await [OF 4(1) [simplified]]) (simp_all add: silent_authed)
next
  case (6 L i w cmd n dgram c)
  show ?case by (rule silent_await [OF 6(1) [simplified]]) (simp_all add: silent_datagram_authed)
next
  case (3 L i send recv c)
  then show ?case using silent_authed(2) by auto
next
  case (5 L i dgram c)
  then show ?case using silent_authed(4) by auto
qed (auto simp: silent_turn_def split: option.splits if_splits)

lemma silent_other_turns:
  "bind_turn bound t c = Some r \<Longrightarrow> silent_turn r"
  "relay_turn L lookup tcp copy t c = Some r \<Longrightarrow> silent_turn r"
  by (auto simp: silent_turn_def bind_turn_def relay_turn_def split: task.splits outcome.splits)

lemma silent_send_back_turn: "send_back_turn L opened send_dg t c = Some r \<Longrightarrow> silent_turn r"
  by (cases t; cases "udp_packet_from c"; cases "the (udp_packet_from c)")
    (auto simp: silent_turn_def send_back_turn_def process_received_udp_packet_def
      UdpPacketFrom_check_def split: outcome.splits)

definition closed_with :: "nat \<Rightarrow> ('rs, 'ss) task \<Rightarrow> ('rs, 'ss) server \<Rightarrow> bool" where
  "closed_with i t s \<longleftrightarrow> phase s = Closed \<and> no_reader s \<and> tasks s i = Some t"

lemma closed_with_turn:
  assumes "closed_with i t s" and "parked t" and "take_turn j turn s = Some s'" and "turn t (shared s) = None"
    and "\<And>u r. tasks s j = Some u \<Longrightarrow> turn u (shared s) = Some r \<Longrightarrow> silent_turn r"
  shows "closed_with i t s'"
proof -
  from assms(3) obtain u r where u: "tasks s j = Some u" "turn u (shared s) = Some r"
    and s': "s' = end_turn j r s" by (auto simp: take_turn_def split: option.splits)
  with assms(1,4) have "i \<noteq> j" by (auto simp: closed_with_def)
  with assms(1) assms(5) [OF u] show ?thesis
    by (auto simp: s' closed_with_def no_reader_def end_turn_def silent_turn_def wake_tasks_def
        split: if_splits)
qed

lemma parked_turns [simp]:
  "parked t \<Longrightarrow> task_turn L i t c = None"
  "parked t \<Longrightarrow> bind_turn bound t c = None"
  "parked t \<Longrightarrow> relay_turn L lookup tcp copy t c = None"
  "parked t \<Longrightarrow> send_back_turn L opened send_dg t c = None"
  by (cases t; simp add: await_authenticated_def bind_turn_def relay_turn_def send_back_turn_def)+

lemma closed_with_step:
  assumes c: "closed_with i t s" and p: "parked t" and l: "step L l s = Some s'"
  shows "closed_with i t s'"
proof (cases l)
  case (Run j)
  with c l show ?thesis
    by (auto intro!: closed_with_turn [OF c p] silent_task_turn simp: p)
      (auto simp: closed_with_def no_reader_def)
next
  case (Bound j bound)
  with l show ?thesis by (auto intro!: closed_with_turn [OF c p] intro: silent_other_turns simp: p)
next
  case (Relay j lookup tcp copy)
  with l show ?thesis by (auto intro!: closed_with_turn [OF c p] intro: silent_other_turns simp: p)
next
  case (SendBack j opened send_dg)
  with l show ?thesis by (auto intro!: closed_with_turn [OF c p] intro: silent_send_back_turn simp: p)
qed (use c l in \<open>auto simp: closed_with_def no_reader_def listen_uni_streams_def listen_bi_streams_def
  listen_datagrams_def listen_received_udp_packet_def timer_poll_def timer_elapsed_def
  listener_fails_def handle_closed_def session_send_def session_receive_def session_returns_def
  set_sessions_def log_server_def split: option.splits if_splits list.splits prod.splits\<close>)

lemma closed_with_run: "closed_with i t s \<Longrightarrow> parked t \<Longrightarrow> run L ls s = Some s' \<Longrightarrow> closed_with i t s'"
  by (induction ls arbitrary: s) (auto split: option.splits dest: closed_with_step)


definition demo_closed :: "(bytes, bytes) server" where
  "demo_closed =
     (case run mem_lib [ListenerFails, SetClosed] demo_waiting of None \<Rightarrow> demo_start | Some s \<Rightarrow> s)"

lemma demo_closed_run: "run mem_lib [ListenerFails, SetClosed] demo_waiting = Some demo_closed"
proof -
  have "run mem_lib [ListenerFails, SetClosed] demo_waiting \<noteq> None" by code_simp
  then show ?thesis by (auto simp: demo_closed_def)
qed

lemma demo_closed_task: "tasks demo_closed 1 = Some (BiAwait Parked (Connect demo_target) [] [])"
  by code_simp

lemma demo_closed_only: "tasks demo_closed i = Some t \<Longrightarrow> i = 1"
proof -
  have "server_ok {demo_token} demo_closed"
    using mem.reachable_ok run_reachable [OF demo_closed_run demo_waiting_reachable] by blast
  moreover have "next_task demo_closed = 2" by code_simp
  ultimately show "i = 1" if "tasks demo_closed i = Some t"
    using that by (fastforce simp: server_ok_def tasks_ok_def handle_waker_def)
qed



end
