(* ===== verification/Server_Progress.thy ===== *)
theory Server_Progress
  imports Server_Safety
begin

text \<open>
  How long the tasks of a server connection run: once the authentication is decided, one way or
  the other, a task takes a bounded number of turns and, unless it waits to be woken or for room
  in a channel, can take the next one. And what becomes of an associate id whose session has
  returned: the table keeps the dead session, and packets for the id are lost.
\<close>

section \<open>Turns\<close>

fun turns_left :: "('rs, 'ss) task \<Rightarrow> nat" where
  "turns_left (UniRead stream) = 6"
| "turns_left (BiRead send recv) = 6"
| "turns_left (DatagramRead dgram) = 6"
| "turns_left (UniAwait w cmd stream) = (if w = Registering then 6 else 5)"
| "turns_left (BiAwait w cmd send recv) = (if w = Registering then 6 else 5)"
| "turns_left (DatagramAwait w cmd n dgram) = (if w = Registering then 6 else 5)"
| "turns_left (UdpLookup a pkt addr) = 4"
| "turns_left (UdpBind a pkt addr) = 3"
| "turns_left (UdpInsert a tx pkt addr) = 2"
| "turns_left (UdpPush a tx pkt addr) = 1"
| "turns_left (Connecting send recv addr) = 1"
| "turns_left (Received a pkt addr) = 1"
| "turns_left (Finished r) = 0"

fun turn_of :: "nat \<Rightarrow> ('rs, 'ss) label \<Rightarrow> bool" where
  "turn_of i (Run j) \<longleftrightarrow> j = i"
| "turn_of i (Bound j bound) \<longleftrightarrow> j = i"
| "turn_of i (Relay j lookup_host tcp_connect copy) \<longleftrightarrow> j = i"
| "turn_of i (SendBack j open_uni send_datagram) \<longleftrightarrow> j = i"
| "turn_of i _ \<longleftrightarrow> False"

definition decided :: "('rs, 'ss) server \<Rightarrow> bool" where
  "decided s \<longleftrightarrow> is_authenticated (auth (shared s)) \<or> is_closed (is_connection_closed (auth (shared s)))"

lemma turns_left_bound: "turns_left t \<le> 6"
  by (cases t) auto

lemma turns_left_unpark [simp]: "turns_left (unpark t) = turns_left t"
  by (cases t rule: unpark.cases) auto

text \<open>Every turn of a task on a decided connection brings it nearer to its end.\<close>

lemma turns_left_await:
  assumes "await_authenticated i w waiting resume c = Some (t', woken, c')"
    and "poll_flags (auth c) \<noteq> Pending" and "\<And>b. turns_left (fst (resume b c)) < 5"
    and "\<And>w. turns_left (waiting w) = (if w = Registering then 6 else 5)"
  shows "turns_left t' < turns_left (waiting w)"
proof (cases w)
  case Polling
  with assms(1,2) obtain b where "resume b c = (t', woken, c')"
    by (auto simp: await_authenticated_def split: poll.splits)
  with assms(3) [of b] show ?thesis by (simp add: assms(4) Polling)
qed (use assms(1) in \<open>auto simp: await_authenticated_def assms(4)\<close>)

lemma turns_left_authed:
  "turns_left (fst (process_uni_stream_authed L b cmd stream c)) < 5"
  "turns_left (fst (process_bi_stream_authed b cmd send recv c)) < 5"
  by (auto simp: process_uni_stream_authed_def process_bi_stream_authed_def Let_def
      split: Command.split outcome.split prod.split)

lemma turns_left_datagram_authed: "turns_left (fst (process_datagram_authed L b cmd n dgram c)) < 5"
  by (cases "datagram (exchange L) (udp_packet_from c)")
    (auto simp: process_datagram_authed_def Let_def slice_from_def split: Command.split)

lemma turns_left_task_turn:
  assumes r: "task_turn L i t c = Some (t', woken, c')" and flags: "poll_flags (auth c) \<noteq> Pending"
  shows "turns_left t' < turns_left t"
proof (cases t)
  case (UniAwait w cmd stream)
  from r [unfolded UniAwait task_turn.simps] flags show ?thesis
    unfolding UniAwait by (rule turns_left_await) (simp_all add: turns_left_authed)
next
  case (BiAwait w cmd send recv)
  from r [unfolded BiAwait task_turn.simps] flags show ?thesis
    unfolding BiAwait by (rule turns_left_await) (simp_all add: turns_left_authed)
next
  case (DatagramAwait w cmd n dgram)
  from r [unfolded DatagramAwait task_turn.simps] flags show ?thesis
    unfolding DatagramAwait by (rule turns_left_await) (simp_all add: turns_left_datagram_authed)
next
  case (UniRead stream)
  with r show ?thesis
    by (auto simp: process_uni_stream_def Let_def split: outcome.splits Command.splits if_splits prod.splits)
qed (use r in \<open>auto simp: process_bi_stream_def process_datagram_def Let_def
  split: outcome.splits option.splits if_splits prod.splits\<close>)

lemma turns_left_bind: "bind_turn bound t c = Some (t', woken, c') \<Longrightarrow> turns_left t' < turns_left t"
  by (cases t) (auto simp: bind_turn_def split: outcome.splits)

lemma turns_left_relay:
  "relay_turn L lookup_host tcp_connect copy t c = Some (t', woken, c') \<Longrightarrow> turns_left t' < turns_left t"
  by (cases t) (auto simp: relay_turn_def split: outcome.splits)

lemma turns_left_received: "turns_left (fst (process_received_udp_packet L open_uni send_datagram a pkt addr c)) = 0"
proof (cases "udp_packet_from c")
  case (Some k)
  then show ?thesis
    by (cases k)
      (simp_all add: process_received_udp_packet_def UdpPacketFrom_check_def outcome_simps split: outcome.split)
qed (simp add: process_received_udp_packet_def UdpPacketFrom_check_def outcome_simps)

lemma turns_left_send_back:
  assumes "send_back_turn L open_uni send_datagram t c = Some (t', woken, c')"
  shows "turns_left t' < turns_left t"
proof -
  from assms obtain a pkt addr where "t = Received a pkt addr"
    and "process_received_udp_packet L open_uni send_datagram a pkt addr c = (t', woken, c')"
    by (cases t) (auto simp: send_back_turn_def)
  with turns_left_received [of L open_uni send_datagram a pkt addr c] show ?thesis by simp
qed

lemma take_turn_turns_left:
  assumes "take_turn j turn s = Some s'" and "tasks s i = Some t"
    and "\<And>t' woken c'. turn t (shared s) = Some (t', woken, c') \<Longrightarrow> turns_left t' < turns_left t"
  shows "\<exists>t'. tasks s' i = Some t' \<and> turns_left t' + (if j = i then 1 else 0) \<le> turns_left t"
  using assms
  by (fastforce simp: take_turn_def end_turn_def wake_tasks_def split: option.splits prod.splits)

lemma turns_left_step:
  assumes l: "step L l s = Some s'" and t: "tasks s i = Some t" and i: "i < next_task s" and d: "decided s"
  shows "\<exists>t'. tasks s' i = Some t' \<and> turns_left t' + (if turn_of i l then 1 else 0) \<le> turns_left t"
proof -
  have flags: "poll_flags (auth (shared s)) \<noteq> Pending"
    using d by (auto simp: decided_def poll_flags_def check_def)
  have woken: "\<exists>t'. wake_tasks woken (tasks s) i = Some t' \<and> turns_left t' \<le> turns_left t" for woken
    using t by (simp add: wake_tasks_def)
  show ?thesis
  proof (cases l)
    case (Run j)
    from l have turn: "step L (Run j) s = Some s'" by (simp add: Run)
    from take_turn_turns_left [OF turn [unfolded step.simps] t turns_left_task_turn [OF _ flags]] show ?thesis by (simp add: Run)
  next
    case (Bound j bound)
    from l have turn: "step L (Bound j bound) s = Some s'" by (simp add: Bound)
    from take_turn_turns_left [OF turn [unfolded step.simps] t turns_left_bind] show ?thesis by (simp add: Bound)
  next
    case (Relay j lookup_host tcp_connect copy)
    from l have turn: "step L (Relay j lookup_host tcp_connect copy) s = Some s'" by (simp add: Relay)
    from take_turn_turns_left [OF turn [unfolded step.simps] t turns_left_relay] show ?thesis by (simp add: Relay)
  next
    case (SendBack j open_uni send_datagram)
    from l have turn: "step L (SendBack j open_uni send_datagram) s = Some s'" by (simp add: SendBack)
    from take_turn_turns_left [OF turn [unfolded step.simps] t turns_left_send_back] show ?thesis by (simp add: SendBack)
  next
    case TimerElapsed
    with l woken show ?thesis by (auto simp: timer_elapsed_def Let_def split: if_splits prod.splits)
  next
    case SetClosed
    with l woken show ?thesis by (auto simp: handle_closed_def split: if_splits prod.splits)
  qed (use l t i in \<open>auto simp: listen_uni_streams_def listen_bi_streams_def listen_datagrams_def
    listen_received_udp_packet_def spawn_def session_send_def session_receive_def session_returns_def
    set_sessions_def log_server_def timer_poll_def listener_fails_def Let_def
    split: if_splits list.splits option.splits prod.splits poll.splits\<close>)
qed

lemma decided_mono: "conn_le (shared s) (shared s') \<Longrightarrow> decided s \<Longrightarrow> decided s'"
  by (auto simp: decided_def conn_le_def)


text \<open>What a task may wait for inside the connection: to be woken, or for room in a channel.\<close>

fun waits :: "conn \<Rightarrow> ('rs, 'ss) task \<Rightarrow> bool" where
  "waits c (UniAwait w cmd stream) \<longleftrightarrow> w = Parked"
| "waits c (BiAwait w cmd send recv) \<longleftrightarrow> w = Parked"
| "waits c (DatagramAwait w cmd n dgram) \<longleftrightarrow> w = Parked"
| "waits c (UdpPush a tx pkt addr) \<longleftrightarrow> \<not> send_ready tx (udp_sessions c)"
| "waits c _ \<longleftrightarrow> False"

lemma await_enabled: "w \<noteq> Parked \<Longrightarrow> await_authenticated i w waiting resume c \<noteq> None"
  by (cases w; cases "poll_flags (auth c)") (simp_all add: await_authenticated_def del: not_None_eq)

lemma task_turn_enabled:
  assumes "0 < turns_left t" and "\<not> waits c t"
    and "\<nexists>a pkt addr. t = UdpBind a pkt addr \<or> t = Received a pkt addr" and "\<nexists>send recv addr. t = Connecting send recv addr"
  shows "task_turn L i t c \<noteq> None"
  using assms by (cases t) (auto simp: await_enabled split: option.split)

lemma turn_enabled:
  assumes t: "tasks s i = Some t" and left: "0 < turns_left t" and go: "\<not> waits (shared s) t"
  shows "\<exists>l s'. turn_of i l \<and> step L l s = Some s'"
proof -
  have run: ?thesis if "task_turn L i t (shared s) \<noteq> None"
    using that t by (intro exI [of _ "Run i"]) (auto simp: take_turn_def)
  show ?thesis
  proof (cases t)
    case (UdpBind a pkt addr)
    with t show ?thesis
      by (intro exI [of _ "Bound i (Inr ())"])
        (simp add: take_turn_def bind_turn_def UdpSession_new_def outcome_simps Let_def)
  next
    case (Connecting send recv addr)
    with t show ?thesis
      by (intro exI [of _ "Relay i (\<lambda>_ _. Inr []) tcp_connect copy" for tcp_connect copy])
        (simp add: take_turn_def relay_turn_def split: outcome.split)
  next
    case (Received a pkt addr)
    with t show ?thesis
      by (intro exI [of _ "SendBack i open_uni send_datagram" for open_uni send_datagram])
        (simp add: take_turn_def send_back_turn_def)
  qed (use run task_turn_enabled [OF left go] in \<open>simp_all del: not_None_eq\<close>)
qed

section \<open>Termination\<close>

context server_env
begin

lemma turns_left_run:
  assumes "server_ok T s" and "run L ls s = Some s'" and "decided s" and "tasks s i = Some t"
  shows "decided s' \<and> (\<exists>t'. tasks s' i = Some t' \<and> turns_left t' + length (filter (turn_of i) ls) \<le> turns_left t)"
  using assms
proof (induction ls arbitrary: s t)
  case (Cons l ls)
  then obtain s1 where 1: "step L l s = Some s1" and 2: "run L ls s1 = Some s'" by (auto split: option.splits)
  note ok = good_step [OF Cons.prems(1) 1, unfolded good_step_def]
  have "i < next_task s" using Cons.prems(1,4) by (auto simp: server_ok_def tasks_ok_def)
  from turns_left_step [OF 1 Cons.prems(4) this Cons.prems(3)]
  obtain t1 where t1: "tasks s1 i = Some t1" "turns_left t1 + (if turn_of i l then 1 else 0) \<le> turns_left t" by auto
  from Cons.IH [OF _ 2 _ t1(1)] ok decided_mono [of s s1] Cons.prems(3) t1(2) show ?case by auto
qed simp

end

text \<open>
  C15: Every task of a connection comes to its end. Once the authentication is decided (the
  connection is authenticated or closed), a task takes at most six more turns, in any
  interleaving. And it is never stuck: as long as it has not finished, it can take its next turn,
  unless it is parked or waits for room in the channel of a live UDP session.
\<close>

theorem task_turns_bounded:
  assumes env: "server_env L content sent" and s: "reachable L T n s" and d: "decided s"
    and run: "run L ls s = Some s'" and t: "tasks s i = Some t"
  shows "length (filter (turn_of i) ls) \<le> 6 \<and>
    (\<exists>t'. tasks s' i = Some t' \<and>
      (length (filter (turn_of i) ls) = 6 \<longrightarrow> (\<exists>r. t' = Finished r)) \<and>
      ((\<exists>r. t' = Finished r) \<or> waits (shared s') t' \<or> (\<exists>l s''. turn_of i l \<and> step L l s' = Some s'')))"
proof -
  obtain t' where t': "tasks s' i = Some t'"
    and left: "turns_left t' + length (filter (turn_of i) ls) \<le> turns_left t"
    using server_env.turns_left_run [OF env server_env.reachable_ok [OF env s] run d t] by auto
  have finished: "\<exists>r. t' = Finished r" if "turns_left t' = 0" using that by (cases t') (auto split: if_splits)
  have "\<exists>l s''. turn_of i l \<and> step L l s' = Some s''" if "\<not> waits (shared s') t'" "0 < turns_left t'"
    using turn_enabled [OF t' that(2,1)] .
  with left turns_left_bound [of t] finished t' show ?thesis by (cases "turns_left t' = 0") auto
qed

theorem task_turns_bounded_witness:
  "length (filter (turn_of 2) (tl demo_packet)) \<le> 6 \<and> length (filter (turn_of 2) (tl demo_packet)) = 6"
proof -
  let ?s = "the (run mem_lib (demo_authenticate @ [hd demo_packet]) demo_start)"
  have start: "run mem_lib (demo_authenticate @ [hd demo_packet]) demo_start = Some ?s"
  proof -
    have "run mem_lib (demo_authenticate @ [hd demo_packet]) demo_start \<noteq> None" by code_simp
    then show ?thesis by auto
  qed
  have r: "reachable mem_lib {demo_token} 4 ?s"
    using run_reachable [OF start] reachable.init [of mem_lib "{demo_token}" 4] by (simp add: demo_start_def)
  have "decided ?s" by code_simp
  moreover have "run mem_lib (tl demo_packet) ?s \<noteq> None" by code_simp
  moreover have "tasks ?s 2 \<noteq> None" by code_simp
  moreover have "length (filter (turn_of 2) (tl demo_packet)) = 6" by (simp add: demo_packet_def)
  ultimately show ?thesis
    using task_turns_bounded [OF mem.server_env_axioms r] by blast
qed

section \<open>Dead sessions\<close>

text \<open>
  The table leads from an associate id to a session that has returned, no other session has that
  id, and no request is about to start one.
\<close>

definition dead_conn :: "u32 \<Rightarrow> nat \<Rightarrow> conn \<Rightarrow> bool" where
  "dead_conn a tx c \<longleftrightarrow>
     session_map (udp_sessions c) a = Some tx \<and> session_tasks (udp_sessions c) tx = None \<and>
     (\<forall>tx' t. session_tasks (udp_sessions c) tx' = Some t \<longrightarrow> task_assoc_id t \<noteq> a)"

fun inserting :: "u32 \<Rightarrow> ('rs, 'ss) task \<Rightarrow> bool" where
  "inserting a (UdpBind a' pkt addr) \<longleftrightarrow> a' = a"
| "inserting a (UdpInsert a' tx pkt addr) \<longleftrightarrow> a' = a"
| "inserting a _ \<longleftrightarrow> False"

definition dead_id :: "u32 \<Rightarrow> nat \<Rightarrow> ('rs, 'ss) server \<Rightarrow> bool" where
  "dead_id a tx s \<longleftrightarrow> dead_conn a tx (shared s) \<and> (\<forall>i t. tasks s i = Some t \<longrightarrow> \<not> inserting a t)"

fun moves_packet :: "u32 \<Rightarrow> event \<Rightarrow> bool" where
  "moves_packet a (SocketSent a' pkt addr) \<longleftrightarrow> a' = a"
| "moves_packet a (SocketReceived a' pkt addr) \<longleftrightarrow> a' = a"
| "moves_packet a _ \<longleftrightarrow> False"

text \<open>What is added to the history moves no packet of the id, and unless the id is given up it stays dead.\<close>

definition stays_dead :: "u32 \<Rightarrow> event list \<Rightarrow> event list \<Rightarrow> bool \<Rightarrow> bool" where
  "stays_dead a h h' dead \<longleftrightarrow>
     (\<exists>new. h' = new @ h \<and> list_all (\<lambda>e. \<not> moves_packet a e) new \<and> (Dissociated a \<notin> set new \<longrightarrow> dead))"

lemma stays_dead_same: "dead \<Longrightarrow> stays_dead a h h dead"
  by (simp add: stays_dead_def)

lemma stays_dead_event: "\<not> moves_packet a e \<Longrightarrow> e = Dissociated a \<or> dead \<Longrightarrow> stays_dead a h (e # h) dead"
  unfolding stays_dead_def by (rule exI [of _ "[e]"]) auto

lemma inserting_unpark [simp]: "inserting a (unpark t) \<longleftrightarrow> inserting a t"
  by (cases t rule: unpark.cases) auto

lemma dead_push: "dead_conn a tx c \<Longrightarrow> dead_conn a tx (c\<lparr>udp_sessions := send_push tx' item (udp_sessions c)\<rparr>)"
  by (auto simp: dead_conn_def send_push_def split: option.splits)

lemma dead_insert: "dead_conn a tx c \<Longrightarrow> a' \<noteq> a \<Longrightarrow> dead_conn a tx (c\<lparr>udp_sessions := send_insert a' tx' (udp_sessions c)\<rparr>)"
  by (auto simp: dead_conn_def send_insert_def)

lemma dead_dissociate:
  "dead_conn a tx c \<Longrightarrow> a' \<noteq> a \<Longrightarrow> dead_conn a tx (c\<lparr>udp_sessions := UdpSessionMap_dissociate a' (udp_sessions c)\<rparr>)"
  by (auto simp: dead_conn_def UdpSessionMap_dissociate_def)

lemma dead_new:
  assumes "dead_conn a tx c" and "UdpSession_new bound a' (udp_sessions c) = Ok (tx', m)" and "a' \<noteq> a"
    and "sessions_ok (udp_sessions c)"
  shows "dead_conn a tx (c\<lparr>udp_sessions := m\<rparr>)"
proof -
  have "tx < next_handle (udp_sessions c)"
    using assms(1,4) by (auto simp: dead_conn_def sessions_ok_def handle_for_def)
  moreover have "session_map m = session_map (udp_sessions c)"
    and "session_tasks m = (session_tasks (udp_sessions c))(next_handle (udp_sessions c) \<mapsto> \<lparr>task_assoc_id = a', send_queue = []\<rparr>)"
    using assms(2) by (auto simp: UdpSession_new_def outcome_simps Let_def)
  ultimately show ?thesis using assms(1,3) by (simp add: dead_conn_def)
qed

definition dead_turn :: "u32 \<Rightarrow> nat \<Rightarrow> conn \<Rightarrow> ('rs, 'ss) turn \<Rightarrow> bool" where
  "dead_turn a tx c r \<longleftrightarrow>
     (case r of (t, woken, c') \<Rightarrow> stays_dead a (history c) (history c') (dead_conn a tx c' \<and> \<not> inserting a t))"

lemma dead_conn_simps [simp]:
  "dead_conn a tx (c\<lparr>udp_packet_from := m\<rparr>) \<longleftrightarrow> dead_conn a tx c"
  "dead_conn a tx (c\<lparr>auth := x\<rparr>) \<longleftrightarrow> dead_conn a tx c"
  "dead_conn a tx (log_event e c) \<longleftrightarrow> dead_conn a tx c"
  "dead_conn a tx (controller_close err c) \<longleftrightarrow> dead_conn a tx c"
  by (simp_all add: dead_conn_def log_event_def controller_close_def)

lemma history_close [simp]: "history (controller_close err c) = history c"
  by (simp add: controller_close_def)

lemmas stays_deadI = stays_dead_same stays_dead_event

lemma dead_uni_stream: "dead_conn a tx c \<Longrightarrow> dead_turn a tx c (process_uni_stream L stream c)"
  by (auto simp: dead_turn_def process_uni_stream_def Let_def wake_def controller_close_def
      intro!: stays_deadI split: outcome.split Command.split)
    (simp_all add: dead_conn_def)

lemma dead_uni_stream_authed:
  assumes "dead_conn a tx c"
  shows "dead_turn a tx c (process_uni_stream_authed L b cmd stream c)"
  using assms dead_dissociate [OF assms]
  by (cases "uni_stream (exchange L) (udp_packet_from c)")
    (auto simp: dead_turn_def process_uni_stream_authed_def task_dissociate_def Let_def
      intro!: stays_deadI split: Command.split outcome.split prod.split)

lemma dead_other_streams:
  assumes "dead_conn a tx c"
  shows "dead_turn a tx c (process_bi_stream L send recv c)"
    and "dead_turn a tx c (process_bi_stream_authed b cmd send recv c)"
    and "dead_turn a tx c (process_datagram L dgram c)"
  using assms
  by (auto simp: dead_turn_def process_bi_stream_def process_bi_stream_authed_def process_datagram_def Let_def
      intro!: stays_deadI split: outcome.split Command.split)

lemma dead_datagram_authed:
  assumes "dead_conn a tx c"
  shows "dead_turn a tx c (process_datagram_authed L b cmd n dgram c)"
  using assms
  by (cases "datagram (exchange L) (udp_packet_from c)")
    (auto simp: dead_turn_def process_datagram_authed_def Let_def slice_from_def
      intro!: stays_deadI split: Command.split)

lemma dead_received:
  assumes "dead_conn a tx c"
  shows "dead_turn a tx c (process_received_udp_packet L open_uni send_datagram a' pkt addr c)"
proof (cases "udp_packet_from c")
  case (Some k)
  with assms show ?thesis
    by (cases k) (auto simp: dead_turn_def process_received_udp_packet_def UdpPacketFrom_check_def
        intro!: stays_deadI split: outcome.split)
qed (use assms in \<open>simp add: dead_turn_def process_received_udp_packet_def UdpPacketFrom_check_def stays_dead_same\<close>)

lemma dead_await:
  assumes "dead_conn a tx c" and "await_authenticated i w waiting resume c = Some r"
    and "\<And>b. dead_turn a tx c (resume b c)" and "\<And>w. \<not> inserting a (waiting w)"
  shows "dead_turn a tx c r"
proof (cases w)
  case Polling
  show ?thesis
  proof (cases "poll_flags (auth c)")
    case (Ready b)
    with Polling assms(2) assms(3) [of b] show ?thesis by (simp add: await_authenticated_def)
  qed (use Polling assms(1,2,4) in \<open>auto simp: await_authenticated_def dead_turn_def intro!: stays_dead_same\<close>)
next
  case Registering
  with assms show ?thesis
    by (auto simp: await_authenticated_def dead_turn_def intro!: stays_dead_same)
qed (use assms(2) in \<open>simp add: await_authenticated_def\<close>)

lemma dead_task_turn:
  assumes c: "dead_conn a tx c" and t: "\<not> inserting a t" and r: "task_turn L i t c = Some r"
  shows "dead_turn a tx c r"
proof (cases t)
  case (UniAwait w cmd stream)
  from c r [unfolded UniAwait task_turn.simps] show ?thesis
    by (rule dead_await) (simp_all add: dead_uni_stream_authed [OF c])
next
  case (BiAwait w cmd send recv)
  from c r [unfolded BiAwait task_turn.simps] show ?thesis
    by (rule dead_await) (simp_all add: dead_other_streams [OF c])
next
  case (DatagramAwait w cmd n dgram)
  from c r [unfolded DatagramAwait task_turn.simps] show ?thesis
    by (rule dead_await) (simp_all add: dead_datagram_authed [OF c])
next
  case (UdpLookup a' pkt addr)
  have "a' \<noteq> a" if "send_lookup a' (udp_sessions c) = None"
    using that c by (auto simp: dead_conn_def send_lookup_def)
  with UdpLookup c r show ?thesis by (auto simp: dead_turn_def intro!: stays_dead_same split: option.splits)
next
  case (UdpInsert a' tx' pkt addr)
  with t c r dead_insert [OF c, of a'] show ?thesis by (auto simp: dead_turn_def intro!: stays_dead_same)
next
  case (UdpPush a' tx' pkt addr)
  with c r dead_push [OF c] show ?thesis by (auto simp: dead_turn_def intro!: stays_dead_same split: if_splits)
qed (use r dead_uni_stream [OF c] dead_other_streams [OF c] in auto)

lemma dead_bind_turn:
  assumes c: "dead_conn a tx c" and t: "\<not> inserting a t" and r: "bind_turn bound t c = Some r"
    and ok: "sessions_ok (udp_sessions c)"
  shows "dead_turn a tx c r"
proof -
  from r t obtain a' pkt addr where t': "t = UdpBind a' pkt addr" and a: "a' \<noteq> a"
    by (cases t) (auto simp: bind_turn_def)
  show ?thesis
    using r c a dead_new [OF c _ a ok] unfolding t'
    by (auto simp: bind_turn_def dead_turn_def intro!: stays_dead_same split: outcome.splits)
qed

lemma dead_end_turn:
  assumes s: "dead_id a tx s" and r: "dead_turn a tx (shared s) r"
  shows "stays_dead a (history (shared s)) (history (shared (end_turn i r s))) (dead_id a tx (end_turn i r s))"
proof -
  obtain t woken c where r': "r = (t, woken, c)" by (cases r)
  have h: "history (spawned_result t c) = history c"
    by (auto simp: spawned_result_def controller_close_def split: task.split outcome.split)
  have d: "dead_conn a tx (spawned_result t c) \<longleftrightarrow> dead_conn a tx c"
    by (auto simp: spawned_result_def split: task.split outcome.split)
  have "dead_id a tx (end_turn i r s)" if "dead_conn a tx c \<and> \<not> inserting a t"
    using that s d by (auto simp: dead_id_def end_turn_def r' wake_tasks_def split: if_splits)
  with r show ?thesis by (auto simp: dead_turn_def stays_dead_def end_turn_def r' h)
qed

lemma dead_take_turn:
  assumes s: "dead_id a tx s" and "take_turn i turn s = Some s'"
    and "\<And>t r. tasks s i = Some t \<Longrightarrow> turn t (shared s) = Some r \<Longrightarrow> dead_turn a tx (shared s) r"
  shows "stays_dead a (history (shared s)) (history (shared s')) (dead_id a tx s')"
  using assms(2,3) dead_end_turn [OF s] by (auto simp: take_turn_def split: option.splits)

lemma dead_relay_turn: "dead_conn a tx c \<Longrightarrow> relay_turn L lookup_host tcp_connect copy t c = Some r \<Longrightarrow> dead_turn a tx c r"
  by (cases t) (auto simp: relay_turn_def dead_turn_def intro!: stays_dead_same split: outcome.splits)

lemma dead_send_back_turn:
  "dead_conn a tx c \<Longrightarrow> send_back_turn L open_uni send_datagram t c = Some r \<Longrightarrow> dead_turn a tx c r"
  by (cases t) (auto simp: send_back_turn_def dead_received)

lemma dead_id_sessions:
  assumes "dead_id a tx s" and "session_map m = session_map (udp_sessions (shared s))"
    and "\<And>tx' t'. session_tasks m tx' = Some t' \<Longrightarrow>
      \<exists>t. session_tasks (udp_sessions (shared s)) tx' = Some t \<and> task_assoc_id t = task_assoc_id t'"
  shows "dead_id a tx (set_sessions m s)"
proof -
  have "session_tasks m tx = None"
    using assms(1) assms(3) [of tx] by (cases "session_tasks m tx") (auto simp: dead_id_def dead_conn_def)
  moreover have "task_assoc_id t' \<noteq> a" if "session_tasks m tx' = Some t'" for tx' t'
    using assms(1) assms(3) [OF that] by (auto simp: dead_id_def dead_conn_def)
  ultimately show ?thesis using assms(1,2) by (simp add: dead_id_def dead_conn_def set_sessions_def)
qed

lemma dead_id_log: "dead_id a tx (log_server e s) \<longleftrightarrow> dead_id a tx s"
  by (simp add: dead_id_def log_server_def)

lemma dead_session_send:
  assumes s: "dead_id a tx s" and "session_send tx' answer s = Some s'"
  shows "stays_dead a (history (shared s)) (history (shared s')) (dead_id a tx s')"
proof -
  let ?m = "udp_sessions (shared s)"
  let ?m' = "snd (listen_send_packet tx' (\<lambda>_ _. answer) ?m)"
  from assms(2) obtain t where t: "session_tasks ?m tx' = Some t" by (auto simp: session_send_def split: option.splits)
  then have a: "task_assoc_id t \<noteq> a" using s by (auto simp: dead_id_def dead_conn_def)
  have map: "session_map ?m' = session_map ?m"
    and tasks: "\<And>tx'' t'. session_tasks ?m' tx'' = Some t' \<Longrightarrow>
      \<exists>t. session_tasks ?m tx'' = Some t \<and> task_assoc_id t = task_assoc_id t'"
    by (auto simp: listen_send_packet_def split: option.splits list.splits sum.splits if_splits)
  have "dead_id a tx (set_sessions ?m' s)"
    using s map tasks by (rule dead_id_sessions)
  moreover have "dead_id a tx (set_sessions ?m' (log_server e s))" for e
    using s map tasks by (intro dead_id_sessions) (simp_all add: dead_id_log)
  ultimately show ?thesis
    using assms(2) t a
    by (auto simp: session_send_def set_sessions_def log_server_def intro!: stays_deadI
        split: if_splits option.splits prod.splits)
qed

lemma dead_session_receive:
  assumes s: "dead_id a tx s" and "session_receive tx' received s = Some s'"
  shows "stays_dead a (history (shared s)) (history (shared s')) (dead_id a tx s')"
proof -
  from assms(2) obtain t where t: "session_tasks (udp_sessions (shared s)) tx' = Some t"
    by (auto simp: session_receive_def split: option.splits)
  then have "task_assoc_id t \<noteq> a" using s by (auto simp: dead_id_def dead_conn_def)
  with s t assms(2) show ?thesis
    by (auto simp: session_receive_def listen_receive_packet_def log_server_def dead_id_def
        intro!: stays_deadI split: if_splits prod.splits)
qed

lemma dead_session_returns: "dead_id a tx s \<Longrightarrow> dead_id a tx (session_returns tx' s)"
  unfolding session_returns_def by (rule dead_id_sessions) (auto split: if_splits)

lemma dead_accept:
  assumes "dead_id a tx s"
  shows "listen_uni_streams stream s = Some s' \<Longrightarrow> dead_id a tx s' \<and> history (shared s') = history (shared s)"
    and "listen_bi_streams send recv s = Some s' \<Longrightarrow> dead_id a tx s' \<and> history (shared s') = history (shared s)"
    and "listen_datagrams dgram s = Some s' \<Longrightarrow> dead_id a tx s' \<and> history (shared s') = history (shared s)"
    and "listen_received_udp_packet s = Some s' \<Longrightarrow> dead_id a tx s' \<and> history (shared s') = history (shared s)"
  using assms
  by (auto simp: listen_uni_streams_def listen_bi_streams_def listen_datagrams_def listen_received_udp_packet_def
      spawn_def dead_id_def split: if_splits list.splits prod.splits)

lemma dead_timer:
  assumes "dead_id a tx s"
  shows "timer_poll s = Some s' \<Longrightarrow> dead_id a tx s' \<and> history (shared s') = history (shared s)"
    and "timer_elapsed s = Some s' \<Longrightarrow> dead_id a tx s' \<and> history (shared s') = history (shared s)"
    and "listener_fails s = Some s' \<Longrightarrow> dead_id a tx s' \<and> history (shared s') = history (shared s)"
    and "handle_closed s = Some s' \<Longrightarrow> dead_id a tx s' \<and> history (shared s') = history (shared s)"
  using assms
  by (auto simp: timer_poll_def timer_elapsed_def listener_fails_def handle_closed_def dead_id_def Let_def
      wake_tasks_def split: if_splits prod.splits poll.splits)

context server_env
begin

lemma dead_step:
  assumes ok: "server_ok T s" and s: "dead_id a tx s" and l: "step L l s = Some s'"
  shows "stays_dead a (history (shared s)) (history (shared s')) (dead_id a tx s')"
proof -
  have c: "dead_conn a tx (shared s)" and t: "\<And>i t. tasks s i = Some t \<Longrightarrow> \<not> inserting a t"
    using s by (auto simp: dead_id_def)
  have sess: "sessions_ok (udp_sessions (shared s))" using ok by (simp add: server_ok_def conn_ok_def)
  show ?thesis
  proof (cases l)
    case (Run i)
    with l show ?thesis by (auto intro: dead_take_turn [OF s] dead_task_turn [OF c t])
  next
    case (Bound i bound)
    with l show ?thesis by (auto intro: dead_take_turn [OF s] dead_bind_turn [OF c t _ sess])
  next
    case (Relay i lookup_host tcp_connect copy)
    with l show ?thesis by (auto intro: dead_take_turn [OF s] dead_relay_turn [OF c])
  next
    case (SendBack i open_uni send_datagram)
    with l show ?thesis by (auto intro: dead_take_turn [OF s] dead_send_back_turn [OF c])
  next
    case (SocketSend tx' answer)
    with l show ?thesis by (auto intro: dead_session_send [OF s])
  next
    case (SocketReceive tx' received)
    with l show ?thesis by (auto intro: dead_session_receive [OF s])
  next
    case (SocketFails tx')
    with l dead_session_returns [OF s] show ?thesis
      by (auto simp: session_returns_def set_sessions_def intro!: stays_dead_same split: if_splits)
  next
    case (SessionOver tx')
    with l dead_session_returns [OF s] show ?thesis
      by (auto simp: session_returns_def set_sessions_def intro!: stays_dead_same split: if_splits option.splits)
  qed (use l dead_accept [OF s] dead_timer [OF s] in \<open>auto intro: stays_dead_same simp del: not_None_eq\<close>)
qed

lemma dead_run:
  assumes "server_ok T s" and "dead_id a tx s" and "run L ls s = Some s'"
    and "history (shared s') = new @ history (shared s)" and "Dissociated a \<notin> set new"
  shows "dead_id a tx s' \<and> list_all (\<lambda>e. \<not> moves_packet a e) new"
  using assms
proof (induction ls arbitrary: s new)
  case (Cons l ls)
  then obtain s1 where 1: "step L l s = Some s1" and 2: "run L ls s1 = Some s'" by (auto split: option.splits)
  have ok: "server_ok T s1" using good_step [OF Cons.prems(1) 1] by (simp add: good_step_def)
  from dead_step [OF Cons.prems(1,2) 1] obtain n1 where n1: "history (shared s1) = n1 @ history (shared s)"
    "list_all (\<lambda>e. \<not> moves_packet a e) n1" "Dissociated a \<notin> set n1 \<longrightarrow> dead_id a tx s1"
    by (auto simp: stays_dead_def)
  from good_run [OF ok 2] obtain n2 where n2: "history (shared s') = n2 @ history (shared s1)"
    by (auto simp: good_step_def conn_le_def)
  with n1 Cons.prems(4) have new: "new = n2 @ n1" by simp
  with n1 Cons.prems(5) Cons.IH [OF ok _ 2 n2] show ?case by simp
qed simp

end


text \<open>A packet waits in a session's channel; its send fails, and the client sends another one.\<close>

definition demo_queued :: "(bytes, bytes) server" where
  "demo_queued = (case run mem_lib (demo_authenticate @ demo_packet) demo_start of None \<Rightarrow> demo_start | Some s \<Rightarrow> s)"

definition demo_refused :: "(bytes, bytes) server" where
  "demo_refused = (case step mem_lib (SocketSend 0 (Inl (IoError Other []))) demo_queued of None \<Rightarrow> demo_start | Some s \<Rightarrow> s)"

definition demo_again :: "(bytes, bytes) label list" where
  "demo_again = [AcceptDatagram (encode_Command (Packet 5 2 demo_target) @ [7, 8]), Run 3, Run 3, Run 3, Run 3]"

definition demo_lost :: "(bytes, bytes) server" where
  "demo_lost = (case run mem_lib demo_again demo_refused of None \<Rightarrow> demo_start | Some s \<Rightarrow> s)"

lemma demo_queued_reachable: "reachable mem_lib {demo_token} 4 demo_queued"
proof -
  have "run mem_lib (demo_authenticate @ demo_packet) demo_start \<noteq> None" by code_simp
  then have "run mem_lib (demo_authenticate @ demo_packet) demo_start = Some demo_queued"
    by (auto simp: demo_queued_def)
  from run_reachable [OF this] reachable.init [of mem_lib "{demo_token}" 4] show ?thesis by (simp add: demo_start_def)
qed

lemma demo_queued_tasks: "tasks demo_queued i = Some t \<Longrightarrow> \<not> inserting 5 t"
proof -
  assume t: "tasks demo_queued i = Some t"
  have "tasks_ok demo_queued" using mem.reachable_ok [OF demo_queued_reachable] by (simp add: server_ok_def)
  with t have "i < next_task demo_queued" by (auto simp: tasks_ok_def)
  moreover have "list_all (\<lambda>i. case tasks demo_queued i of None \<Rightarrow> True | Some t \<Rightarrow> \<not> inserting 5 t) [0..<next_task demo_queued]"
    by code_simp
  ultimately have "case tasks demo_queued i of None \<Rightarrow> True | Some t \<Rightarrow> \<not> inserting 5 t"
    unfolding list_all_iff by (elim bspec) simp
  with t show ?thesis by simp
qed

lemma demo_queued_session: "session_tasks (udp_sessions (shared demo_queued)) tx = Some t \<Longrightarrow> tx = 0"
proof -
  assume t: "session_tasks (udp_sessions (shared demo_queued)) tx = Some t"
  have "sessions_ok (udp_sessions (shared demo_queued))"
    using mem.reachable_ok [OF demo_queued_reachable] by (simp add: server_ok_def conn_ok_def)
  with t have "tx < next_handle (udp_sessions (shared demo_queued))" by (auto simp: sessions_ok_def)
  moreover have "next_handle (udp_sessions (shared demo_queued)) = 1" by code_simp
  ultimately show ?thesis by simp
qed


end
