(* ===== verification/Server_Spec.thy ===== *)
theory Server_Spec
  imports Server_Safety "HOL-Library.Multiset"
begin

text \<open>
  What a server connection promises, as a specification without tasks, locks and channels, and the
  proof that the connection implements it. The specification is a machine on events: it knows
  whether a token was accepted, the UDP mode, and the packets that are on their way, each way, as
  multisets. A packet enters when the client sends it and leaves when a socket sends it, so that
  nothing is sent twice. Packets may be lost, and are: the simulation relation is an inclusion.
\<close>

section \<open>Specification\<close>

type_synonym parcel = "u32 \<times> bytes \<times> Address"

record spec =
  sp_authed :: bool
  sp_mode :: "UdpPacketSource option"
  sp_ids :: "u32 set"
  sp_out :: "parcel multiset"
  sp_in :: "parcel multiset"

definition spec_init :: spec where
  "spec_init = \<lparr>sp_authed = False, sp_mode = None, sp_ids = {}, sp_out = {#}, sp_in = {#}\<rparr>"

fun spec_step :: "bytes set \<Rightarrow> event \<Rightarrow> spec \<Rightarrow> spec option" where
  "spec_step T (Authenticated d) sp = (if d \<in> T then Some (sp\<lparr>sp_authed := True\<rparr>) else None)"
| "spec_step T (PacketFrom k a pkt addr) sp =
     (if sp_authed sp \<and> (sp_mode sp = None \<or> sp_mode sp = Some k)
      then Some (sp\<lparr>sp_mode := Some k, sp_ids := insert a (sp_ids sp), sp_out := add_mset (a, pkt, addr) (sp_out sp)\<rparr>)
      else None)"
| "spec_step T (Dissociated a) sp = (if sp_authed sp then Some sp else None)"
| "spec_step T (ConnectTo addr) sp = (if sp_authed sp then Some sp else None)"
| "spec_step T (SocketSent a pkt addr) sp =
     (if (a, pkt, addr) \<in># sp_out sp then Some (sp\<lparr>sp_out := sp_out sp - {#(a, pkt, addr)#}\<rparr>) else None)"
| "spec_step T (SocketReceived a pkt addr) sp =
     (if a \<in> sp_ids sp then Some (sp\<lparr>sp_in := add_mset (a, pkt, addr) (sp_in sp)\<rparr>) else None)"
| "spec_step T (PacketTo k a pkt addr) sp =
     (if sp_mode sp = Some k \<and> (a, pkt, addr) \<in># sp_in sp
      then Some (sp\<lparr>sp_in := sp_in sp - {#(a, pkt, addr)#}\<rparr>) else None)"

fun spec_run :: "bytes set \<Rightarrow> event list \<Rightarrow> spec \<Rightarrow> spec option" where
  "spec_run T [] sp = Some sp"
| "spec_run T (e # es) sp = (case spec_step T e sp of None \<Rightarrow> None | Some sp' \<Rightarrow> spec_run T es sp')"

lemma spec_run_append:
  "spec_run T (es @ es') sp = (case spec_run T es sp of None \<Rightarrow> None | Some sp' \<Rightarrow> spec_run T es' sp')"
  by (induction es arbitrary: sp) (auto split: option.split)

text \<open>The ids of all packets are known, and the mode is chosen with the first of them.\<close>

definition spec_ok :: "spec \<Rightarrow> bool" where
  "spec_ok sp \<longleftrightarrow>
     (\<forall>a pkt addr. (a, pkt, addr) \<in># sp_out sp + sp_in sp \<longrightarrow> a \<in> sp_ids sp) \<and>
     (sp_ids sp \<noteq> {} \<longrightarrow> sp_mode sp \<noteq> None)"

lemma spec_ok_step: "spec_step T e sp = Some sp' \<Longrightarrow> spec_ok sp \<Longrightarrow> spec_ok sp'"
  by (cases e) (fastforce simp: spec_ok_def split: if_splits dest: in_diffD)+

text \<open>In a trace of the specification no packet is sent more often than it was received.\<close>

definition from_client_count :: "event list \<Rightarrow> parcel \<Rightarrow> nat" where
  "from_client_count es p = length (filter (\<lambda>e. \<exists>k. e = PacketFrom k (fst p) (fst (snd p)) (snd (snd p))) es)"

definition to_client_count :: "event list \<Rightarrow> parcel \<Rightarrow> nat" where
  "to_client_count es p = length (filter (\<lambda>e. \<exists>k. e = PacketTo k (fst p) (fst (snd p)) (snd (snd p))) es)"

lemma spec_run_count:
  assumes "spec_run T es sp = Some sp'"
  shows "count (sp_out sp') (a, pkt, addr) + length (filter ((=) (SocketSent a pkt addr)) es)
      = count (sp_out sp) (a, pkt, addr) + from_client_count es (a, pkt, addr) \<and>
    count (sp_in sp') (a, pkt, addr) + to_client_count es (a, pkt, addr)
      = count (sp_in sp) (a, pkt, addr) + length (filter ((=) (SocketReceived a pkt addr)) es)"
  using assms
proof (induction es arbitrary: sp)
  case (Cons e es)
  then obtain sp1 where 1: "spec_step T e sp = Some sp1" and 2: "spec_run T es sp1 = Some sp'"
    by (auto split: option.splits)
  from 1 Cons.IH [OF 2] show ?case
    by (cases e) (auto simp: from_client_count_def to_client_count_def split: if_splits dest: multi_member_split)
qed (simp add: from_client_count_def to_client_count_def)

section \<open>Packets on their way\<close>

fun task_out :: "('rs, 'ss) task \<Rightarrow> parcel multiset" where
  "task_out (UdpLookup a pkt addr) = {#(a, pkt, addr)#}"
| "task_out (UdpBind a pkt addr) = {#(a, pkt, addr)#}"
| "task_out (UdpInsert a tx pkt addr) = {#(a, pkt, addr)#}"
| "task_out (UdpPush a tx pkt addr) = {#(a, pkt, addr)#}"
| "task_out _ = {#}"

fun task_in :: "('rs, 'ss) task \<Rightarrow> parcel multiset" where
  "task_in (Received a pkt addr) = {#(a, pkt, addr)#}"
| "task_in _ = {#}"

definition session_out :: "session_task \<Rightarrow> parcel multiset" where
  "session_out t = image_mset (\<lambda>(pkt, addr). (task_assoc_id t, pkt, addr)) (mset (send_queue t))"

text \<open>The packets that a table of tasks or sessions, with indices below a bound, holds.\<close>

definition held :: "('a \<Rightarrow> parcel multiset) \<Rightarrow> nat \<Rightarrow> (nat \<rightharpoonup> 'a) \<Rightarrow> parcel multiset" where
  "held f n m = (\<Sum>i<n. case m i of None \<Rightarrow> {#} | Some t \<Rightarrow> f t)"

definition queued :: "UdpSessionMap \<Rightarrow> parcel multiset" where
  "queued m = held session_out (next_handle m) (session_tasks m)"

lemma held_split:
  assumes "i < n"
  shows "held f n m = (case m i of None \<Rightarrow> {#} | Some t \<Rightarrow> f t) + held f n (m(i := None))"
proof -
  have "held f n m = (case m i of None \<Rightarrow> {#} | Some t \<Rightarrow> f t) + (\<Sum>j\<in>{..<n} - {i}. case m j of None \<Rightarrow> {#} | Some t \<Rightarrow> f t)"
    unfolding held_def using assms by (intro sum.remove) auto
  also have "(\<Sum>j\<in>{..<n} - {i}. case m j of None \<Rightarrow> {#} | Some t \<Rightarrow> f t) =
      (\<Sum>j\<in>{..<n} - {i}. case (m(i := None)) j of None \<Rightarrow> {#} | Some t \<Rightarrow> f t)"
    by (intro sum.cong) auto
  also have "\<dots> = held f n (m(i := None))"
    unfolding held_def using assms by (intro sum.mono_neutral_left) auto
  finally show ?thesis .
qed

lemma held_update: "i < n \<Longrightarrow> held f n (m(i \<mapsto> t)) = f t + held f n (m(i := None))"
  using held_split [of i n f "m(i \<mapsto> t)"] by simp

lemma held_drop: "i < n \<Longrightarrow> held f n (m(i := None)) \<subseteq># held f n m"
  using held_split [of i n f m] by simp

lemma held_Suc: "held f (Suc n) (m(n \<mapsto> t)) = f t + held f n m"
  by (simp add: held_def add.commute cong: sum.cong_simp)

lemma held_cong:
  assumes "\<And>i. i < n \<Longrightarrow> (case m i of None \<Rightarrow> {#} | Some t \<Rightarrow> f t) = (case m' i of None \<Rightarrow> {#} | Some t \<Rightarrow> f t)"
  shows "held f n m = held f n m'"
  using assms by (simp add: held_def)

lemma held_empty [simp]: "held f n Map.empty = {#}"
  by (simp add: held_def)

lemma queued_same [simp]:
  "queued (send_insert a tx m) = queued m"
  "queued (UdpSessionMap_dissociate a m) = queued m"
  by (simp_all add: queued_def send_insert_def UdpSessionMap_dissociate_def)

lemma queued_new: "UdpSession_new bound a m = Ok (tx, m') \<Longrightarrow> queued m' = queued m"
  by (auto simp: UdpSession_new_def outcome_simps Let_def queued_def held_Suc session_out_def)

lemma queued_push:
  assumes "handle_for m a tx"
  shows "queued (send_push tx (pkt, addr) m) \<subseteq># add_mset (a, pkt, addr) (queued m)"
proof (cases "session_tasks m tx")
  case (Some t)
  with assms have tx: "tx < next_handle m" and a: "task_assoc_id t = a" by (auto simp: handle_for_def)
  from held_split [OF tx, of session_out "session_tasks m"] Some a show ?thesis
    by (simp add: queued_def send_push_def held_update [OF tx] session_out_def)
qed (simp add: send_push_def)

lemma queued_returns:
  assumes "tx < next_handle m"
  shows "queued (m\<lparr>session_tasks := (session_tasks m)(tx := None)\<rparr>) \<subseteq># queued m"
  using held_drop [OF assms] by (simp add: queued_def)

lemma queued_sent:
  assumes "session_tasks m tx = Some t" and "send_queue t = (pkt, addr) # rest" and "tx < next_handle m"
  shows "queued m = add_mset (task_assoc_id t, pkt, addr)
      (queued (m\<lparr>session_tasks := (session_tasks m)(tx \<mapsto> t\<lparr>send_queue := rest\<rparr>)\<rparr>))"
  using assms held_split [OF assms(3), of session_out "session_tasks m"]
  by (simp add: queued_def held_update session_out_def)

lemma task_out_unpark [simp]: "task_out (unpark t) = task_out t" "task_in (unpark t) = task_in t"
  by (cases t rule: unpark.cases; simp)+

lemma held_wake [simp]:
  "held task_out n (wake_tasks woken ts) = held task_out n ts"
  "held task_in n (wake_tasks woken ts) = held task_in n ts"
  by (rule held_cong, simp add: wake_tasks_def split: option.split)+

section \<open>Simulation\<close>

text \<open>
  The shared state with the packets of the tasks (\<open>pout\<close> on their way out, \<open>pin\<close> on their way
  back) and the state of the specification.
\<close>

definition conn_implements :: "conn \<Rightarrow> parcel multiset \<Rightarrow> parcel multiset \<Rightarrow> spec \<Rightarrow> bool" where
  "conn_implements c pout pin sp \<longleftrightarrow>
     (is_authenticated (auth c) \<longrightarrow> sp_authed sp) \<and>
     (sp_mode sp = None \<or> sp_mode sp = udp_packet_from c) \<and>
     queued (udp_sessions c) + pout \<subseteq># sp_out sp \<and> pin \<subseteq># sp_in sp \<and>
     spec_ok sp \<and>
     (\<forall>tx t. session_tasks (udp_sessions c) tx = Some t \<longrightarrow> task_assoc_id t \<in> sp_ids sp)"

text \<open>Going from one state to another, with the events that are added to the history.\<close>

definition simulated ::
  "bytes set \<Rightarrow> spec \<Rightarrow> event list \<Rightarrow> event list \<Rightarrow> (spec \<Rightarrow> bool) \<Rightarrow> bool" where
  "simulated T sp h h' R \<longleftrightarrow> (\<exists>new sp'. h' = new @ h \<and> spec_run T (rev new) sp = Some sp' \<and> R sp')"

lemma simulated_silent: "R sp \<Longrightarrow> simulated T sp h h R"
  by (auto simp: simulated_def)

lemma simulated_event: "spec_step T e sp = Some sp' \<Longrightarrow> R sp' \<Longrightarrow> simulated T sp h (e # h) R"
  unfolding simulated_def by (rule exI [of _ "[e]"]) simp

lemma simulated_mono: "simulated T sp h h' R \<Longrightarrow> (\<And>sp. R sp \<Longrightarrow> R' sp) \<Longrightarrow> simulated T sp h h' R'"
  by (auto simp: simulated_def)

definition turn_implements :: "bytes set \<Rightarrow> conn \<Rightarrow> ('rs, 'ss) task \<Rightarrow> ('rs, 'ss) turn \<Rightarrow> bool" where
  "turn_implements T c t r \<longleftrightarrow>
     (\<forall>pout pin sp. conn_implements c (task_out t + pout) (task_in t + pin) sp \<longrightarrow>
        (case r of (t', woken, c') \<Rightarrow>
           simulated T sp (history c) (history c') (conn_implements c' (task_out t' + pout) (task_in t' + pin))))"

lemma turn_implementsI:
  assumes "\<And>pout pin sp. conn_implements c (task_out t + pout) (task_in t + pin) sp \<Longrightarrow>
    simulated T sp (history c) (history c') (conn_implements c' (task_out t' + pout) (task_in t' + pin))"
  shows "turn_implements T c t (t', woken, c')"
  using assms by (simp add: turn_implements_def)

text \<open>A turn that adds nothing to the history.\<close>

lemma turn_sessions:
  assumes "history c' = history c" and "is_authenticated (auth c') = is_authenticated (auth c)"
    and "udp_packet_from c = None \<or> udp_packet_from c' = udp_packet_from c"
    and out: "queued (udp_sessions c') + task_out t' \<subseteq># queued (udp_sessions c) + task_out t"
    and "in": "task_in t' \<subseteq># task_in t"
    and ids: "\<And>tx x. session_tasks (udp_sessions c') tx = Some x \<Longrightarrow>
      (\<exists>tx' y. session_tasks (udp_sessions c) tx' = Some y \<and> task_assoc_id y = task_assoc_id x) \<or>
      task_assoc_id x \<in> fst ` set_mset (task_out t)"
  shows "turn_implements T c t (t', woken, c')"
proof (rule turn_implementsI)
  fix pout pin sp assume rel: "conn_implements c (task_out t + pout) (task_in t + pin) sp"
  then have sp: "queued (udp_sessions c) + (task_out t + pout) \<subseteq># sp_out sp" "task_in t + pin \<subseteq># sp_in sp"
    and ok: "spec_ok sp" and old: "\<And>tx y. session_tasks (udp_sessions c) tx = Some y \<Longrightarrow> task_assoc_id y \<in> sp_ids sp"
    by (auto simp: conn_implements_def)
  have "queued (udp_sessions c') + (task_out t' + pout) \<subseteq># sp_out sp"
    using subset_mset.order_trans [OF mset_subset_eq_mono_add [OF out subset_mset.order_refl [of pout], unfolded add.assoc] sp(1)] .
  moreover have "task_in t' + pin \<subseteq># sp_in sp"
    using mset_subset_eq_mono_add [OF "in" subset_mset.order_refl [of pin]] sp(2) by (rule subset_mset.order_trans)
  moreover have "set_mset (task_out t) \<subseteq> set_mset (sp_out sp)"
    using set_mset_mono [OF sp(1)] by auto
  then have "task_assoc_id x \<in> sp_ids sp" if "session_tasks (udp_sessions c') tx = Some x" for tx x
    using ids [OF that] old ok by (fastforce simp: spec_ok_def)
  ultimately have "conn_implements c' (task_out t' + pout) (task_in t' + pin) sp"
    using rel assms(2,3) by (auto simp: conn_implements_def)
  with assms(1) show "simulated T sp (history c) (history c') (conn_implements c' (task_out t' + pout) (task_in t' + pin))"
    by (auto intro: simulated_silent)
qed

lemma turn_silent:
  assumes "history c' = history c" and "is_authenticated (auth c') = is_authenticated (auth c)"
    and "udp_packet_from c = None \<or> udp_packet_from c' = udp_packet_from c"
    and "udp_sessions c' = udp_sessions c" and "task_out t' \<subseteq># task_out t" and "task_in t' \<subseteq># task_in t"
  shows "turn_implements T c t (t', woken, c')"
  by (rule turn_sessions) (use assms in \<open>auto intro: mset_subset_eq_mono_add\<close>)

text \<open>Turns that add an event.\<close>

lemma turn_event:
  assumes "history c' = e # history c"
    and "\<And>pout pin sp. conn_implements c (task_out t + pout) (task_in t + pin) sp \<Longrightarrow>
      \<exists>sp'. spec_step T e sp = Some sp' \<and> conn_implements c' (task_out t' + pout) (task_in t' + pin) sp'"
  shows "turn_implements T c t (t', woken, c')"
proof (rule turn_implementsI)
  fix pout pin sp assume "conn_implements c (task_out t + pout) (task_in t + pin) sp"
  from assms(2) [OF this]
  show "simulated T sp (history c) (history c') (conn_implements c' (task_out t' + pout) (task_in t' + pin))"
    unfolding assms(1) by (elim exE conjE) (rule simulated_event)
qed

lemma turn_packet_from:
  assumes "is_authenticated (auth c)" and "udp_packet_from c = None \<or> udp_packet_from c = Some k"
    and "task_out t = {#}" and "task_in t = {#}"
  shows "turn_implements T c t (UdpLookup a pkt addr, woken, log_event (PacketFrom k a pkt addr) (c\<lparr>udp_packet_from := Some k\<rparr>))"
proof (rule turn_event)
  fix pout pin sp assume "conn_implements c (task_out t + pout) (task_in t + pin) sp"
  with assms show "\<exists>sp'. spec_step T (PacketFrom k a pkt addr) sp = Some sp' \<and>
      conn_implements (log_event (PacketFrom k a pkt addr) (c\<lparr>udp_packet_from := Some k\<rparr>))
        (task_out (UdpLookup a pkt addr) + pout) (task_in (UdpLookup a pkt addr) + pin) sp'"
    by (auto simp: conn_implements_def log_event_def spec_ok_def)
qed simp

lemma turn_connect:
  assumes "is_authenticated (auth c)" and "task_out t' \<subseteq># task_out t" and "task_in t' \<subseteq># task_in t"
    and "task_out t = {#}" and "task_in t = {#}"
  shows "turn_implements T c t (t', woken, log_event (ConnectTo addr) c)"
  by (rule turn_event) (use assms in \<open>auto simp: conn_implements_def log_event_def\<close>)

lemma turn_dissociated:
  assumes "is_authenticated (auth c)" and "task_out t = {#}" and "task_in t = {#}"
  shows "turn_implements T c t (Finished r, woken,
      log_event (Dissociated a) (c\<lparr>udp_sessions := UdpSessionMap_dissociate a (udp_sessions c)\<rparr>))"
  by (rule turn_event)
    (use assms in \<open>auto simp: conn_implements_def log_event_def UdpSessionMap_dissociate_def queued_def\<close>)

lemma turn_authenticated:
  assumes "d \<in> T" and "task_out t = {#}" and "task_in t = {#}"
  shows "turn_implements T c t (Finished r, woken, log_event (Authenticated d) (c\<lparr>auth := a\<rparr>))"
  by (rule turn_event) (use assms in \<open>auto simp: conn_implements_def log_event_def spec_ok_def\<close>)

lemma turn_packet_to:
  assumes "udp_packet_from c = Some k"
  shows "turn_implements T c (Received a pkt addr) (Finished r, woken, log_event (PacketTo k a pkt addr) c)"
proof (rule turn_event)
  fix pout pin sp
  let ?p = "(a, pkt, addr)" and ?t = "Received a pkt addr" and ?t' = "Finished r"
  assume rel: "conn_implements c (task_out ?t + pout) (task_in ?t + pin) sp"
  then have sub: "add_mset ?p pin \<subseteq># sp_in sp" and ok: "spec_ok sp" by (auto simp: conn_implements_def)
  then have p: "?p \<in># sp_in sp" and pin: "pin \<subseteq># sp_in sp - {#?p#}"
    by (auto simp: insert_subset_eq_iff)
  from ok p have "sp_mode sp \<noteq> None" by (auto simp: spec_ok_def)
  with rel assms have mode: "sp_mode sp = Some k" by (auto simp: conn_implements_def)
  let ?sp = "sp\<lparr>sp_in := sp_in sp - {#?p#}\<rparr>"
  have step: "spec_step T (PacketTo k a pkt addr) sp = Some ?sp" using mode p by simp
  from rel pin spec_ok_step [OF step ok] mode
  have "conn_implements (log_event (PacketTo k a pkt addr) c) (task_out ?t' + pout) (task_in ?t' + pin) ?sp"
    by (auto simp: conn_implements_def log_event_def)
  with step show "\<exists>sp'. spec_step T (PacketTo k a pkt addr) sp = Some sp' \<and>
      conn_implements (log_event (PacketTo k a pkt addr) c) (task_out ?t' + pout) (task_in ?t' + pin) sp'" by blast
qed simp

section \<open>The tasks' turns\<close>

lemma sim_uni_stream: "token c = T \<Longrightarrow> turn_implements T c (UniRead stream) (process_uni_stream L stream c)"
  by (auto simp: process_uni_stream_def wake_def Let_def set_authenticated_def controller_close_def
      intro!: turn_silent turn_authenticated split: outcome.split Command.split)

lemma sim_bi_stream: "turn_implements T c (BiRead send recv) (process_bi_stream L send recv c)"
  by (auto simp: process_bi_stream_def intro!: turn_silent split: outcome.split)

lemma sim_datagram: "turn_implements T c (DatagramRead dgram) (process_datagram L dgram c)"
  by (auto simp: process_datagram_def Let_def intro!: turn_silent split: outcome.split)

lemma sim_bi_stream_authed:
  assumes "b \<longrightarrow> is_authenticated (auth c)"
  shows "turn_implements T c (BiAwait w cmd send recv) (process_bi_stream_authed b cmd send recv c)"
  using assms
  by (auto simp: process_bi_stream_authed_def intro!: turn_silent turn_connect split: Command.split)

lemma sim_received: "turn_implements T c (Received a pkt addr) (process_received_udp_packet L open_uni send_datagram a pkt addr c)"
proof (cases "udp_packet_from c")
  case (Some k)
  then show ?thesis
    by (cases k) (auto simp: process_received_udp_packet_def UdpPacketFrom_check_def
        intro!: turn_silent turn_packet_to split: outcome.split)
qed (auto simp: process_received_udp_packet_def UdpPacketFrom_check_def intro: turn_silent)

context server_env
begin

lemma sim_uni_stream_authed:
  assumes "b \<longrightarrow> is_authenticated (auth c)"
  shows "turn_implements T c (UniAwait w cmd stream) (process_uni_stream_authed L b cmd stream c)"
  using assms
  by (auto simp: process_uni_stream_authed_def task_dissociate_def uni_stream_cell Let_def
      intro!: turn_silent turn_dissociated turn_packet_from split: Command.split outcome.split option.split)

lemma sim_datagram_authed:
  assumes "b \<longrightarrow> is_authenticated (auth c)"
  shows "turn_implements T c (DatagramAwait w cmd n dgram) (process_datagram_authed L b cmd n dgram c)"
  using assms
  by (auto simp: process_datagram_authed_def datagram_cell Let_def slice_from_def
      intro!: turn_silent turn_packet_from split: Command.split option.split)

lemma sim_await:
  assumes "await_authenticated i w waiting resume c = Some r"
    and "\<And>b. b \<longrightarrow> is_authenticated (auth c) \<Longrightarrow> turn_implements T c (waiting w) (resume b c)"
    and "\<And>w. task_out (waiting w) = {#} \<and> task_in (waiting w) = {#}"
  shows "turn_implements T c (waiting w) r"
proof (cases w)
  case Polling
  show ?thesis
  proof (cases "poll_flags (auth c)")
    case (Ready b)
    then have "b \<longrightarrow> is_authenticated (auth c)" by (auto simp: poll_flags_def split: if_splits)
    from assms(2) [OF this] Ready Polling assms(1) show ?thesis by (simp add: await_authenticated_def)
  qed (use Polling assms(1,3) in \<open>auto simp: await_authenticated_def intro!: turn_silent\<close>)
next
  case Registering
  with assms(1,3) show ?thesis
    by (auto simp: await_authenticated_def poll_register_def intro!: turn_silent)
qed (use assms(1) in \<open>simp add: await_authenticated_def\<close>)

lemma sim_udp_turn:
  assumes t: "task_ok c t" and r: "task_turn L i t c = Some r"
    and "t = UdpLookup a pkt addr \<or> t = UdpInsert a tx pkt addr \<or> t = UdpPush a tx pkt addr"
  shows "turn_implements T c t r"
  using assms(3)
proof (elim disjE)
  assume "t = UdpLookup a pkt addr"
  with r show ?thesis by (auto intro!: turn_silent split: option.splits)
next
  assume "t = UdpInsert a tx pkt addr"
  with r show ?thesis
    by (auto intro!: turn_sessions) (auto simp: send_insert_def)
next
  assume t': "t = UdpPush a tx pkt addr"
  then have "queued (send_push tx (pkt, addr) (udp_sessions c)) \<subseteq># add_mset (a, pkt, addr) (queued (udp_sessions c))"
    using t by (auto intro: queued_push)
  moreover have "\<exists>tx'' y. session_tasks (udp_sessions c) tx'' = Some y \<and> task_assoc_id y = task_assoc_id x"
    if "session_tasks (send_push tx (pkt, addr) (udp_sessions c)) tx' = Some x" for tx' x
    using that by (cases "session_tasks (udp_sessions c) tx") (force simp: send_push_def split: if_splits)+
  ultimately show ?thesis using r t' by (auto intro!: turn_sessions split: if_splits)
qed

lemma sim_task_turn:
  assumes c: "token c = T" and t: "task_ok c t" and r: "task_turn L i t c = Some r"
  shows "turn_implements T c t r"
proof (cases t)
  case (UniAwait w cmd stream)
  from r [unfolded UniAwait task_turn.simps] show ?thesis
    unfolding UniAwait by (rule sim_await) (simp_all add: sim_uni_stream_authed)
next
  case (BiAwait w cmd send recv)
  from r [unfolded BiAwait task_turn.simps] show ?thesis
    unfolding BiAwait by (rule sim_await) (simp_all add: sim_bi_stream_authed)
next
  case (DatagramAwait w cmd n dgram)
  from r [unfolded DatagramAwait task_turn.simps] show ?thesis
    unfolding DatagramAwait by (rule sim_await) (simp_all add: sim_datagram_authed)
qed (use r sim_uni_stream [OF c] sim_bi_stream sim_datagram sim_udp_turn [OF t r] in auto)

end

lemma sim_bind_turn:
  assumes "bind_turn bound t c = Some r"
  shows "turn_implements T c t r"
proof -
  from assms obtain a pkt addr where t: "t = UdpBind a pkt addr" by (cases t) (auto simp: bind_turn_def)
  show ?thesis
  proof (cases "UdpSession_new bound a (udp_sessions c)")
    case (Ok p)
    then obtain tx m where p: "UdpSession_new bound a (udp_sessions c) = Ok (tx, m)" by (cases p) auto
    have ids: "(\<exists>tx'' y. session_tasks (udp_sessions c) tx'' = Some y \<and> task_assoc_id y = task_assoc_id x) \<or>
        task_assoc_id x = a" if "session_tasks m tx' = Some x" for tx' x
    proof (cases "tx' = next_handle (udp_sessions c)")
      case False
      with that p have "session_tasks (udp_sessions c) tx' = Some x"
        by (auto simp: UdpSession_new_def outcome_simps Let_def)
      then show ?thesis by blast
    qed (use that p in \<open>auto simp: UdpSession_new_def outcome_simps Let_def\<close>)
    have "r = (UdpInsert a tx pkt addr, [], c\<lparr>udp_sessions := m\<rparr>)"
      using assms t p by (simp add: bind_turn_def)
    moreover have "turn_implements T c t (UdpInsert a tx pkt addr, [], c\<lparr>udp_sessions := m\<rparr>)"
      by (rule turn_sessions) (use t queued_new [OF p] ids in simp_all)
    ultimately show ?thesis by simp
  qed (use assms t in \<open>auto simp: bind_turn_def intro!: turn_silent\<close>)
qed

lemma sim_relay_turn: "relay_turn L lookup_host tcp_connect copy t c = Some r \<Longrightarrow> turn_implements T c t r"
  by (cases t) (auto simp: relay_turn_def intro!: turn_silent split: outcome.splits)

lemma sim_send_back_turn: "send_back_turn L open_uni send_datagram t c = Some r \<Longrightarrow> turn_implements T c t r"
  by (cases t) (auto simp: send_back_turn_def sim_received)

section \<open>The connection implements the specification\<close>

definition server_implements :: "('rs, 'ss) server \<Rightarrow> spec \<Rightarrow> bool" where
  "server_implements s sp \<longleftrightarrow>
     conn_implements (shared s) (held task_out (next_task s) (tasks s))
       (held task_in (next_task s) (tasks s) + mset (recv_pkts s)) sp"

definition step_implements :: "bytes set \<Rightarrow> ('rs, 'ss) server \<Rightarrow> ('rs, 'ss) server \<Rightarrow> bool" where
  "step_implements T s s' \<longleftrightarrow>
     (\<forall>sp. server_implements s sp \<longrightarrow>
        simulated T sp (history (shared s)) (history (shared s')) (server_implements s'))"

lemma step_silent:
  "history (shared s') = history (shared s) \<Longrightarrow> (\<And>sp. server_implements s sp \<Longrightarrow> server_implements s' sp) \<Longrightarrow>
   step_implements T s s'"
  by (simp add: step_implements_def simulated_silent)

lemma conn_implements_result [simp]:
  "conn_implements (spawned_result t c) pout pin sp \<longleftrightarrow> conn_implements c pout pin sp"
  "history (spawned_result t c) = history c"
  by (auto simp: spawned_result_def controller_close_def conn_implements_def split: task.split outcome.split)

lemma sim_end_turn:
  assumes t: "tasks s i = Some t" and i: "i < next_task s" and r: "turn_implements T (shared s) t r"
  shows "step_implements T s (end_turn i r s)"
  unfolding step_implements_def
proof (intro allI impI)
  fix sp assume rel: "server_implements s sp"
  obtain t' woken c where r': "r = (t', woken, c)" by (cases r)
  let ?n = "next_task s" and ?rest = "(tasks s)(i := None)"
  let ?out = "held task_out ?n ?rest" and ?in = "held task_in ?n ?rest + mset (recv_pkts s)"
  have "conn_implements (shared s) (task_out t + ?out) (task_in t + ?in) sp"
    using rel t held_split [OF i, of _ "tasks s"] by (simp add: server_implements_def add.assoc)
  with r have "simulated T sp (history (shared s)) (history c) (conn_implements c (task_out t' + ?out) (task_in t' + ?in))"
    by (simp add: turn_implements_def r')
  moreover have "server_implements (end_turn i r s) sp' \<longleftrightarrow> conn_implements c (task_out t' + ?out) (task_in t' + ?in) sp'" for sp'
    by (simp add: end_turn_def r' server_implements_def held_update [OF i] add.assoc)
  moreover have "history (shared (end_turn i r s)) = history c" by (simp add: end_turn_def r')
  ultimately show "simulated T sp (history (shared s)) (history (shared (end_turn i r s))) (server_implements (end_turn i r s))"
    by (auto elim: simulated_mono)
qed

lemma sim_take_turn:
  assumes ok: "server_ok T s" and s': "take_turn i turn s = Some s'"
    and turn: "\<And>t r. task_ok (shared s) t \<Longrightarrow> turn t (shared s) = Some r \<Longrightarrow> turn_implements T (shared s) t r"
  shows "step_implements T s s'"
proof -
  from s' obtain t r where t: "tasks s i = Some t" and r: "turn t (shared s) = Some r" and "s' = end_turn i r s"
    by (auto simp: take_turn_def split: option.splits)
  moreover have "i < next_task s" "task_ok (shared s) t" using ok t by (auto simp: server_ok_def tasks_ok_def)
  ultimately show ?thesis using sim_end_turn [OF t _ turn [OF _ r]] by simp
qed

lemma server_implements_spawn:
  assumes "task_out t = {#}"
  shows "server_implements (spawn t s) sp \<longleftrightarrow>
    conn_implements (shared s) (held task_out (next_task s) (tasks s))
      (task_in t + held task_in (next_task s) (tasks s) + mset (recv_pkts s)) sp"
  using assms by (simp add: server_implements_def spawn_def held_Suc)

lemma sim_accept:
  "listen_uni_streams stream s = Some s' \<Longrightarrow> step_implements T s s'"
  "listen_bi_streams send recv s = Some s' \<Longrightarrow> step_implements T s s'"
  "listen_datagrams dgram s = Some s' \<Longrightarrow> step_implements T s s'"
  by (auto simp: listen_uni_streams_def listen_bi_streams_def listen_datagrams_def server_implements_spawn
      intro!: step_silent split: if_splits)
    (simp_all add: server_implements_def spawn_def)

lemma sim_accept_received: "listen_received_udp_packet s = Some s' \<Longrightarrow> step_implements T s s'"
  by (auto simp: listen_received_udp_packet_def server_implements_spawn
      intro!: step_silent split: if_splits list.splits)
    (simp_all add: server_implements_def spawn_def)

lemma conn_implements_auth:
  "is_authenticated a = is_authenticated (auth c) \<Longrightarrow> conn_implements (c\<lparr>auth := a\<rparr>) pout pin sp \<longleftrightarrow> conn_implements c pout pin sp"
  by (simp add: conn_implements_def)

lemma conn_implements_close [simp]: "conn_implements (controller_close err c) pout pin sp \<longleftrightarrow> conn_implements c pout pin sp"
  by (simp add: conn_implements_def controller_close_def)

lemma sim_timer:
  "timer_poll s = Some s' \<Longrightarrow> step_implements T s s'"
  "timer_elapsed s = Some s' \<Longrightarrow> step_implements T s s'"
  "listener_fails s = Some s' \<Longrightarrow> step_implements T s s'"
  "handle_closed s = Some s' \<Longrightarrow> step_implements T s s'"
  by (auto simp: timer_poll_def timer_elapsed_def listener_fails_def handle_closed_def Let_def wake_def
      poll_register_def server_implements_def conn_implements_auth controller_close_def
      intro!: step_silent split: if_splits poll.splits prod.splits)
    (auto simp: conn_implements_def)

lemma implements_fewer_queued:
  assumes "server_implements s sp" and "queued m \<subseteq># queued (udp_sessions (shared s))"
    and "\<And>tx x. session_tasks m tx = Some x \<Longrightarrow>
      \<exists>y. session_tasks (udp_sessions (shared s)) tx = Some y \<and> task_assoc_id y = task_assoc_id x"
  shows "server_implements (set_sessions m s) sp"
proof -
  let ?out = "held task_out (next_task s) (tasks s)"
  have "queued m + ?out \<subseteq># sp_out sp"
    using assms(1) subset_mset.order_trans [OF mset_subset_eq_mono_add [OF assms(2) subset_mset.order_refl]]
    by (simp add: server_implements_def conn_implements_def)
  moreover have "task_assoc_id x \<in> sp_ids sp" if "session_tasks m tx = Some x" for tx x
  proof -
    from assms(3) [OF that] obtain y where "session_tasks (udp_sessions (shared s)) tx = Some y"
      and "task_assoc_id x = task_assoc_id y" by auto
    with assms(1) show ?thesis by (simp add: server_implements_def conn_implements_def)
  qed
  ultimately show ?thesis
    using assms(1) by (simp add: server_implements_def conn_implements_def set_sessions_def)
qed

lemma sim_session_returns:
  assumes "server_ok T s" and "session_tasks (udp_sessions (shared s)) tx \<noteq> None"
  shows "step_implements T s (session_returns tx s)"
proof -
  have "tx < next_handle (udp_sessions (shared s))"
    using assms by (auto simp: server_ok_def conn_ok_def sessions_ok_def)
  then have "server_implements (session_returns tx s) sp" if "server_implements s sp" for sp
    unfolding session_returns_def using that
    by (intro implements_fewer_queued queued_returns) (auto split: if_splits)
  then show ?thesis by (intro step_silent) (simp_all add: session_returns_def set_sessions_def)
qed

lemma sim_session_send:
  assumes ok: "server_ok T s" and s': "session_send tx answer s = Some s'"
  shows "step_implements T s s'"
proof -
  let ?m = "udp_sessions (shared s)"
  from s' obtain t pkt addr rest where t: "session_tasks ?m tx = Some t" and q: "send_queue t = (pkt, addr) # rest"
    by (auto simp: session_send_def neq_Nil_conv split: option.splits if_splits)
  have tx: "tx < next_handle ?m" using ok t by (auto simp: server_ok_def conn_ok_def sessions_ok_def)
  show ?thesis
  proof (cases answer)
    case (Inl e)
    with s' t q have "s' = session_returns tx s"
      by (simp add: session_send_def listen_send_packet_def session_returns_def)
    with sim_session_returns [OF ok] t show ?thesis by simp
  next
    case (Inr u)
    let ?p = "(task_assoc_id t, pkt, addr)" and ?e = "SocketSent (task_assoc_id t) pkt addr"
    let ?m' = "?m\<lparr>session_tasks := (session_tasks ?m)(tx \<mapsto> t\<lparr>send_queue := rest\<rparr>)\<rparr>"
    have s1: "s' = set_sessions ?m' (log_server ?e s)"
      using s' t q Inr by (simp add: session_send_def listen_send_packet_def)
    have "simulated T sp (history (shared s)) (history (shared s')) (server_implements s')"
      if rel: "server_implements s sp" for sp
    proof (unfold s1, simp add: set_sessions_def log_server_def, rule simulated_event)
      have sub: "add_mset ?p (queued ?m' + held task_out (next_task s) (tasks s)) \<subseteq># sp_out sp"
        using rel queued_sent [OF t q tx] by (simp add: server_implements_def conn_implements_def)
      then have p: "?p \<in># sp_out sp" and out: "queued ?m' + held task_out (next_task s) (tasks s) \<subseteq># sp_out sp - {#?p#}"
        by (auto simp: insert_subset_eq_iff)
      then show step: "spec_step T ?e sp = Some (sp\<lparr>sp_out := sp_out sp - {#?p#}\<rparr>)" by simp
      have "spec_ok (sp\<lparr>sp_out := sp_out sp - {#?p#}\<rparr>)"
        using spec_ok_step [OF step] rel by (simp add: server_implements_def conn_implements_def)
      moreover have "task_assoc_id t \<in> sp_ids sp"
        using rel t by (auto simp: server_implements_def conn_implements_def)
      ultimately show "server_implements (s\<lparr>shared := log_event ?e (shared s)\<lparr>udp_sessions := ?m'\<rparr>\<rparr>)
          (sp\<lparr>sp_out := sp_out sp - {#?p#}\<rparr>)"
        using rel out by (auto simp: server_implements_def conn_implements_def log_event_def)
    qed
    then show ?thesis by (simp add: step_implements_def)
  qed
qed

lemma sim_session_receive:
  assumes s': "session_receive tx received s = Some s'"
  shows "step_implements T s s'"
proof -
  from s' obtain t where t: "session_tasks (udp_sessions (shared s)) tx = Some t"
    by (auto simp: session_receive_def split: option.splits)
  obtain buf len addr where r: "received = (buf, len, addr)" by (cases received)
  let ?a = "task_assoc_id t" and ?pkt = "take len buf" and ?ad = "SocketAddress addr"
  let ?s = "log_server (SocketReceived ?a ?pkt ?ad) (s\<lparr>recv_pkts := [(?a, ?pkt, ?ad)]\<rparr>)"
  from s' t r have cases: "s' = s \<or> recv_pkts s = [] \<and> s' = ?s"
    by (auto simp: session_receive_def listen_receive_packet_def split: if_splits)
  have "simulated T sp (history (shared s)) (history (shared ?s)) (server_implements ?s)"
    if rel: "server_implements s sp" and "recv_pkts s = []" for sp
  proof (simp add: log_server_def, rule simulated_event)
    have a: "?a \<in> sp_ids sp" using rel t by (auto simp: server_implements_def conn_implements_def)
    let ?sp = "sp\<lparr>sp_in := add_mset (?a, ?pkt, ?ad) (sp_in sp)\<rparr>"
    from a show step: "spec_step T (SocketReceived ?a ?pkt ?ad) sp = Some ?sp" by simp
    have "spec_ok ?sp" using spec_ok_step [OF step] rel by (simp add: server_implements_def conn_implements_def)
    with rel that(2) show "server_implements (s\<lparr>recv_pkts := [(?a, ?pkt, ?ad)],
        shared := log_event (SocketReceived ?a ?pkt ?ad) (shared s)\<rparr>) ?sp"
      by (auto simp: server_implements_def conn_implements_def log_event_def)
  qed
  with cases show ?thesis by (auto simp: step_implements_def intro: simulated_silent)
qed

context server_env
begin

lemma sim_step:
  assumes ok: "server_ok T s" and l: "step L l s = Some s'"
  shows "step_implements T s s'"
proof -
  have tok: "token (shared s) = T" using ok by (simp add: server_ok_def conn_ok_def)
  show ?thesis
  proof (cases l)
    case (Run i)
    with l show ?thesis by (auto intro: sim_take_turn [OF ok] sim_task_turn [OF tok])
  next
    case (Bound i bound)
    with l show ?thesis by (auto intro: sim_take_turn [OF ok] sim_bind_turn)
  next
    case (Relay i lookup_host tcp_connect copy)
    with l show ?thesis by (auto intro: sim_take_turn [OF ok] sim_relay_turn)
  next
    case (SendBack i open_uni send_datagram)
    with l show ?thesis by (auto intro: sim_take_turn [OF ok] sim_send_back_turn)
  next
    case (SocketSend tx answer)
    with l show ?thesis by (auto intro: sim_session_send [OF ok])
  next
    case (SocketReceive tx received)
    with l show ?thesis by (auto intro: sim_session_receive)
  next
    case (SocketFails tx)
    with l sim_session_returns [OF ok] show ?thesis by (auto split: if_splits)
  next
    case (SessionOver tx)
    with l sim_session_returns [OF ok] show ?thesis by (auto split: if_splits option.splits)
  qed (use l in \<open>auto intro: sim_accept sim_accept_received sim_timer\<close>)
qed

lemma reachable_implements:
  assumes "reachable L T n s"
  shows "\<exists>sp. spec_run T (rev (history (shared s))) spec_init = Some sp \<and> server_implements s sp"
  using assms
proof (induction rule: reachable.induct)
  case init
  show ?case
    by (simp add: handle_init_def server_implements_def conn_implements_def spec_init_def spec_ok_def
        UdpSessionMap_new_def queued_def IsAuthenticated_new_def UdpPacketFrom_new_def)
next
  case (step s l s')
  then obtain sp where sp: "spec_run T (rev (history (shared s))) spec_init = Some sp" "server_implements s sp" by blast
  from sim_step [OF reachable_ok [OF step.hyps(1)] step.hyps(2)] sp(2)
  obtain new sp' where "history (shared s') = new @ history (shared s)" "spec_run T (rev new) sp = Some sp'"
    "server_implements s' sp'"
    by (auto simp: step_implements_def simulated_def)
  with sp(1) show ?case by (auto simp: spec_run_append)
qed

end

section \<open>Properties\<close>

text \<open>
  C4: A connection implements the specification: what it does, in every interleaving of its tasks,
  is a trace of the machine that has no tasks. In particular every packet is relayed at most once:
  a socket sends a packet for an id to an address no more often than the client sent it, and the
  client is sent one no more often than a socket received it.
\<close>

theorem server_refines_spec:
  assumes env: "server_env L content sent" and s: "reachable L T n s"
  shows "spec_run T (rev (history (shared s))) spec_init \<noteq> None \<and>
    length (filter ((=) (SocketSent a pkt addr)) (history (shared s))) \<le> from_client_count (history (shared s)) (a, pkt, addr) \<and>
    to_client_count (history (shared s)) (a, pkt, addr) \<le> length (filter ((=) (SocketReceived a pkt addr)) (history (shared s)))"
proof -
  obtain sp where run: "spec_run T (rev (history (shared s))) spec_init = Some sp"
    using server_env.reachable_implements [OF env s] by blast
  have "sp_out spec_init = {#}" "sp_in spec_init = {#}" by (simp_all add: spec_init_def)
  with spec_run_count [OF run, of a pkt addr] run show ?thesis
    by (auto simp: from_client_count_def to_client_count_def simp flip: rev_filter)
qed

theorem server_refines_spec_witness:
  "spec_run {demo_token} (rev (history (shared demo_end))) spec_init \<noteq> None \<and>
   from_client_count (history (shared demo_end)) (5, [7, 8], demo_target) = 1"
  using server_refines_spec [OF mem.server_env_axioms demo_end_reachable]
  by (simp add: demo_end_history from_client_count_def)

end
