(* ===== verification/Server_Shutdown.thy ===== *)
theory Server_Shutdown
  imports Server_Safety
begin

text \<open>
  What is left of a connection that has ended (\<open>Connection::handle\<close> of
  \<open>server/src/connection/mod.rs\<close>, \<open>UdpSession\<close> of \<open>udp.rs\<close>). The tasks of the UDP sessions are not
  told that the connection is over: each of them ends because the sender of its channel is dropped,
  which happens when the session table goes, with the last clone of the connection.
\<close>

section \<open>A connection without tasks\<close>

definition abandoned :: "('rs, 'ss) server \<Rightarrow> bool" where
  "abandoned s \<longleftrightarrow> phase s \<noteq> Listening \<and> (\<forall>i t. tasks s i = Some t \<longrightarrow> is_finished t)"

abbreviation open_sessions :: "('rs, 'ss) server \<Rightarrow> nat \<rightharpoonup> session_task" where
  "open_sessions s \<equiv> session_tasks (udp_sessions (shared s))"

fun session_turn :: "nat \<Rightarrow> ('rs, 'ss) label \<Rightarrow> bool" where
  "session_turn tx (SocketSend tx' answer) \<longleftrightarrow> tx' = tx"
| "session_turn tx (SocketFails tx') \<longleftrightarrow> tx' = tx"
| "session_turn tx (SessionOver tx') \<longleftrightarrow> tx' = tx"
| "session_turn tx _ \<longleftrightarrow> False"

definition session_left :: "(nat \<rightharpoonup> session_task) \<Rightarrow> nat \<Rightarrow> nat" where
  "session_left m tx = (case m tx of None \<Rightarrow> 0 | Some t \<Rightarrow> Suc (length (send_queue t)))"

lemma finished_unpark [simp]: "is_finished (unpark t) = is_finished t"
  by (cases t rule: unpark.cases) auto

lemma finished_turns:
  assumes "is_finished t"
  shows "task_turn L i t c = None" "bind_turn bound t c = None" "relay_turn L lookup_host tcp_connect copy t c = None"
    "send_back_turn L open_uni send_datagram t c = None" "\<not> holds_sender tx t"
  using assms by (cases t; simp add: bind_turn_def relay_turn_def send_back_turn_def)+

lemma table_dropped:
  assumes "server_ok T s" and "\<not> table_alive s"
  shows "abandoned s"
proof -
  have "is_finished t" if "tasks s i = Some t" for i t
  proof -
    have "i < next_task s" using assms(1) that by (auto simp: server_ok_def tasks_ok_def)
    with assms(2) that show ?thesis by (auto simp: table_alive_def list_ex_iff dest!: bspec [of _ _ i])
  qed
  with assms(2) show ?thesis by (simp add: table_alive_def abandoned_def)
qed

lemma abandoned_no_turn:
  assumes "abandoned s" and "\<And>t c. is_finished t \<Longrightarrow> turn t c = None"
  shows "take_turn i turn s = None"
  using assms by (auto simp: take_turn_def abandoned_def split: option.split)

lemma abandoned_senders_gone:
  assumes "abandoned s"
  shows "\<not> sender_alive tx t s"
  using assms finished_turns(5)
  by (auto simp: sender_alive_def table_alive_def abandoned_def list_ex_iff split: option.splits)

text \<open>The steps that are left: a session sends what it holds or ends, and the closed flag is set.\<close>

definition winds_down :: "nat \<Rightarrow> bool \<Rightarrow> ('rs, 'ss) server \<Rightarrow> ('rs, 'ss) server \<Rightarrow> bool" where
  "winds_down tx turn s s' \<longleftrightarrow>
     abandoned s' \<and> dom (open_sessions s') \<subseteq> dom (open_sessions s) \<and>
     session_left (open_sessions s') tx + (if turn then 1 else 0) \<le> session_left (open_sessions s) tx"

lemma winds_down_same:
  "abandoned s \<Longrightarrow> phase s' \<noteq> Listening \<Longrightarrow> udp_sessions (shared s') = udp_sessions (shared s) \<Longrightarrow>
    tasks s' = tasks s \<or> tasks s' = wake_tasks woken (tasks s) \<Longrightarrow> winds_down tx False s s'"
  by (auto simp: winds_down_def abandoned_def wake_tasks_def split: if_splits)

lemma winds_down_returns:
  assumes "abandoned s" and "open_sessions s tx' \<noteq> None"
  shows "winds_down tx (tx' = tx) s (session_returns tx' s)"
  using assms
  by (auto simp: winds_down_def abandoned_def session_returns_def set_sessions_def session_left_def split: if_splits)

lemma winds_down_send:
  assumes "abandoned s" and "session_send tx' answer s = Some s'"
  shows "winds_down tx (tx' = tx) s s'"
proof -
  from assms(2) obtain t p rest where t: "open_sessions s tx' = Some t" "send_queue t = p # rest"
    by (auto simp: session_send_def neq_Nil_conv split: option.splits if_splits)
  show ?thesis
  proof (cases answer)
    case (Inl e)
    with assms(2) t have "s' = session_returns tx' s"
      by (auto simp: session_send_def listen_send_packet_def session_returns_def split: prod.splits)
    with winds_down_returns [OF assms(1)] t show ?thesis by simp
  next
    case (Inr u)
    with assms t show ?thesis
      by (cases p) (auto simp: session_send_def listen_send_packet_def winds_down_def abandoned_def
          set_sessions_def log_server_def log_event_def session_left_def split: if_splits)
  qed
qed

lemma winds_down_step:
  assumes s: "abandoned s" and l: "step L l s = Some s'"
  shows "winds_down tx (session_turn tx l) s s'"
proof -
  have phase: "phase s \<noteq> Listening" using s by (simp add: abandoned_def)
  note idle = abandoned_no_turn [OF s] finished_turns
  show ?thesis
  proof (cases l)
    case (SocketSend tx' answer)
    with l winds_down_send [OF s] show ?thesis by simp
  next
    case (SocketFails tx')
    with l winds_down_returns [OF s] show ?thesis by (auto split: if_splits)
  next
    case (SessionOver tx')
    with l winds_down_returns [OF s] show ?thesis by (auto split: if_splits option.splits)
  next
    case (SocketReceive tx' received)
    with l phase s show ?thesis
      by (auto simp: session_receive_def intro: winds_down_same split: option.splits if_splits)
  next
    case SetClosed
    with l s show ?thesis
      by (auto simp: handle_closed_def intro!: winds_down_same split: if_splits prod.splits)
  qed (use l phase in \<open>auto simp: idle listen_uni_streams_def listen_bi_streams_def listen_datagrams_def
      listen_received_udp_packet_def timer_poll_def timer_elapsed_def listener_fails_def split: list.splits prod.splits\<close>)
qed

lemma winds_down_run:
  "abandoned s \<Longrightarrow> run L ls s = Some s' \<Longrightarrow> abandoned s' \<and> dom (open_sessions s') \<subseteq> dom (open_sessions s) \<and>
    session_left (open_sessions s') tx + length (filter (session_turn tx) ls) \<le> session_left (open_sessions s) tx"
proof (induction ls arbitrary: s)
  case (Cons l ls)
  then obtain s1 where 1: "step L l s = Some s1" and 2: "run L ls s1 = Some s'" by (auto split: option.splits)
  from winds_down_step [OF Cons.prems(1) 1, of tx] Cons.IH [OF _ 2] show ?case
    by (auto simp: winds_down_def split: if_splits)
qed simp

text \<open>An open session can always go on: it sends, or it ends.\<close>

lemma session_enabled:
  assumes "abandoned s" and "open_sessions s tx = Some t"
  shows "\<exists>l s'. session_turn tx l \<and> step L l s = Some s'"
proof (cases "send_queue t")
  case Nil
  with assms abandoned_senders_gone [OF assms(1)] show ?thesis
    by (intro exI [of _ "SessionOver tx"]) simp
next
  case (Cons p rest)
  with assms(2) show ?thesis
    by (intro exI [of _ "SocketFails tx"]) simp
qed

section \<open>Properties\<close>

text \<open>
  C21: A connection that has ended leaves no socket behind. Once the listeners have returned and the
  tasks have ended, no UDP session is started any more; every session that is still open takes at
  most two more turns of its own (one packet may wait in its channel, then the dropped sender ends
  it), in any interleaving, and it can always take the next one.
\<close>

theorem sessions_end_with_connection:
  assumes env: "server_env L content sent" and s: "reachable L T n s" and over: "\<not> table_alive s"
    and run: "run L ls s = Some s'"
  shows "dom (open_sessions s') \<subseteq> dom (open_sessions s) \<and>
    length (filter (session_turn tx) ls) \<le> 2 \<and>
    (length (filter (session_turn tx) ls) = 2 \<longrightarrow> open_sessions s' tx = None) \<and>
    (open_sessions s' tx = None \<or> (\<exists>l s''. session_turn tx l \<and> step L l s' = Some s''))"
proof -
  have ok: "server_ok T s" using server_env.reachable_ok [OF env s] .
  then have "sessions_ok (udp_sessions (shared s))" by (simp add: server_ok_def conn_ok_def)
  then have bound: "session_left (open_sessions s) tx \<le> 2"
    by (auto simp: session_left_def sessions_ok_def split: option.split)
  have "open_sessions s' tx = None" if "session_left (open_sessions s') tx = 0"
    using that by (simp add: session_left_def split: option.splits)
  with winds_down_run [OF table_dropped [OF ok over] run, of tx] bound session_enabled [of s' tx _ L] show ?thesis
    by (cases "open_sessions s' tx") auto
qed

text \<open>The connection is closed while a packet waits in the channel of a session.\<close>

definition demo_closing :: "(bytes, bytes) label list" where
  "demo_closing = [SocketSend 0 (Inr ()), SetClosed, SessionOver 0]"

definition demo_abandoned :: "(bytes, bytes) server" where
  "demo_abandoned = (case run mem_lib (demo_authenticate @ demo_packet @ [ListenerFails]) demo_start of
     None \<Rightarrow> demo_start | Some s \<Rightarrow> s)"

definition demo_gone :: "(bytes, bytes) server" where
  "demo_gone = (case run mem_lib demo_closing demo_abandoned of None \<Rightarrow> demo_start | Some s \<Rightarrow> s)"

lemma demo_abandoned_reachable: "reachable mem_lib {demo_token} 4 demo_abandoned"
proof -
  have "run mem_lib (demo_authenticate @ demo_packet @ [ListenerFails]) demo_start \<noteq> None" by code_simp
  then have "run mem_lib (demo_authenticate @ demo_packet @ [ListenerFails]) demo_start = Some demo_abandoned"
    by (auto simp: demo_abandoned_def)
  from run_reachable [OF this] reachable.init [of mem_lib "{demo_token}" 4] show ?thesis by (simp add: demo_start_def)
qed

theorem sessions_end_with_connection_witness:
  "open_sessions demo_abandoned 0 \<noteq> None \<and> open_sessions demo_gone 0 = None"
proof -
  have over: "\<not> table_alive demo_abandoned" by code_simp
  have "run mem_lib demo_closing demo_abandoned \<noteq> None" by code_simp
  then have run: "run mem_lib demo_closing demo_abandoned = Some demo_gone" by (auto simp: demo_gone_def)
  have "length (filter (session_turn 0) demo_closing) = 2" by (simp add: demo_closing_def)
  with sessions_end_with_connection [OF mem.server_env_axioms demo_abandoned_reachable over run, of 0]
  have "open_sessions demo_gone 0 = None" by blast
  moreover have "open_sessions demo_abandoned 0 \<noteq> None" by code_simp
  ultimately show ?thesis by blast
qed

end
