(* ===== verification/Rust_Parse.thy ===== *)
theory Rust_Parse
  imports Rust_Std
begin

text \<open>
  The parsers of the Rust standard library that the configuration uses: comparison up to ASCII
  case, \<open>str::parse\<close> for the unsigned integers and for \<open>IpAddr\<close>, and \<open>Duration\<close>.
\<close>

section \<open>Comparison up to case\<close>

definition to_ascii_lowercase :: "char \<Rightarrow> char" where
  "to_ascii_lowercase c =
     (let n = of_char c :: nat in if 65 \<le> n \<and> n \<le> 90 then char_of (n + 32) else c)"

definition eq_ignore_ascii_case :: "string \<Rightarrow> string \<Rightarrow> bool" where
  "eq_ignore_ascii_case s t \<longleftrightarrow> map to_ascii_lowercase s = map to_ascii_lowercase t"

lemma eq_ignore_ascii_case_refl [simp]: "eq_ignore_ascii_case s s"
  by (simp add: eq_ignore_ascii_case_def)

lemma eq_ignore_ascii_case_sym: "eq_ignore_ascii_case s t \<longleftrightarrow> eq_ignore_ascii_case t s"
  by (auto simp: eq_ignore_ascii_case_def)

lemma eq_ignore_ascii_case_trans:
  "eq_ignore_ascii_case s t \<Longrightarrow> eq_ignore_ascii_case s u \<longleftrightarrow> eq_ignore_ascii_case t u"
  by (simp add: eq_ignore_ascii_case_def)

section \<open>Unsigned integers\<close>

datatype ParseIntError = EmptyInt | InvalidDigit | PosOverflow

definition to_digit :: "nat \<Rightarrow> char \<Rightarrow> nat option" where
  "to_digit radix c =
     (let n = of_char c :: nat;
          d = (if 48 \<le> n \<and> n \<le> 57 then n - 48
               else if 97 \<le> n \<and> n \<le> 122 then n - 97 + 10
               else if 65 \<le> n \<and> n \<le> 90 then n - 65 + 10 else radix)
      in if d < radix then Some d else None)"

fun parse_digits :: "nat \<Rightarrow> nat \<Rightarrow> string \<Rightarrow> ParseIntError + nat" where
  "parse_digits bound acc [] = Inr acc"
| "parse_digits bound acc (c # cs) =
     (case to_digit 10 c of
        None \<Rightarrow> Inl InvalidDigit
      | Some d \<Rightarrow>
          if bound < acc * 10 + d then Inl PosOverflow else parse_digits bound (acc * 10 + d) cs)"

text \<open>\<open>from_str_radix(s, 10)\<close> for a type whose largest value is \<open>bound\<close>: one \<open>+\<close> may lead.\<close>

definition parse_uint :: "nat \<Rightarrow> string \<Rightarrow> ParseIntError + nat" where
  "parse_uint bound s =
     (case s of
        [] \<Rightarrow> Inl EmptyInt
      | c # cs \<Rightarrow>
          if (c = CHR ''+'' \<or> c = CHR ''-'') \<and> cs = [] then Inl InvalidDigit
          else if c = CHR ''+'' then parse_digits bound 0 cs
          else parse_digits bound 0 s)"

definition parse_u16 :: "string \<Rightarrow> ParseIntError + u16" where
  "parse_u16 s = map_sum id of_nat (parse_uint (2 ^ 16 - 1) s)"

definition parse_u32 :: "string \<Rightarrow> ParseIntError + u32" where
  "parse_u32 s = map_sum id of_nat (parse_uint (2 ^ 32 - 1) s)"

definition parse_u64 :: "string \<Rightarrow> ParseIntError + u64" where
  "parse_u64 s = map_sum id of_nat (parse_uint (2 ^ 64 - 1) s)"

definition parse_usize :: "string \<Rightarrow> ParseIntError + usize" where
  "parse_usize s = parse_uint (2 ^ 64 - 1) s"

lemma to_digit_digit_char: "d < 10 \<Longrightarrow> to_digit 10 (digit_char d) = Some d"
  by (simp add: to_digit_def digit_char_def)

lemma parse_digits_append:
  "parse_digits bound acc (s @ t) =
     (case parse_digits bound acc s of Inl e \<Rightarrow> Inl e | Inr n \<Rightarrow> parse_digits bound n t)"
  by (induction bound acc s rule: parse_digits.induct) (auto split: option.split)

lemma parse_digits_show:
  "parse_digits bound 0 (show_nat n) = (if n \<le> bound then Inr n else Inl PosOverflow)"
proof (induction n rule: show_nat.induct)
  case (1 n)
  show ?case
  proof (cases "n < 10")
    case True
    then show ?thesis by (subst show_nat.simps) (simp add: to_digit_digit_char)
  next
    case False
    have "n div 10 \<le> bound" if "n \<le> bound" using that by (meson div_le_dividend le_trans)
    with False 1 show ?thesis
      by (subst show_nat.simps) (auto simp: parse_digits_append to_digit_digit_char)
  qed
qed

lemma show_nat_Cons: "\<exists>d ds. show_nat n = digit_char d # ds \<and> d < 10"
proof (induction n rule: show_nat.induct)
  case (1 n)
  show ?case
  proof (cases "n < 10")
    case False
    with 1 show ?thesis by (subst show_nat.simps) auto
  qed (subst show_nat.simps, auto)
qed

lemma digit_char_not_sign: "d < 10 \<Longrightarrow> digit_char d \<noteq> CHR ''+'' \<and> digit_char d \<noteq> CHR ''-''"
proof -
  assume "d < 10"
  then have "to_digit 10 (digit_char d) \<noteq> None" by (simp add: to_digit_digit_char)
  then show ?thesis by (auto simp: to_digit_def)
qed

text \<open>What is printed is parsed back, and what does not fit is refused.\<close>

lemma parse_uint_show: "parse_uint bound (show_nat n) = (if n \<le> bound then Inr n else Inl PosOverflow)"
proof -
  obtain d ds where "show_nat n = digit_char d # ds" and "d < 10" using show_nat_Cons by blast
  then show ?thesis
    using parse_digits_show [of bound n] digit_char_not_sign [of d] by (simp add: parse_uint_def)
qed

lemma parse_digits_bound: "parse_digits bound acc s = Inr n \<Longrightarrow> acc \<le> bound \<Longrightarrow> n \<le> bound"
  by (induction bound acc s rule: parse_digits.induct) (auto split: option.splits if_splits)

lemma parse_uint_bound: "parse_uint bound s = Inr n \<Longrightarrow> n \<le> bound"
  using parse_digits_bound [of bound 0] by (auto simp: parse_uint_def simp del: parse_digits.simps split: list.splits if_splits)

section \<open>IP addresses\<close>

text \<open>
  \<open>core::net::parser\<close>. A reader takes the text that is left and returns a value and what it
  leaves; \<open>None\<close> leaves everything (each reader of the library runs atomically).
\<close>

type_synonym 'a text_reader = "string \<Rightarrow> ('a \<times> string) option"

fun digit_run :: "nat \<Rightarrow> string \<Rightarrow> nat list \<times> string" where
  "digit_run radix [] = ([], [])"
| "digit_run radix (c # cs) =
     (case to_digit radix c of
        None \<Rightarrow> ([], c # cs)
      | Some d \<Rightarrow> (case digit_run radix cs of (ds, rest) \<Rightarrow> (d # ds, rest)))"

definition read_number :: "nat \<Rightarrow> nat \<Rightarrow> bool \<Rightarrow> nat \<Rightarrow> nat text_reader" where
  "read_number radix max_digits allow_zero_prefix bound s =
     (case digit_run radix s of (ds, rest) \<Rightarrow>
        let n = foldl (\<lambda>acc d. acc * radix + d) 0 ds in
        if ds = [] \<or> max_digits < length ds \<or> bound < n
          \<or> (\<not> allow_zero_prefix \<and> hd ds = 0 \<and> 1 < length ds)
        then None else Some (n, rest))"

fun read_given_char :: "char \<Rightarrow> unit text_reader" where
  "read_given_char c [] = None"
| "read_given_char c (x # xs) = (if x = c then Some ((), xs) else None)"

definition read_separator :: "char \<Rightarrow> nat \<Rightarrow> 'a text_reader \<Rightarrow> 'a text_reader" where
  "read_separator sep i inner s =
     (if 0 < i then
        (case read_given_char sep s of None \<Rightarrow> None | Some (_, s) \<Rightarrow> inner s)
      else inner s)"

fun read_octets :: "nat \<Rightarrow> nat \<Rightarrow> nat list text_reader" where
  "read_octets i 0 s = Some ([], s)"
| "read_octets i (Suc k) s =
     (case read_separator CHR ''.'' i (read_number 10 3 False 255) s of
        None \<Rightarrow> None
      | Some (n, s) \<Rightarrow>
          (case read_octets (Suc i) k s of None \<Rightarrow> None | Some (ns, s) \<Rightarrow> Some (n # ns, s)))"

definition read_ipv4_addr :: "Ipv4Addr text_reader" where
  "read_ipv4_addr s =
     (case read_octets 0 4 s of
        Some ([a, b, c, d], s) \<Rightarrow> Some (Ipv4Addr (of_nat a) (of_nat b) (of_nat c) (of_nat d), s)
      | _ \<Rightarrow> None)"

text \<open>
  \<open>read_groups\<close> on \<open>k\<close> groups of which \<open>i\<close> are read: the groups, whether they end in an IPv4
  address, and the rest.
\<close>

fun read_groups :: "nat \<Rightarrow> nat \<Rightarrow> string \<Rightarrow> u16 list \<times> bool \<times> string" where
  "read_groups i 0 s = ([], False, s)"
| "read_groups i (Suc k) s =
     (case (if 0 < k then read_separator CHR '':'' i read_ipv4_addr s else None) of
        Some (Ipv4Addr a b c d, s) \<Rightarrow> ([of_be16 a b, of_be16 c d], True, s)
      | None \<Rightarrow>
          (case read_separator CHR '':'' i (read_number 16 4 True 65535) s of
             None \<Rightarrow> ([], False, s)
           | Some (n, s) \<Rightarrow>
               (case read_groups (Suc i) k s of (gs, v4, s) \<Rightarrow> (of_nat n # gs, v4, s))))"

fun ipv6_of_groups :: "u16 list \<Rightarrow> Ipv6Addr option" where
  "ipv6_of_groups [a, b, c, d, e, f, g, h] = Some (Ipv6Addr a b c d e f g h)"
| "ipv6_of_groups _ = None"

definition read_ipv6_addr :: "Ipv6Addr text_reader" where
  "read_ipv6_addr s =
     (case read_groups 0 8 s of (head, head_ipv4, s) \<Rightarrow>
        if length head = 8 then map_option (\<lambda>ip. (ip, s)) (ipv6_of_groups head)
        else if head_ipv4 then None
        else
          (case read_given_char CHR '':'' s of
             None \<Rightarrow> None
           | Some (_, s) \<Rightarrow>
               (case read_given_char CHR '':'' s of
                  None \<Rightarrow> None
                | Some (_, s) \<Rightarrow>
                    (case read_groups 0 (8 - (length head + 1)) s of (tail, _, s) \<Rightarrow>
                       map_option (\<lambda>ip. (ip, s))
                         (ipv6_of_groups (head @ replicate (8 - length head - length tail) 0 @ tail))))))"

datatype AddrParseError = AddrParseError

definition parse_IpAddr :: "string \<Rightarrow> AddrParseError + IpAddr" where
  "parse_IpAddr s =
     (case (case read_ipv4_addr s of
              Some (ip, rest) \<Rightarrow> Some (IpV4 ip, rest)
            | None \<Rightarrow> map_option (\<lambda>(ip, rest). (IpV6 ip, rest)) (read_ipv6_addr s)) of
        Some (ip, []) \<Rightarrow> Inr ip
      | _ \<Rightarrow> Inl AddrParseError)"

lemma parse_IpAddr_localhost: "parse_IpAddr ''127.0.0.1'' = Inr (IpV4 Ipv4_LOCALHOST)"
  by code_simp

section \<open>Durations\<close>

text \<open>\<open>std::time::Duration\<close>, in milliseconds.\<close>

datatype Duration = Duration (as_millis: nat)

definition Duration_from_secs :: "u64 \<Rightarrow> Duration" where
  "Duration_from_secs n = Duration (unat n * 1000)"

definition Duration_from_millis :: "u64 \<Rightarrow> Duration" where
  "Duration_from_millis n = Duration (unat n)"

end
