(* ===== verification/Config_Interfaces.thy ===== *)
theory Config_Interfaces
  imports Rust_Parse
begin

text \<open>
  The crates the two configurations read from: \<open>getopts\<close> for the command line, \<open>serde_json\<close>
  for the file, \<open>log\<close>'s level names, \<open>rustls_pemfile\<close> and the file system for certificates, and
  \<open>blake3\<close>. Each is an argument of the model. What is relied on of \<open>getopts\<close> is the locale
  \<open>getopts_contract\<close>; a small parser of long options shows that it can hold. At the end is what the
  two \<open>config.rs\<close> do in the same way.
\<close>

section \<open>Command line\<close>

datatype occur = OptOpt | OptFlag

type_synonym opt_decl = "string \<times> string \<times> occur"

record opt_matches =
  opt_present :: "string \<Rightarrow> bool"
  opt_str :: "string \<Rightarrow> string option"
  opt_strs :: "string \<Rightarrow> string list"
  free :: "string list"

record getopts =
  parse_args :: "opt_decl list \<Rightarrow> string list \<Rightarrow> string + opt_matches"
  usage :: "opt_decl list \<Rightarrow> string \<Rightarrow> string"

text \<open>
  \<open>optopt\<close> declares an option that may be given at most once (a second one fails the parse as
  duplicated); \<open>opt_str\<close> is its argument, \<open>opt_strs\<close> the arguments of all its occurrences.
\<close>

locale getopts_contract =
  fixes go :: getopts
  assumes optopt_once:
      "parse_args go opts args = Inr m \<Longrightarrow> (short, long, OptOpt) \<in> set opts \<Longrightarrow> length (opt_strs m long) \<le> 1"
    and opt_str_strs:
      "parse_args go opts args = Inr m \<Longrightarrow> (short, long, OptOpt) \<in> set opts \<Longrightarrow>
        opt_str m long = (case opt_strs m long of [] \<Rightarrow> None | v # _ \<Rightarrow> Some v)"

fun long_options ::
  "opt_decl list \<Rightarrow> string list \<Rightarrow> string + (string \<times> string option) list \<times> string list" where
  "long_options opts [] = Inr ([], [])"
| "long_options opts (a # rest) =
     (if take 2 a \<noteq> ''--'' then map_sum id (\<lambda>(hits, fr). (hits, a # fr)) (long_options opts rest)
      else
        (case List.find (\<lambda>(_, long, _). long = drop 2 a) opts of
           None \<Rightarrow> Inl (''Unrecognized option: '' @ drop 2 a)
         | Some (_, long, OptFlag) \<Rightarrow>
             map_sum id (\<lambda>(hits, fr). ((long, None) # hits, fr)) (long_options opts rest)
         | Some (_, long, OptOpt) \<Rightarrow>
             (case rest of
                [] \<Rightarrow> Inl (''Argument to option missing: '' @ long)
              | v # rest \<Rightarrow>
                  map_sum id (\<lambda>(hits, fr). ((long, Some v) # hits, fr)) (long_options opts rest))))"

definition values_of :: "(string \<times> string option) list \<Rightarrow> string \<Rightarrow> string list" where
  "values_of hits n = concat (map (\<lambda>(n', v). if n' = n then (case v of None \<Rightarrow> [] | Some x \<Rightarrow> [x]) else []) hits)"

definition matches_of :: "(string \<times> string option) list \<Rightarrow> string list \<Rightarrow> opt_matches" where
  "matches_of hits fr =
     \<lparr>opt_present = \<lambda>n. n \<in> fst ` set hits,
      opt_str = \<lambda>n. (case values_of hits n of [] \<Rightarrow> None | v # _ \<Rightarrow> Some v),
      opt_strs = values_of hits, free = fr\<rparr>"

definition long_parse :: "opt_decl list \<Rightarrow> string list \<Rightarrow> string + opt_matches" where
  "long_parse opts args =
     (case long_options opts args of
        Inl e \<Rightarrow> Inl e
      | Inr (hits, fr) \<Rightarrow>
          (case List.find (\<lambda>(_, long, _). 1 < length (filter (\<lambda>(n, _). n = long) hits)) opts of
             Some (_, long, _) \<Rightarrow> Inl (''Option given more than once: '' @ long)
           | None \<Rightarrow> Inr (matches_of hits fr)))"

definition long_getopts :: getopts where
  "long_getopts = \<lparr>parse_args = long_parse, usage = \<lambda>opts brief. brief\<rparr>"

lemma length_values_of: "length (values_of hits n) \<le> length (filter (\<lambda>(n', _). n' = n) hits)"
  by (induction hits) (auto simp: values_of_def split: option.split)

interpretation longopts: getopts_contract long_getopts
proof
  fix opts args m short long
  assume p: "parse_args long_getopts opts args = Inr m" and o: "(short, long, OptOpt) \<in> set opts"
  from p obtain hits fr where
    none: "List.find (\<lambda>(_, long, _). 1 < length (filter (\<lambda>(n, _). n = long) hits)) opts = None"
    and m: "opt_strs m = values_of hits"
      "opt_str m = (\<lambda>n. case values_of hits n of [] \<Rightarrow> None | v # _ \<Rightarrow> Some v)"
    by (auto simp: long_getopts_def long_parse_def matches_of_def
        split: sum.splits prod.splits option.splits)
  from none o have "length (filter (\<lambda>(n, _). n = long) hits) \<le> 1" by (fastforce simp: find_None_iff)
  with length_values_of [of hits long] m
  show "length (opt_strs m long) \<le> 1"
    and "opt_str m long = (case opt_strs m long of [] \<Rightarrow> None | v # _ \<Rightarrow> Some v)" by simp_all
qed

section \<open>Log levels\<close>

text \<open>\<open>log::LevelFilter\<close>; the parser of its names is the crate's.\<close>

datatype LevelFilter = LevelOff | LevelError | LevelWarn | LevelInfo | LevelDebug | LevelTrace

section \<open>Files and certificates\<close>

text \<open>The items \<open>rustls_pemfile::read_one\<close> yields from a file until it ends or errs.\<close>

datatype pem_item =
    X509Certificate bytes
  | RSAKey bytes
  | PKCS8Key bytes
  | ECKey bytes
  | OtherItem

text \<open>
  \<open>open_pem\<close> is \<open>File::open\<close> followed by the items of the file; \<open>read_file\<close> is \<open>fs::read\<close>.
\<close>

record files =
  open_pem :: "string \<Rightarrow> io_error + pem_item list"
  read_file :: "string \<Rightarrow> io_error + bytes"

fun x509_of :: "pem_item \<Rightarrow> bytes option" where
  "x509_of (X509Certificate cert) = Some cert"
| "x509_of _ = None"

section \<open>Shared by the two configurations\<close>

text \<open>\<open>if let Some(x) = matches.opt_str(name) { field = x.parse()?; }\<close>\<close>

definition override ::
  "opt_matches \<Rightarrow> string \<Rightarrow> (string \<Rightarrow> 'e + 'a) \<Rightarrow> ('e \<Rightarrow> 'f) \<Rightarrow> ('a \<Rightarrow> 'c \<Rightarrow> 'c) \<Rightarrow> 'c
   \<Rightarrow> ('f, 'c) outcome" where
  "override m name parser err upd raw =
     (case opt_str m name of
        None \<Rightarrow> Ok raw
      | Some s \<Rightarrow> and_then (map_err err (returned (parser s))) (\<lambda>v. Ok (upd v raw)))"

text \<open>The messages of \<open>ParseIntError\<close>.\<close>

fun ParseIntError_to_string :: "ParseIntError \<Rightarrow> string" where
  "ParseIntError_to_string EmptyInt = ''cannot parse integer from empty string''"
| "ParseIntError_to_string InvalidDigit = ''invalid digit found in string''"
| "ParseIntError_to_string PosOverflow = ''number too large to fit in target type''"

fun join :: "string \<Rightarrow> string list \<Rightarrow> string" where
  "join sep [] = []"
| "join sep [s] = s"
| "join sep (s # t # ss) = s @ sep @ join sep (t # ss)"

text \<open>The value a setting has: from the command line if it is there, else the base value.\<close>

definition setting :: "opt_matches \<Rightarrow> string \<Rightarrow> (string \<Rightarrow> 'e + 'a) \<Rightarrow> 'a \<Rightarrow> 'a \<Rightarrow> bool" where
  "setting m name parser base v \<longleftrightarrow>
     (case opt_str m name of Some s \<Rightarrow> parser s = Inr v | None \<Rightarrow> v = base)"

lemma override_Ok:
  "override m name parser err upd raw = Ok raw' \<longleftrightarrow>
     (case opt_str m name of None \<Rightarrow> raw' = raw | Some s \<Rightarrow> (\<exists>v. parser s = Inr v \<and> raw' = upd v raw))"
  by (auto simp: override_def outcome_simps split: option.split)

lemma override_setting:
  assumes "override m name parser err upd raw = Ok raw'" and "upd base raw = raw"
  shows "\<exists>v. raw' = upd v raw \<and> setting m name parser base v"
  using assms by (auto simp: override_Ok setting_def split: option.splits)

lemma override_total: "override m name parser err upd raw \<noteq> Panic"
  by (auto simp: override_def outcome_simps split: option.split)

lemma option_or_None [simp]: "option_or x None = x"
  by (cases x) auto

text \<open>
  The serde attributes of the two files' fields: the default of a field that is absent, and
  \<open>deserialize_from_str\<close> for a field that is an enumeration, whose errors become errors of \<open>serde\<close>.
\<close>

definition field_or :: "'a \<Rightarrow> 'a option \<Rightarrow> 'a" where
  "field_or d f = (case f of Some v \<Rightarrow> v | None \<Rightarrow> d)"

definition deserialize_from_str ::
  "('e \<Rightarrow> string) \<Rightarrow> (string \<Rightarrow> 'e + 'a) \<Rightarrow> 'a \<Rightarrow> string option \<Rightarrow> (string, 'a) outcome" where
  "deserialize_from_str custom from_str d f =
     (case f of
        None \<Rightarrow> Ok d
      | Some s \<Rightarrow> map_err custom (returned (from_str s)))"

end
