(* ===== verification/Server_Config.thy ===== *)
theory Server_Config
  imports Config_Interfaces
begin

text \<open>
  \<open>server/src/config.rs\<close> and \<open>server/src/certificate.rs\<close>: the command line and the file give a
  \<open>RawConfig\<close>, from which the server's configuration is made. The lemmas show which setting wins,
  what is refused, that the \<open>unwrap\<close>s of \<open>Config::parse\<close> are safe, and in which unit the
  authentication timeout ends up.
\<close>

section \<open>Certificates\<close>

fun key_of :: "pem_item \<Rightarrow> bytes option" where
  "key_of (RSAKey key) = Some key"
| "key_of (PKCS8Key key) = Some key"
| "key_of (ECKey key) = Some key"
| "key_of _ = None"

definition load_certificates :: "files \<Rightarrow> string \<Rightarrow> (io_error, bytes list) outcome" where
  "load_certificates fs path =
     and_then (returned (open_pem fs path)) (\<lambda>items.
     let certs = List.map_filter x509_of items in
     if certs = [] then and_then (returned (read_file fs path)) (\<lambda>cert. Ok [cert])
     else Ok certs)"

text \<open>The last key of the file wins.\<close>

definition load_private_key :: "files \<Rightarrow> string \<Rightarrow> (io_error, bytes) outcome" where
  "load_private_key fs path =
     and_then (returned (open_pem fs path)) (\<lambda>items.
     let priv_key = foldl (\<lambda>acc item. case key_of item of Some key \<Rightarrow> Some key | None \<Rightarrow> acc) None items in
     case priv_key of Some key \<Rightarrow> Ok key | None \<Rightarrow> returned (read_file fs path))"

section \<open>Raw configuration\<close>

datatype CongestionController = Cubic | NewReno | Bbr

datatype ConfigError =
    Help string
  | Version string
  | ConfigIo string io_error
  | ParseConfigJson string
  | ParseArgument string
  | UnexpectedArguments string
  | MissingOption string
  | ParseInt ParseIntError
  | ParseAddr AddrParseError
  | InvalidCongestionController
  | ParseLogLevel string
  | Rustls string

definition CongestionController_from_str :: "string \<Rightarrow> ConfigError + CongestionController" where
  "CongestionController_from_str s =
     (if eq_ignore_ascii_case s ''cubic'' then Inr Cubic
      else if eq_ignore_ascii_case s ''new_reno'' \<or> eq_ignore_ascii_case s ''newreno'' then Inr NewReno
      else if eq_ignore_ascii_case s ''bbr'' then Inr Bbr
      else Inl InvalidCongestionController)"

definition default_ip :: IpAddr where "default_ip = IpV4 Ipv4_UNSPECIFIED"
definition default_congestion_controller :: CongestionController where
  "default_congestion_controller = Cubic"
definition default_max_idle_time :: u32 where "default_max_idle_time = 15000"
definition default_authentication_timeout :: u64 where "default_authentication_timeout = 1000"
definition default_alpn :: "string list" where "default_alpn = []"
definition default_max_udp_relay_packet_size :: usize where "default_max_udp_relay_packet_size = 1500"
definition default_log_level :: LevelFilter where "default_log_level = LevelInfo"

record RawConfig =
  raw_port :: "u16 option"
  raw_token :: "string list"
  raw_certificate :: "string option"
  raw_private_key :: "string option"
  raw_ip :: IpAddr
  raw_congestion_controller :: CongestionController
  raw_max_idle_time :: u32
  raw_authentication_timeout :: u64
  raw_alpn :: "string list"
  raw_max_udp_relay_packet_size :: usize
  raw_log_level :: LevelFilter

definition RawConfig_default :: RawConfig where
  "RawConfig_default =
     \<lparr>raw_port = None, raw_token = [], raw_certificate = None, raw_private_key = None,
      raw_ip = default_ip, raw_congestion_controller = default_congestion_controller,
      raw_max_idle_time = default_max_idle_time,
      raw_authentication_timeout = default_authentication_timeout, raw_alpn = default_alpn,
      raw_max_udp_relay_packet_size = default_max_udp_relay_packet_size,
      raw_log_level = default_log_level\<rparr>"

section \<open>The configuration file\<close>

text \<open>
  The fields \<open>serde_json\<close> finds in the file, \<open>None\<close> where one is absent. Three of them are options and
  may be absent, \<open>token\<close> has no default and must be there, the others have one.
\<close>

record ServerJson =
  sj_port :: "u16 option"
  sj_token :: "string list option"
  sj_certificate :: "string option"
  sj_private_key :: "string option"
  sj_ip :: "IpAddr option"
  sj_congestion_controller :: "string option"
  sj_max_idle_time :: "u32 option"
  sj_authentication_timeout :: "u64 option"
  sj_alpn :: "string list option"
  sj_max_udp_relay_packet_size :: "usize option"
  sj_log_level :: "LevelFilter option"

definition RawConfig_deserialize ::
  "(ConfigError \<Rightarrow> string) \<Rightarrow> (string \<Rightarrow> string) \<Rightarrow> ServerJson \<Rightarrow> (string, RawConfig) outcome" where
  "RawConfig_deserialize custom missing j =
     and_then (deserialize_from_str custom CongestionController_from_str default_congestion_controller
         (sj_congestion_controller j)) (\<lambda>cc.
     case sj_token j of
       None \<Rightarrow> Err (missing ''token'')
     | Some token \<Rightarrow>
         Ok \<lparr>raw_port = sj_port j, raw_token = token, raw_certificate = sj_certificate j,
             raw_private_key = sj_private_key j, raw_ip = field_or default_ip (sj_ip j),
             raw_congestion_controller = cc,
             raw_max_idle_time = field_or default_max_idle_time (sj_max_idle_time j),
             raw_authentication_timeout = field_or default_authentication_timeout (sj_authentication_timeout j),
             raw_alpn = field_or default_alpn (sj_alpn j),
             raw_max_udp_relay_packet_size =
               field_or default_max_udp_relay_packet_size (sj_max_udp_relay_packet_size j),
             raw_log_level = field_or default_log_level (sj_log_level j)\<rparr>)"

text \<open>
  What the parser calls: \<open>open_file\<close> is \<open>File::open\<close>, \<open>read_json\<close> the reader of \<open>serde_json\<close>,
  \<open>custom_error\<close> and \<open>missing_field\<close> its rendering of a custom error and of an absent field,
  \<open>parse_level\<close> the parser of \<open>log\<close>'s level names.
\<close>

record server_config_env =
  cli :: getopts
  open_file :: "string \<Rightarrow> io_error + string"
  read_json :: "string \<Rightarrow> string + ServerJson"
  custom_error :: "ConfigError \<Rightarrow> string"
  missing_field :: "string \<Rightarrow> string"
  parse_level :: "string \<Rightarrow> string + LevelFilter"
  fs :: files
  single_cert :: "bytes list \<Rightarrow> bytes \<Rightarrow> string + unit"
  blake3_hash :: "bytes \<Rightarrow> bytes"

text \<open>The options; their descriptions and hints only feed the help text.\<close>

definition server_options :: "opt_decl list" where
  "server_options =
     [(''c'', ''config'', OptOpt), ('''', ''port'', OptOpt), ('''', ''token'', OptOpt),
      ('''', ''certificate'', OptOpt), ('''', ''private-key'', OptOpt), ('''', ''ip'', OptOpt),
      ('''', ''congestion-controller'', OptOpt), ('''', ''max-idle-time'', OptOpt),
      ('''', ''authentication-timeout'', OptOpt), ('''', ''alpn'', OptOpt),
      ('''', ''max-udp-relay-packet-size'', OptOpt), ('''', ''log-level'', OptOpt),
      (''v'', ''version'', OptFlag), (''h'', ''help'', OptFlag)]"

definition from_file :: "server_config_env \<Rightarrow> string \<Rightarrow> (ConfigError, RawConfig) outcome" where
  "from_file E path =
     and_then (map_err (ConfigIo path) (returned (open_file E path))) (\<lambda>file.
     map_err ParseConfigJson
       (and_then (returned (read_json E file)) (RawConfig_deserialize (custom_error E) (missing_field E))))"

text \<open>The required settings: from the command line over the file, or from the command line alone.\<close>

definition required_settings ::
  "server_config_env \<Rightarrow> opt_matches \<Rightarrow> (ConfigError, RawConfig) outcome" where
  "required_settings E m =
     (let port = map_option parse_u16 (opt_str m ''port'');
          token = opt_strs m ''token'';
          certificate = opt_str m ''certificate'';
          private_key = opt_str m ''private-key''
      in case opt_str m ''config'' of
        Some path \<Rightarrow>
          and_then (from_file E path) (\<lambda>raw.
          and_then (case port of None \<Rightarrow> Ok None | Some p \<Rightarrow> map_err ParseInt (and_then (returned p) (\<lambda>p. Ok (Some p)))) (\<lambda>port.
          and_then (ok_or (MissingOption ''port'') (option_or port (raw_port raw))) (\<lambda>port.
          let raw = raw\<lparr>raw_port := Some port\<rparr> in
          and_then (if token \<noteq> [] then Ok (raw\<lparr>raw_token := token\<rparr>)
                    else if raw_token raw = [] then Err (MissingOption ''token'') else Ok raw) (\<lambda>raw.
          and_then (ok_or (MissingOption ''certificate'') (option_or certificate (raw_certificate raw))) (\<lambda>certificate.
          let raw = raw\<lparr>raw_certificate := Some certificate\<rparr> in
          and_then (ok_or (MissingOption ''private key'') (option_or private_key (raw_private_key raw))) (\<lambda>private_key.
          Ok (raw\<lparr>raw_private_key := Some private_key\<rparr>)))))))
      | None \<Rightarrow>
          and_then (ok_or (MissingOption ''port'') port) (\<lambda>port.
          and_then (map_err ParseInt (returned port)) (\<lambda>port.
          and_then (if token \<noteq> [] then Ok token else Err (MissingOption ''token'')) (\<lambda>token.
          and_then (ok_or (MissingOption ''certificate'') certificate) (\<lambda>certificate.
          and_then (ok_or (MissingOption ''private key'') private_key) (\<lambda>private_key.
          Ok (RawConfig_default\<lparr>raw_port := Some port, raw_token := token,
              raw_certificate := Some certificate, raw_private_key := Some private_key\<rparr>)))))))"

definition optional_settings ::
  "server_config_env \<Rightarrow> opt_matches \<Rightarrow> RawConfig \<Rightarrow> (ConfigError, RawConfig) outcome" where
  "optional_settings E m raw =
     and_then (override m ''ip'' parse_IpAddr ParseAddr (\<lambda>v r. r\<lparr>raw_ip := v\<rparr>) raw) (\<lambda>raw.
     and_then (override m ''congestion-controller'' CongestionController_from_str id
       (\<lambda>v r. r\<lparr>raw_congestion_controller := v\<rparr>) raw) (\<lambda>raw.
     and_then (override m ''max-idle-time'' parse_u32 ParseInt (\<lambda>v r. r\<lparr>raw_max_idle_time := v\<rparr>) raw) (\<lambda>raw.
     and_then (override m ''authentication-timeout'' parse_u64 ParseInt
       (\<lambda>v r. r\<lparr>raw_authentication_timeout := v\<rparr>) raw) (\<lambda>raw.
     and_then (override m ''max-udp-relay-packet-size'' parse_usize ParseInt
       (\<lambda>v r. r\<lparr>raw_max_udp_relay_packet_size := v\<rparr>) raw) (\<lambda>raw.
     let alpn = opt_strs m ''alpn'';
         raw = (if alpn \<noteq> [] then raw\<lparr>raw_alpn := alpn\<rparr> else raw)
     in override m ''log-level'' (parse_level E) ParseLogLevel (\<lambda>v r. r\<lparr>raw_log_level := v\<rparr>) raw)))))"

definition CARGO_PKG_NAME :: string where "CARGO_PKG_NAME = ''tuic-server''"
definition CARGO_PKG_VERSION :: string where "CARGO_PKG_VERSION = ''0.8.1''"

definition RawConfig_parse ::
  "server_config_env \<Rightarrow> string list \<Rightarrow> (ConfigError, RawConfig) outcome" where
  "RawConfig_parse E args =
     and_then (map_err ParseArgument (returned (parse_args (cli E) server_options (drop 1 args)))) (\<lambda>m.
     if opt_present m ''help'' then Err (Help (usage (cli E) server_options CARGO_PKG_NAME))
     else if opt_present m ''version'' then Err (Version CARGO_PKG_VERSION)
     else if free m \<noteq> [] then Err (UnexpectedArguments (join '', '' (free m)))
     else and_then (required_settings E m) (optional_settings E m))"

section \<open>Configuration\<close>

text \<open>
  The TLS and transport settings that are handed to quinn. The two \<open>unwrap\<close>s on the builder
  (TLS 1.3 with the default cipher suites, \<open>Arc::get_mut\<close> of a configuration just made) are
  the crates' business and not modelled.
\<close>

record ServerConfig =
  tls_certs :: "bytes list"
  tls_key :: bytes
  max_early_data_size :: u32
  alpn_protocols :: "bytes list"
  congestion :: CongestionController
  max_idle_timeout :: u32

record Config =
  server_config :: ServerConfig
  listen_addr :: SocketAddr
  cfg_token :: "bytes set"
  authentication_timeout :: Duration
  max_udp_relay_packet_size :: usize
  log_level :: LevelFilter

definition Config_parse :: "server_config_env \<Rightarrow> string list \<Rightarrow> (ConfigError, Config) outcome" where
  "Config_parse E args =
     and_then (RawConfig_parse E args) (\<lambda>raw.
     and_then (unwrap_option (raw_certificate raw)) (\<lambda>cert_path.
     and_then (map_err (ConfigIo cert_path) (load_certificates (fs E) cert_path)) (\<lambda>certs.
     and_then (unwrap_option (raw_private_key raw)) (\<lambda>priv_key_path.
     and_then (map_err (ConfigIo priv_key_path) (load_private_key (fs E) priv_key_path)) (\<lambda>priv_key.
     and_then (map_err Rustls (returned (single_cert E certs priv_key))) (\<lambda>_.
     let config =
           \<lparr>tls_certs = certs, tls_key = priv_key, max_early_data_size = -1,
            alpn_protocols = map as_bytes (raw_alpn raw),
            congestion = raw_congestion_controller raw,
            max_idle_timeout = raw_max_idle_time raw\<rparr>
     in and_then (unwrap_option (raw_port raw)) (\<lambda>port.
     Ok \<lparr>server_config = config, listen_addr = SocketAddr_from (raw_ip raw) port,
         cfg_token = set (map (\<lambda>token. blake3_hash E (as_bytes token)) (raw_token raw)),
         authentication_timeout = Duration_from_secs (raw_authentication_timeout raw),
         max_udp_relay_packet_size = raw_max_udp_relay_packet_size raw,
         log_level = raw_log_level raw\<rparr>)))))))"

section \<open>Which setting wins\<close>

text \<open>Where the settings come from that the command line does not give.\<close>

definition base_config :: "server_config_env \<Rightarrow> opt_matches \<Rightarrow> RawConfig \<Rightarrow> bool" where
  "base_config E m base \<longleftrightarrow>
     (case opt_str m ''config'' of
        None \<Rightarrow> base = RawConfig_default
      | Some path \<Rightarrow> (\<exists>file j. open_file E path = Inr file \<and> read_json E file = Inr j \<and>
          RawConfig_deserialize (custom_error E) (missing_field E) j = Ok base))"

definition required_ok :: "opt_matches \<Rightarrow> RawConfig \<Rightarrow> RawConfig \<Rightarrow> bool" where
  "required_ok m base raw \<longleftrightarrow>
     (\<exists>port token certificate private_key.
        raw = base\<lparr>raw_port := Some port, raw_token := token, raw_certificate := Some certificate,
          raw_private_key := Some private_key\<rparr> \<and>
        (case opt_str m ''port'' of Some s \<Rightarrow> parse_u16 s = Inr port | None \<Rightarrow> raw_port base = Some port) \<and>
        token = (if opt_strs m ''token'' \<noteq> [] then opt_strs m ''token'' else raw_token base) \<and> token \<noteq> [] \<and>
        option_or (opt_str m ''certificate'') (raw_certificate base) = Some certificate \<and>
        option_or (opt_str m ''private-key'') (raw_private_key base) = Some private_key)"

lemma required_settings_ok:
  assumes "required_settings E m = Ok raw"
  shows "\<exists>base. base_config E m base \<and> required_ok m base raw"
proof (cases "opt_str m ''config''")
  case None
  with assms show ?thesis
    by (intro exI [of _ RawConfig_default])
      (auto simp: required_settings_def base_config_def required_ok_def Let_def outcome_simps
        RawConfig_default_def split: if_splits option.splits)
next
  case (Some path)
  with assms obtain content j base where "open_file E path = Inr content" and "read_json E content = Inr j"
    and "RawConfig_deserialize (custom_error E) (missing_field E) j = Ok base"
    by (auto simp: required_settings_def from_file_def Let_def outcome_simps)
  with assms Some show ?thesis
    by (intro exI [of _ base])
      (auto simp: required_settings_def from_file_def base_config_def required_ok_def Let_def outcome_simps
        split: if_splits option.splits)
qed

lemma deserialize_total: "RawConfig_deserialize custom missing j \<noteq> Panic"
  by (auto simp: RawConfig_deserialize_def deserialize_from_str_def outcome_simps split: option.splits)

lemma required_settings_total: "required_settings E m \<noteq> Panic"
  by (auto simp: required_settings_def from_file_def deserialize_total Let_def outcome_simps
      split: option.splits if_splits)

definition optional_ok :: "server_config_env \<Rightarrow> opt_matches \<Rightarrow> RawConfig \<Rightarrow> RawConfig \<Rightarrow> bool" where
  "optional_ok E m raw raw' \<longleftrightarrow>
     raw_port raw' = raw_port raw \<and> raw_token raw' = raw_token raw \<and>
     raw_certificate raw' = raw_certificate raw \<and> raw_private_key raw' = raw_private_key raw \<and>
     setting m ''ip'' parse_IpAddr (raw_ip raw) (raw_ip raw') \<and>
     setting m ''congestion-controller'' CongestionController_from_str
       (raw_congestion_controller raw) (raw_congestion_controller raw') \<and>
     setting m ''max-idle-time'' parse_u32 (raw_max_idle_time raw) (raw_max_idle_time raw') \<and>
     setting m ''authentication-timeout'' parse_u64
       (raw_authentication_timeout raw) (raw_authentication_timeout raw') \<and>
     setting m ''max-udp-relay-packet-size'' parse_usize
       (raw_max_udp_relay_packet_size raw) (raw_max_udp_relay_packet_size raw') \<and>
     raw_alpn raw' = (if opt_strs m ''alpn'' \<noteq> [] then opt_strs m ''alpn'' else raw_alpn raw) \<and>
     setting m ''log-level'' (parse_level E) (raw_log_level raw) (raw_log_level raw')"

lemma optional_settings_ok:
  assumes "optional_settings E m raw = Ok raw'"
  shows "optional_ok E m raw raw'"
proof -
  let ?alpn = "\<lambda>r. if opt_strs m ''alpn'' \<noteq> [] then r\<lparr>raw_alpn := opt_strs m ''alpn''\<rparr> else r"
  from assms obtain r1 r2 r3 r4 r5
    where o: "override m ''ip'' parse_IpAddr ParseAddr (\<lambda>v r. r\<lparr>raw_ip := v\<rparr>) raw = Ok r1"
      "override m ''congestion-controller'' CongestionController_from_str id
         (\<lambda>v r. r\<lparr>raw_congestion_controller := v\<rparr>) r1 = Ok r2"
      "override m ''max-idle-time'' parse_u32 ParseInt (\<lambda>v r. r\<lparr>raw_max_idle_time := v\<rparr>) r2 = Ok r3"
      "override m ''authentication-timeout'' parse_u64 ParseInt
         (\<lambda>v r. r\<lparr>raw_authentication_timeout := v\<rparr>) r3 = Ok r4"
      "override m ''max-udp-relay-packet-size'' parse_usize ParseInt
         (\<lambda>v r. r\<lparr>raw_max_udp_relay_packet_size := v\<rparr>) r4 = Ok r5"
      "override m ''log-level'' (parse_level E) ParseLogLevel (\<lambda>v r. r\<lparr>raw_log_level := v\<rparr>) (?alpn r5) = Ok raw'"
    unfolding optional_settings_def Let_def and_then_eq_Ok by blast
  from override_setting [OF o(1), of "raw_ip raw"] override_setting [OF o(2), of "raw_congestion_controller r1"]
    override_setting [OF o(3), of "raw_max_idle_time r2"] override_setting [OF o(4), of "raw_authentication_timeout r3"]
    override_setting [OF o(5), of "raw_max_udp_relay_packet_size r4"]
    override_setting [OF o(6), of "raw_log_level (?alpn r5)"]
  show ?thesis unfolding optional_ok_def by auto
qed

lemma optional_settings_total: "optional_settings E m raw \<noteq> Panic"
  by (auto simp: optional_settings_def override_total Let_def outcome_simps)

lemma RawConfig_parse_Ok:
  assumes "RawConfig_parse E args = Ok raw"
  shows "\<exists>m base mid. parse_args (cli E) server_options (drop 1 args) = Inr m \<and>
    base_config E m base \<and> required_ok m base mid \<and> optional_ok E m mid raw"
  using assms required_settings_ok optional_settings_ok
  by (fastforce simp: RawConfig_parse_def outcome_simps split: if_splits)

lemma RawConfig_parse_total: "RawConfig_parse E args \<noteq> Panic"
  by (auto simp: RawConfig_parse_def outcome_simps required_settings_total optional_settings_total)

lemma RawConfig_parse_complete:
  assumes "RawConfig_parse E args = Ok raw"
  shows "raw_port raw \<noteq> None \<and> raw_token raw \<noteq> [] \<and> raw_certificate raw \<noteq> None \<and> raw_private_key raw \<noteq> None"
  using RawConfig_parse_Ok [OF assms] by (auto simp: required_ok_def optional_ok_def)

lemma load_total: "load_certificates F path \<noteq> Panic" "load_private_key F path \<noteq> Panic"
  by (auto simp: load_certificates_def load_private_key_def Let_def outcome_simps split: option.splits)

section \<open>A command line\<close>

definition demo_files :: files where
  "demo_files = \<lparr>open_pem = \<lambda>path. Inr [X509Certificate [1], PKCS8Key [2]], read_file = \<lambda>path. Inr [3]\<rparr>"

definition demo_server_env :: server_config_env where
  "demo_server_env =
     \<lparr>cli = long_getopts, open_file = \<lambda>path. Inl (IoError NotFound path),
      read_json = \<lambda>content. Inl ''no json'',
      custom_error = \<lambda>e. ''custom'', missing_field = \<lambda>f. f, parse_level = \<lambda>s. Inl s, fs = demo_files,
      single_cert = \<lambda>certs key. Inr (), blake3_hash = \<lambda>bs. take 32 (bs @ replicate 32 0)\<rparr>"

definition demo_server_args :: "string list" where
  "demo_server_args =
     [''tuic-server'', ''--port'', ''443'', ''--token'', ''secret'', ''--certificate'', ''c.pem'',
      ''--private-key'', ''k.pem'']"

definition demo_server_raw :: RawConfig where
  "demo_server_raw =
     RawConfig_default\<lparr>raw_port := Some 443, raw_token := [''secret''], raw_certificate := Some ''c.pem'',
       raw_private_key := Some ''k.pem''\<rparr>"

definition demo_server_matches :: opt_matches where
  "demo_server_matches = matches_of [(''port'', Some ''443''), (''token'', Some ''secret''),
     (''certificate'', Some ''c.pem''), (''private-key'', Some ''k.pem'')] []"

lemma demo_server_matches:
  "parse_args (cli demo_server_env) server_options (drop 1 demo_server_args) = Inr demo_server_matches"
  by (simp add: demo_server_env_def long_getopts_def long_parse_def demo_server_args_def
      server_options_def demo_server_matches_def)

lemma parse_443: "parse_u16 ''443'' = Inr 443"
  by (simp add: parse_u16_def parse_uint_def to_digit_def)

lemma demo_server_parse: "RawConfig_parse demo_server_env demo_server_args = Ok demo_server_raw"
  unfolding RawConfig_parse_def demo_server_matches
  by (simp add: demo_server_matches_def matches_of_def values_of_def required_settings_def
      optional_settings_def override_def parse_443 demo_server_raw_def)

lemma demo_server_config: "\<exists>cfg. Config_parse demo_server_env demo_server_args = Ok cfg"
  by (simp add: Config_parse_def demo_server_parse demo_server_raw_def load_certificates_def
      load_private_key_def List.map_filter_simps Let_def)
    (simp add: demo_server_env_def demo_files_def List.map_filter_simps)

section \<open>Properties\<close>

text \<open>
  Starting the server does not panic on its configuration. Whatever the command line and the
  file hold, \<open>Config::parse\<close> returns a configuration or an error: its three \<open>unwrap\<close>s of optional
  settings come after \<open>RawConfig::parse\<close> made sure they are there.
\<close>

lemma server_Config_parse_total: "Config_parse E args \<noteq> Panic"
proof
  assume p: "Config_parse E args = Panic"
  then obtain raw where raw: "RawConfig_parse E args = Ok raw"
    using RawConfig_parse_total [of E args] by (auto simp: Config_parse_def outcome_simps)
  from RawConfig_parse_complete [OF raw] p raw show False
    by (auto simp: Config_parse_def outcome_simps load_total Let_def)
qed

text \<open>
  C39: Command line over file over default, for every setting of the server. A setting given on
  the command line is used (and was parsed), any other comes from the configuration file, and
  from the defaults where there is no file; port, token, certificate and key are always there.
\<close>

theorem server_settings_precedence:
  assumes "RawConfig_parse E args = Ok raw"
  shows "\<exists>m base. parse_args (cli E) server_options (drop 1 args) = Inr m \<and> base_config E m base \<and>
    (\<exists>port. raw_port raw = Some port \<and>
      (case opt_str m ''port'' of Some s \<Rightarrow> parse_u16 s = Inr port | None \<Rightarrow> raw_port base = Some port)) \<and>
    raw_token raw = (if opt_strs m ''token'' \<noteq> [] then opt_strs m ''token'' else raw_token base) \<and>
    raw_token raw \<noteq> [] \<and>
    raw_certificate raw = option_or (opt_str m ''certificate'') (raw_certificate base) \<and>
    raw_private_key raw = option_or (opt_str m ''private-key'') (raw_private_key base) \<and>
    raw_certificate raw \<noteq> None \<and> raw_private_key raw \<noteq> None \<and>
    setting m ''ip'' parse_IpAddr (raw_ip base) (raw_ip raw) \<and>
    setting m ''congestion-controller'' CongestionController_from_str
      (raw_congestion_controller base) (raw_congestion_controller raw) \<and>
    setting m ''max-idle-time'' parse_u32 (raw_max_idle_time base) (raw_max_idle_time raw) \<and>
    setting m ''authentication-timeout'' parse_u64
      (raw_authentication_timeout base) (raw_authentication_timeout raw) \<and>
    setting m ''max-udp-relay-packet-size'' parse_usize
      (raw_max_udp_relay_packet_size base) (raw_max_udp_relay_packet_size raw) \<and>
    raw_alpn raw = (if opt_strs m ''alpn'' \<noteq> [] then opt_strs m ''alpn'' else raw_alpn base) \<and>
    setting m ''log-level'' (parse_level E) (raw_log_level base) (raw_log_level raw)"
proof -
  obtain m base mid where m: "parse_args (cli E) server_options (drop 1 args) = Inr m"
    "base_config E m base" and mid: "required_ok m base mid" "optional_ok E m mid raw"
    using RawConfig_parse_Ok [OF assms] by blast
  show ?thesis
    by (rule exI [of _ m], rule exI [of _ base])
      (use m mid in \<open>auto simp: required_ok_def optional_ok_def\<close>)
qed

theorem server_settings_precedence_witness:
  "raw_token demo_server_raw \<noteq> [] \<and> raw_certificate demo_server_raw \<noteq> None"
  using server_settings_precedence [OF demo_server_parse] by blast



text \<open>
  One token per command line. The help text says that \<open>--token\<close> can be given several times, but
  it is declared with \<open>optopt\<close>, which \<open>getopts\<close> accepts once: without a configuration file the
  server ends up with exactly one token, however it is started.
\<close>

lemma server_single_token:
  assumes "getopts_contract (cli E)" and "RawConfig_parse E args = Ok raw"
    and "parse_args (cli E) server_options (drop 1 args) = Inr m" and "opt_str m ''config'' = None"
  shows "length (raw_token raw) = 1"
proof -
  obtain base mid where base: "base_config E m base" "required_ok m base mid" "optional_ok E m mid raw"
    using RawConfig_parse_Ok [OF assms(2)] assms(3) by auto
  with assms(4) have "raw_token base = []" by (simp add: base_config_def RawConfig_default_def)
  with base have "raw_token raw = opt_strs m ''token''" "raw_token raw \<noteq> []"
    by (auto simp: required_ok_def optional_ok_def split: if_splits)
  moreover have "([], ''token'', OptOpt) \<in> set server_options" by (simp add: server_options_def)
  then have "length (opt_strs m ''token'') \<le> 1"
    using getopts_contract.optopt_once [OF assms(1,3)] by blast
  ultimately show ?thesis by (simp add: le_Suc_eq)
qed

lemma server_single_token_witness: "length (raw_token demo_server_raw) = 1"
proof -
  have "opt_str demo_server_matches ''config'' = None"
    by (simp add: demo_server_matches_def matches_of_def values_of_def)
  moreover have "getopts_contract (cli demo_server_env)"
    using longopts.getopts_contract_axioms by (simp add: demo_server_env_def)
  ultimately show ?thesis using server_single_token [OF _ demo_server_parse demo_server_matches] by blast
qed

end
