(* ===== verification/Server_Main.thy ===== *)
theory Server_Main
  imports Server_Config Server_Safety
begin

text \<open>
  \<open>server/src/server.rs\<close> and \<open>server/src/main.rs\<close>: the server is made from its configuration and
  starts one connection handler for every client that connects.
\<close>

section \<open>Server\<close>

text \<open>
  \<open>bind_v4\<close> is \<open>UdpSocket::bind\<close>; \<open>bind_v6\<close> makes the dual-stack socket with \<open>socket2\<close>;
  \<open>endpoint\<close> is quinn's \<open>Endpoint::new\<close>, whose second component yields the incoming connections.
\<close>

record ('sock, 'inc) server_net =
  bind_v4 :: "SocketAddr \<Rightarrow> io_error + 'sock"
  bind_v6 :: "SocketAddr \<Rightarrow> io_error + 'sock"
  endpoint :: "ServerConfig \<Rightarrow> 'sock \<Rightarrow> io_error + 'inc"

record 'inc Server =
  srv_incoming :: 'inc
  srv_listen_addr :: SocketAddr
  srv_token :: "bytes set"
  srv_authentication_timeout :: Duration
  srv_max_pkt_size :: usize

definition Server_init ::
  "('sock, 'inc) server_net \<Rightarrow> ServerConfig \<Rightarrow> SocketAddr \<Rightarrow> bytes set \<Rightarrow> Duration \<Rightarrow> usize
   \<Rightarrow> (io_error, 'inc Server) outcome" where
  "Server_init net config listen tokens auth_timeout max_size =
     and_then (returned (case listen of
       V4 _ _ \<Rightarrow> bind_v4 net listen
     | V6 _ _ _ _ \<Rightarrow> bind_v6 net listen)) (\<lambda>socket.
     and_then (returned (endpoint net config socket)) (\<lambda>incoming.
     Ok \<lparr>srv_incoming = incoming, srv_listen_addr = listen, srv_token = tokens,
         srv_authentication_timeout = auth_timeout, srv_max_pkt_size = max_size\<rparr>))"

text \<open>
  \<open>Server::run\<close> on the connections that are established, in order: each gets its own state, with
  the server's token set. The handlers run independently of each other.
\<close>

definition Server_run :: "'inc Server \<Rightarrow> ('inc \<Rightarrow> 'c list) \<Rightarrow> ('c \<times> ('rs, 'ss) server) list" where
  "Server_run srv connections =
     map (\<lambda>conn. (conn, handle_init (srv_token srv) (srv_max_pkt_size srv)))
       (connections (srv_incoming srv))"

section \<open>Program\<close>

fun ConfigError_to_string :: "ConfigError \<Rightarrow> string" where
  "ConfigError_to_string (Help s) = s"
| "ConfigError_to_string (Version s) = s"
| "ConfigError_to_string (ConfigIo path e) =
     ''Failed to read '' @ [CHR 0x27] @ path @ [CHR 0x27] @ '': '' @ error_message e"
| "ConfigError_to_string (ParseConfigJson e) = ''Failed to parse the config file: '' @ e"
| "ConfigError_to_string (ParseArgument e) = e"
| "ConfigError_to_string (UnexpectedArguments s) = ''Unexpected arguments: '' @ s"
| "ConfigError_to_string (MissingOption s) = ''Missing option: '' @ s"
| "ConfigError_to_string (ParseInt e) = ParseIntError_to_string e"
| "ConfigError_to_string (ParseAddr e) = ''invalid IP address syntax''"
| "ConfigError_to_string InvalidCongestionController = ''Invalid congestion controller''"
| "ConfigError_to_string (ParseLogLevel e) = e"
| "ConfigError_to_string (Rustls e) = ''Failed to load certificate / private key: '' @ e"

datatype 'inc program = Print string | EPrint string | Serve "'inc Server"

definition server_main ::
  "server_config_env \<Rightarrow> ('sock, 'inc) server_net \<Rightarrow> string list \<Rightarrow> ('e, 'inc program) outcome" where
  "server_main E net args =
     (case Config_parse E args of
        Err err \<Rightarrow>
          Ok (case err of
                Help help \<Rightarrow> Print help
              | Version version \<Rightarrow> Print version
              | err \<Rightarrow> EPrint (ConfigError_to_string err))
      | Panic \<Rightarrow> Panic
      | Ok config \<Rightarrow>
          (case Server_init net (server_config config) (listen_addr config) (cfg_token config)
                  (authentication_timeout config) (max_udp_relay_packet_size config) of
             Ok server \<Rightarrow> Ok (Serve server)
           | Err err \<Rightarrow> Ok (EPrint (error_message err))
           | Panic \<Rightarrow> Panic))"

text \<open>
  Only the configured tokens open a connection. Whatever the command line, if the program
  reaches the point where it serves, then on every connection it handles, in every state that
  connection can reach, an accepted token is the hash of one of the tokens it was configured
  with.
\<close>

lemma served_tokens_configured:
  assumes "server_env L content sent" and "server_main E net args = Ok (Serve srv)"
    and "(c, s0) \<in> set (Server_run srv connections)" and "run L ls s0 = Some s"
    and "Authenticated d \<in> set (history (shared s))"
  shows "\<exists>raw t. RawConfig_parse E args = Ok raw \<and> t \<in> set (raw_token raw) \<and> d = blake3_hash E (as_bytes t)"
proof -
  from assms(2) obtain cfg where cfg: "Config_parse E args = Ok cfg" and srv: "srv_token srv = cfg_token cfg"
    by (auto simp: server_main_def Server_init_def outcome_simps split: outcome.splits ConfigError.splits)
  from cfg obtain raw where raw: "RawConfig_parse E args = Ok raw"
    and T: "cfg_token cfg = (\<lambda>t. blake3_hash E (as_bytes t)) ` set (raw_token raw)"
    by (auto simp: Config_parse_def outcome_simps Let_def)
  have "s0 = handle_init (cfg_token cfg) (srv_max_pkt_size srv)"
    using assms(3) srv by (auto simp: Server_run_def)
  then have "reachable L (cfg_token cfg) (srv_max_pkt_size srv) s"
    using run_reachable [OF assms(4)] reachable.init by metis
  then have "gated (cfg_token cfg) (history (shared s))"
    using server_env.reachable_ok [OF assms(1)] by (fastforce simp: server_ok_def conn_ok_def)
  moreover obtain later earlier where "history (shared s) = later @ Authenticated d # earlier"
    using assms(5) by (auto dest: split_list)
  ultimately have "d \<in> cfg_token cfg" using gated_split by fastforce
  with raw T show ?thesis by auto
qed

text \<open>The program on the demonstration command line, with sockets that are always free.\<close>

definition demo_net :: "(unit, unit) server_net" where
  "demo_net = \<lparr>bind_v4 = \<lambda>a. Inr (), bind_v6 = \<lambda>a. Inr (), endpoint = \<lambda>config sock. Inr ()\<rparr>"

lemma demo_serves:
  "\<exists>srv. server_main demo_server_env demo_net demo_server_args = Ok (Serve srv) \<and>
     srv_token srv = {blake3_hash demo_server_env (as_bytes ''secret'')}"
proof -
  obtain cfg where cfg: "Config_parse demo_server_env demo_server_args = Ok cfg"
    using demo_server_config by blast
  then have T: "cfg_token cfg = {blake3_hash demo_server_env (as_bytes ''secret'')}"
    by (auto simp: Config_parse_def demo_server_parse demo_server_raw_def outcome_simps Let_def)
  have "\<exists>srv. Server_init demo_net (server_config cfg) (listen_addr cfg) (cfg_token cfg)
      (authentication_timeout cfg) (max_udp_relay_packet_size cfg) = Ok srv \<and> srv_token srv = cfg_token cfg"
    by (auto simp: Server_init_def demo_net_def split: SocketAddr.split)
  with cfg T show ?thesis by (auto simp: server_main_def)
qed

definition demo_digest :: bytes where
  "demo_digest = blake3_hash demo_server_env (as_bytes ''secret'')"

lemma demo_digest_accepted:
  "\<exists>s. run mem_lib [AcceptUni (encode_Command (Authenticate demo_digest)), Run 1]
      (handle_init {demo_digest} n) = Some s \<and> Authenticated demo_digest \<in> set (history (shared s))"
proof -
  have "case run mem_lib [AcceptUni (encode_Command (Authenticate demo_digest)), Run 1]
      (handle_init {demo_digest} n) of None \<Rightarrow> False
    | Some s \<Rightarrow> Authenticated demo_digest \<in> set (history (shared s))"
    by code_simp
  from case_option_FalseD [OF this] show ?thesis .
qed

lemma served_tokens_configured_witness:
  "\<exists>raw t. RawConfig_parse demo_server_env demo_server_args = Ok raw \<and> t \<in> set (raw_token raw) \<and>
     demo_digest = blake3_hash demo_server_env (as_bytes t)"
proof -
  obtain srv where srv: "server_main demo_server_env demo_net demo_server_args = Ok (Serve srv)"
    "srv_token srv = {demo_digest}"
    using demo_serves unfolding demo_digest_def by blast
  have in_run: "((), handle_init {demo_digest} (srv_max_pkt_size srv)) \<in> set (Server_run srv (\<lambda>_. [()]))"
    by (simp add: Server_run_def srv(2))
  obtain s where s: "run mem_lib [AcceptUni (encode_Command (Authenticate demo_digest)), Run 1]
      (handle_init {demo_digest} (srv_max_pkt_size srv)) = Some s"
    "Authenticated demo_digest \<in> set (history (shared s))"
    using demo_digest_accepted by blast
  show ?thesis
    by (rule served_tokens_configured [OF mem.server_env_axioms srv(1) in_run s])
qed

end
