(* ===== verification/Client_Types.thy ===== *)
theory Client_Types
  imports Protocol
begin

text \<open>
  The types the client's parts share: the address of a relay request (\<open>client/src/relay/address.rs\<close>)
  with its conversions, the address of the server and the UDP relay mode
  (\<open>client/src/relay/mod.rs\<close>), and the SOCKS5 address the local server hands over.
\<close>

section \<open>Addresses\<close>

datatype RelayAddress = RelayDomain string u16 | RelaySocket SocketAddr

fun RelayAddress_from :: "Address \<Rightarrow> RelayAddress" where
  "RelayAddress_from (DomainAddress hostname port) = RelayDomain hostname port"
| "RelayAddress_from (SocketAddress socket_addr) = RelaySocket socket_addr"

fun TuicAddress_from :: "RelayAddress \<Rightarrow> Address" where
  "TuicAddress_from (RelayDomain hostname port) = DomainAddress hostname port"
| "TuicAddress_from (RelaySocket socket_addr) = SocketAddress socket_addr"

lemma TuicAddress_RelayAddress [simp]: "TuicAddress_from (RelayAddress_from a) = a"
  by (cases a) auto

lemma RelayAddress_TuicAddress [simp]: "RelayAddress_from (TuicAddress_from a) = a"
  by (cases a) auto

text \<open>The address type of the \<open>socks5_proto\<close> crate.\<close>

datatype Socks5Address = Socks5Domain string u16 | Socks5Socket SocketAddr

section \<open>Server address and relay mode\<close>

datatype ServerAddr = ServerSocketAddr SocketAddr string | ServerDomainAddr string u16

datatype ('n, 'q) UdpRelayMode = Native 'n | Quic 'q

type_synonym relay_mode = "(unit, unit) UdpRelayMode"

end
