(* ===== verification/Client_Stream.thy ===== *)
theory Client_Stream
  imports Client_Types "HOL-Library.Multiset"
begin

text \<open>
  \<open>client/src/relay/stream.rs\<close>: the client's wrappers of quinn's streams. Each stream holds a
  clone of the connection's \<open>Register\<close>, whose strong count therefore tells how many stream halves
  are open; the heartbeat depends on it. The polls of the wrappers are in \<open>Stream_Polls\<close>.
  A \<open>Register\<close> is the strong count of its \<open>Arc\<close>; a \<open>Registry\<close> is the weak pointer
  to the same count.
\<close>

section \<open>Register\<close>

type_synonym Register = nat

definition Register_new :: Register where
  "Register_new = 1"

definition Register_clone :: "Register \<Rightarrow> Register" where
  "Register_clone reg = Suc reg"

definition Register_drop :: "Register \<Rightarrow> Register" where
  "Register_drop reg = reg - 1"

definition Register_count :: "Register \<Rightarrow> usize" where
  "Register_count reg = reg"

text \<open>\<open>Registry::get_register\<close>: the upgrade of the weak pointer fails once the count is 0.\<close>

definition get_register :: "Register \<Rightarrow> Register option" where
  "get_register reg = (if reg = 0 then None else Some (Suc reg))"

section \<open>Streams\<close>

datatype stream_kind = SendStream | RecvStream | BiStream

text \<open>
  The open streams of a connection with the register, and whether the connection itself, which
  holds the first register, is still there.
\<close>

record streams =
  reg :: Register
  open_streams :: "stream_kind multiset"
  conn_alive :: bool

definition streams_new :: streams where
  "streams_new = \<lparr>reg = Register_new, open_streams = {#}, conn_alive = True\<rparr>"

definition SendStream_new :: "streams \<Rightarrow> streams" where
  "SendStream_new s = s\<lparr>reg := Register_clone (reg s), open_streams := add_mset SendStream (open_streams s)\<rparr>"

text \<open>A bidirectional stream is a send and a receive half, each with its own clone.\<close>

definition BiStream_new :: "streams \<Rightarrow> streams" where
  "BiStream_new s =
     s\<lparr>reg := Register_clone (Register_clone (reg s)), open_streams := add_mset BiStream (open_streams s)\<rparr>"

text \<open>
  \<open>IncomingUniStreams::poll_next\<close>: the register is taken before quinn is polled, and given back
  unless a stream came out. The answer is quinn's, or the end of the stream of streams when the
  connection is gone.
\<close>

datatype 'a poll_next = NextPending | NextEnd | NextErr quinn_error | NextOk 'a

definition poll_next_uni :: "unit poll_next \<Rightarrow> streams \<Rightarrow> unit poll_next \<times> streams" where
  "poll_next_uni polled s =
     (case get_register (reg s) of
        None \<Rightarrow> (NextEnd, s)
      | Some r \<Rightarrow>
          (case polled of
             NextOk _ \<Rightarrow> (NextOk (), s\<lparr>reg := r, open_streams := add_mset RecvStream (open_streams s)\<rparr>)
           | other \<Rightarrow> (other, s\<lparr>reg := Register_drop r\<rparr>)))"

fun halves :: "stream_kind \<Rightarrow> nat" where
  "halves SendStream = 1"
| "halves RecvStream = 1"
| "halves BiStream = 2"

definition drop_stream :: "stream_kind \<Rightarrow> streams \<Rightarrow> streams" where
  "drop_stream k s =
     (if k \<in># open_streams s then
        s\<lparr>reg := (Register_drop ^^ halves k) (reg s), open_streams := open_streams s - {#k#}\<rparr>
      else s)"

definition drop_connection :: "streams \<Rightarrow> streams" where
  "drop_connection s =
     (if conn_alive s then s\<lparr>reg := Register_drop (reg s), conn_alive := False\<rparr> else s)"

definition no_active_stream :: "streams \<Rightarrow> bool" where
  "no_active_stream s \<longleftrightarrow> Register_count (reg s) = 1"

section \<open>The count is the number of open halves\<close>

definition open_halves :: "streams \<Rightarrow> nat" where
  "open_halves s = (\<Sum>k \<in># open_streams s. halves k)"

definition streams_ok :: "streams \<Rightarrow> bool" where
  "streams_ok s \<longleftrightarrow> reg s = of_bool (conn_alive s) + open_halves s"

lemmas register_defs = Register_new_def Register_clone_def Register_drop_def Register_count_def
  get_register_def

lemma halves_pos: "0 < halves k"
  by (cases k) auto

lemma Register_drop_funpow: "(Register_drop ^^ n) r = r - n"
  by (induction n) (auto simp: Register_drop_def)

lemma streams_ok_new: "streams_ok streams_new"
  by (simp add: streams_ok_def streams_new_def open_halves_def register_defs)

lemma streams_ok_SendStream: "streams_ok s \<Longrightarrow> streams_ok (SendStream_new s)"
  by (simp add: streams_ok_def SendStream_new_def open_halves_def register_defs)

lemma streams_ok_BiStream: "streams_ok s \<Longrightarrow> streams_ok (BiStream_new s)"
  by (simp add: streams_ok_def BiStream_new_def open_halves_def register_defs)

lemma streams_ok_poll_next: "streams_ok s \<Longrightarrow> streams_ok (snd (poll_next_uni polled s))"
  by (cases polled) (simp_all add: streams_ok_def poll_next_uni_def open_halves_def register_defs)

lemma sum_mset_halves_remove: "k \<in># M \<Longrightarrow> (\<Sum>j \<in># M. halves j) = halves k + (\<Sum>j \<in># M - {#k#}. halves j)"
  by (metis image_mset_add_mset insert_DiffM sum_mset.add_mset)

lemma streams_ok_drop_stream:
  assumes "streams_ok s"
  shows "streams_ok (drop_stream k s)"
proof (cases "k \<in># open_streams s")
  case True
  then have "open_halves (drop_stream k s) + halves k = open_halves s"
    by (simp add: drop_stream_def open_halves_def) (metis add.commute sum_mset_halves_remove)
  with assms True show ?thesis
    by (auto simp: streams_ok_def drop_stream_def Register_drop_funpow)
qed (use assms in \<open>simp add: drop_stream_def\<close>)

lemma streams_ok_drop_connection: "streams_ok s \<Longrightarrow> streams_ok (drop_connection s)"
  by (auto simp: streams_ok_def drop_connection_def open_halves_def register_defs)

lemma drop_SendStream_new [simp]: "drop_stream SendStream (SendStream_new s) = s"
  by (simp add: drop_stream_def SendStream_new_def register_defs)

lemma drop_BiStream_new [simp]: "drop_stream BiStream (BiStream_new s) = s"
  by (simp add: drop_stream_def BiStream_new_def Register_drop_funpow register_defs)

lemmas streams_ok_intros = streams_ok_new streams_ok_SendStream streams_ok_BiStream
  streams_ok_poll_next streams_ok_drop_stream streams_ok_drop_connection

lemma open_halves_0: "open_halves s = 0 \<longleftrightarrow> open_streams s = {#}"
  using halves_pos by (auto simp: open_halves_def) (metis multiset_nonemptyE not_gr_zero)

lemma no_active_stream_iff:
  "streams_ok s \<Longrightarrow> conn_alive s \<Longrightarrow> no_active_stream s \<longleftrightarrow> open_streams s = {#}"
  using open_halves_0 [of s] by (auto simp: streams_ok_def no_active_stream_def register_defs)

text \<open>The life of the streams of one connection.\<close>

inductive streams_reachable :: "streams \<Rightarrow> bool" where
  start: "streams_reachable streams_new"
| send: "streams_reachable s \<Longrightarrow> conn_alive s \<Longrightarrow> streams_reachable (SendStream_new s)"
| bi: "streams_reachable s \<Longrightarrow> conn_alive s \<Longrightarrow> streams_reachable (BiStream_new s)"
| incoming: "streams_reachable s \<Longrightarrow> streams_reachable (snd (poll_next_uni polled s))"
| drop_stream: "streams_reachable s \<Longrightarrow> streams_reachable (drop_stream k s)"
| drop_connection: "streams_reachable s \<Longrightarrow> streams_reachable (drop_connection s)"

lemma streams_reachable_ok: "streams_reachable s \<Longrightarrow> streams_ok s"
  by (induction rule: streams_reachable.induct) (auto intro: streams_ok_intros)

section \<open>Properties\<close>

text \<open>
  C30: The stream count is exact. In every state a connection's streams can get into, as long as
  the connection is there, \<open>no_active_stream\<close> holds exactly when no stream is open; and the
  incoming side ends, rather than hand out streams, exactly when the connection and all its
  streams are gone.
\<close>

theorem no_active_stream_exact:
  assumes "streams_reachable s"
  shows "(conn_alive s \<longrightarrow> (no_active_stream s \<longleftrightarrow> open_streams s = {#})) \<and>
    (get_register (reg s) = None \<longleftrightarrow> \<not> conn_alive s \<and> open_streams s = {#})"
proof -
  have ok: "streams_ok s" using assms by (rule streams_reachable_ok)
  then have "get_register (reg s) = None \<longleftrightarrow> \<not> conn_alive s \<and> open_halves s = 0"
    by (auto simp: streams_ok_def get_register_def)
  with no_active_stream_iff [OF ok] open_halves_0 show ?thesis by auto
qed

theorem no_active_stream_exact_witness:
  "\<not> no_active_stream (BiStream_new streams_new) \<and>
   no_active_stream (drop_stream BiStream (BiStream_new streams_new))"
proof -
  have a: "conn_alive streams_new" by (simp add: streams_new_def)
  note b = streams_reachable.bi [OF streams_reachable.start a]
  from no_active_stream_exact [OF b] no_active_stream_exact [OF streams_reachable.drop_stream [OF b, of BiStream]]
  show ?thesis by (simp add: BiStream_new_def drop_stream_def streams_new_def)
qed

end
