(* ===== verification/Client_Connection.thy ===== *)
theory Client_Connection
  imports Client_Stream Rust_Parse "HOL-Library.AList"
begin

text \<open>
  \<open>client/src/relay/connection.rs\<close>: a connection to the server, how it is established, the table
  of its UDP sessions, the flag that tells that it is closed, and what it sends by itself
  (authentication and heartbeats). The loop that keeps a connection going is in the theory of the
  relay.
\<close>

section \<open>The crates\<close>

text \<open>
  The streams of the client as tokio and quinn see them, the conversions of quinn's errors to
  \<open>std::io::Error\<close>, and tokio's \<open>time::interval\<close>.
\<close>

record ('bs, 'ss, 'rs) client_lib =
  c_vec :: "bytes buf_mut"
  c_order :: byteorder
  bi_read :: "'bs async_read"
  bi_write :: "'bs async_write"
  bi_finish :: "'bs \<Rightarrow> (quinn_error, 'bs) outcome"
  uni_write :: "'ss async_write"
  uni_finish :: "'ss \<Rightarrow> (quinn_error, 'ss) outcome"
  uni_read :: "'rs async_read"
  dg_read :: "bytes async_read"
  write_error_io :: "quinn_error \<Rightarrow> io_error"
  connection_error_io :: "quinn_error \<Rightarrow> io_error"
  time_interval :: "Duration \<Rightarrow> (unit, unit) outcome"

section \<open>The table of UDP sessions\<close>

text \<open>A \<open>HashMap\<close> from associate ids to the sender half of a channel, named by its handle.\<close>

type_synonym SessionTable = "(u32 \<times> nat) list"

definition SessionTable_new :: SessionTable where
  "SessionTable_new = []"

definition SessionTable_insert :: "u32 \<Rightarrow> nat \<Rightarrow> SessionTable \<Rightarrow> nat option \<times> SessionTable" where
  "SessionTable_insert assoc tx m = (map_of m assoc, AList.update assoc tx m)"

definition SessionTable_get :: "u32 \<Rightarrow> SessionTable \<Rightarrow> nat option" where
  "SessionTable_get assoc m = map_of m assoc"

definition SessionTable_remove :: "u32 \<Rightarrow> SessionTable \<Rightarrow> nat option \<times> SessionTable" where
  "SessionTable_remove assoc m = (map_of m assoc, AList.delete assoc m)"

definition SessionTable_is_empty :: "SessionTable \<Rightarrow> bool" where
  "SessionTable_is_empty m \<longleftrightarrow> m = []"

text \<open>What a client of such a table relies on.\<close>

locale session_table =
  fixes empty :: 'm
    and insert :: "u32 \<Rightarrow> nat \<Rightarrow> 'm \<Rightarrow> nat option \<times> 'm"
    and get :: "u32 \<Rightarrow> 'm \<Rightarrow> nat option"
    and remove :: "u32 \<Rightarrow> 'm \<Rightarrow> nat option \<times> 'm"
    and is_empty :: "'m \<Rightarrow> bool"
  assumes get_empty: "get a empty = None"
    and insert_result: "fst (insert a tx m) = get a m"
    and get_insert: "get b (snd (insert a tx m)) = (if b = a then Some tx else get b m)"
    and remove_result: "fst (remove a m) = get a m"
    and get_remove: "get b (snd (remove a m)) = (if b = a then None else get b m)"
    and is_empty_iff: "is_empty m \<longleftrightarrow> (\<forall>a. get a m = None)"
begin

lemma insert_remove_fresh: "get a m = None \<Longrightarrow> get b (snd (remove a (snd (insert a tx m)))) = get b m"
  by (simp add: get_remove get_insert)

lemma insert_not_empty: "\<not> is_empty (snd (insert a tx m))"
  using get_insert [of a a tx m] by (auto simp: is_empty_iff)

lemma empty_is_empty: "is_empty empty"
  by (simp add: is_empty_iff get_empty)

end

interpretation sessions: session_table SessionTable_new SessionTable_insert SessionTable_get
  SessionTable_remove SessionTable_is_empty
proof
  show "SessionTable_is_empty m \<longleftrightarrow> (\<forall>a. SessionTable_get a m = None)" for m
    by (cases m) (auto simp: SessionTable_is_empty_def SessionTable_get_def)
qed (auto simp: SessionTable_new_def SessionTable_insert_def SessionTable_get_def
  SessionTable_remove_def update_conv delete_conv restrict_map_def)

section \<open>The closed flag\<close>

record ClosedFlag =
  closed_flag :: bool
  closed_wakers :: "nat list"

definition ClosedFlag_new :: ClosedFlag where
  "ClosedFlag_new = \<lparr>closed_flag = False, closed_wakers = []\<rparr>"

text \<open>\<open>IsClosed::set\<close> stores the flag and wakes everyone in the list; the wakers are the result.\<close>

definition ClosedFlag_set :: "ClosedFlag \<Rightarrow> ClosedFlag \<times> nat list" where
  "ClosedFlag_set f = (f\<lparr>closed_flag := True, closed_wakers := []\<rparr>, closed_wakers f)"

text \<open>The poll reads the flag and, if it is not set, registers; another task may run in between.\<close>

definition ClosedFlag_poll_read :: "ClosedFlag \<Rightarrow> bool" where
  "ClosedFlag_poll_read f = closed_flag f"

definition ClosedFlag_poll_register :: "nat \<Rightarrow> ClosedFlag \<Rightarrow> ClosedFlag" where
  "ClosedFlag_poll_register waker f = f\<lparr>closed_wakers := closed_wakers f @ [waker]\<rparr>"

section \<open>Connections\<close>

record ConnectionConfig =
  server_addr :: ServerAddr
  token_digest :: bytes
  config_mode :: relay_mode
  heartbeat_interval :: u64
  reduce_rtt :: bool
  config_max_size :: usize

definition ConnectionConfig_new ::
  "ServerAddr \<Rightarrow> bytes \<Rightarrow> relay_mode \<Rightarrow> u64 \<Rightarrow> bool \<Rightarrow> usize \<Rightarrow> ConnectionConfig" where
  "ConnectionConfig_new addr digest mode interval rtt max_size =
     \<lparr>server_addr = addr, token_digest = digest, config_mode = mode, heartbeat_interval = interval,
      reduce_rtt = rtt, config_max_size = max_size\<rparr>"

record ClientConnection =
  cc_sessions :: SessionTable
  cc_streams :: streams
  cc_mode :: relay_mode
  cc_closed :: ClosedFlag
  cc_default_max :: usize

datatype connection_task = SendAuthentication bytes | HeartbeatEvery Duration

text \<open>\<open>Connection::new\<close>: the connection and the two tasks it starts.\<close>

definition Connection_new :: "ConnectionConfig \<Rightarrow> ClientConnection \<times> connection_task list" where
  "Connection_new config =
     (\<lparr>cc_sessions = SessionTable_new, cc_streams = streams_new, cc_mode = config_mode config,
       cc_closed = ClosedFlag_new, cc_default_max = config_max_size config\<rparr>,
      [SendAuthentication (token_digest config),
       HeartbeatEvery (Duration_from_millis (heartbeat_interval config))])"

text \<open>
  \<open>client_endpoint\<close> is quinn's \<open>Endpoint::client\<close>, \<open>connect_with\<close> its start of a handshake,
  \<open>into_0rtt\<close> the attempt to use the connection before the handshake ends (\<open>Inl\<close> gives the
  handshake back), \<open>handshake\<close> its end.
\<close>

record ('ep, 'hs, 'qc) quinn_connect =
  client_endpoint :: "SocketAddr \<Rightarrow> io_error + 'ep"
  connect_with :: "'ep \<Rightarrow> SocketAddr \<Rightarrow> string \<Rightarrow> string + 'hs"
  into_0rtt :: "'hs \<Rightarrow> 'hs + 'qc"
  handshake :: "'hs \<Rightarrow> quinn_error + 'qc"

definition client_bind_addr :: "SocketAddr \<Rightarrow> SocketAddr" where
  "client_bind_addr addr =
     (case addr of
        V4 _ _ \<Rightarrow> SocketAddr_from (IpV4 Ipv4_UNSPECIFIED) 0
      | V6 _ _ _ _ \<Rightarrow> SocketAddr_from (IpV6 Ipv6_UNSPECIFIED) 0)"

definition connect_addr ::
  "('bs, 'ss, 'rs) client_lib \<Rightarrow> ('ep, 'hs, 'qc) quinn_connect \<Rightarrow> ConnectionConfig \<Rightarrow> SocketAddr \<Rightarrow> string
   \<Rightarrow> (io_error, 'qc \<times> ClientConnection \<times> connection_task list) outcome" where
  "connect_addr L q config addr name =
     and_then (returned (client_endpoint q (client_bind_addr addr))) (\<lambda>ep.
     and_then (map_err (IoError Other) (returned (connect_with q ep addr name))) (\<lambda>conn.
     and_then
       (if reduce_rtt config then
          (case into_0rtt q conn of
             Inr qc \<Rightarrow> Ok qc
           | Inl conn \<Rightarrow> map_err (connection_error_io L) (returned (handshake q conn)))
        else map_err (connection_error_io L) (returned (handshake q conn))) (\<lambda>qc.
     Ok (qc, Connection_new config))))"

text \<open>The loop of \<open>Connection::connect\<close>: the first address that answers, and the last error.\<close>

fun try_addrs ::
  "(SocketAddr \<Rightarrow> (io_error, 'c) outcome) \<Rightarrow> SocketAddr list \<Rightarrow> io_error option
   \<Rightarrow> (io_error option, 'c) outcome" where
  "try_addrs attempt [] last_err = Err last_err"
| "try_addrs attempt (addr # addrs) last_err =
     (case attempt addr of
        Ok new_conn \<Rightarrow> Ok new_conn
      | Err err \<Rightarrow> try_addrs attempt addrs (Some err)
      | Panic \<Rightarrow> Panic)"

definition no_address :: io_error where
  "no_address = IoError Other ''Unable to connect to the server''"

definition Connection_connect ::
  "('bs, 'ss, 'rs) client_lib \<Rightarrow> ('ep, 'hs, 'qc) quinn_connect
   \<Rightarrow> (string \<Rightarrow> u16 \<Rightarrow> io_error + SocketAddr list) \<Rightarrow> ConnectionConfig
   \<Rightarrow> (io_error, 'qc \<times> ClientConnection \<times> connection_task list) outcome" where
  "Connection_connect L q lookup_host config =
     and_then
       (case server_addr config of
          ServerSocketAddr addr name \<Rightarrow> Ok ([addr], name)
        | ServerDomainAddr domain port \<Rightarrow>
            and_then (returned (lookup_host domain port)) (\<lambda>addrs. Ok (addrs, domain))) (\<lambda>(addrs, name).
     map_err (\<lambda>last_err. case last_err of Some err \<Rightarrow> err | None \<Rightarrow> no_address)
       (try_addrs (\<lambda>addr. connect_addr L q config addr name) addrs None))"

section \<open>Streams and datagrams of a connection\<close>

definition set_streams :: "streams \<Rightarrow> ClientConnection \<Rightarrow> ClientConnection" where
  "set_streams st c = c\<lparr>cc_streams := st\<rparr>"

text \<open>
  \<open>open_uni\<close> and \<open>open_bi\<close> are what quinn's \<open>open_uni\<close> and \<open>open_bi\<close> returned.
\<close>

definition get_send_stream ::
  "('bs, 'ss, 'rs) client_lib \<Rightarrow> quinn_error + 'ss \<Rightarrow> ClientConnection
   \<Rightarrow> (io_error, 'ss) outcome \<times> ClientConnection" where
  "get_send_stream L open_uni c =
     (case open_uni of
        Inl e \<Rightarrow> (Err (connection_error_io L e), c)
      | Inr send \<Rightarrow> (Ok send, set_streams (SendStream_new (cc_streams c)) c))"

definition get_bi_stream ::
  "('bs, 'ss, 'rs) client_lib \<Rightarrow> quinn_error + 'bs \<Rightarrow> ClientConnection
   \<Rightarrow> (io_error, 'bs) outcome \<times> ClientConnection" where
  "get_bi_stream L open_bi c =
     (case open_bi of
        Inl e \<Rightarrow> (Err (connection_error_io L e), c)
      | Inr bi \<Rightarrow> (Ok bi, set_streams (BiStream_new (cc_streams c)) c))"

text \<open>A stream that an \<open>async fn\<close> opens for itself is dropped when the function returns.\<close>

definition with_send_stream ::
  "('bs, 'ss, 'rs) client_lib \<Rightarrow> quinn_error + 'ss \<Rightarrow> ('ss \<Rightarrow> (io_error, 'a) outcome) \<Rightarrow> ClientConnection
   \<Rightarrow> (io_error, 'a) outcome \<times> ClientConnection" where
  "with_send_stream L open_uni f c =
     (case get_send_stream L open_uni c of
        (Ok send, c) \<Rightarrow> (f send, set_streams (drop_stream SendStream (cc_streams c)) c)
      | (Err e, c) \<Rightarrow> (Err e, c)
      | (Panic, c) \<Rightarrow> (Panic, c))"

definition SendStream_finish ::
  "('bs, 'ss, 'rs) client_lib \<Rightarrow> 'ss \<Rightarrow> (io_error, 'ss) outcome" where
  "SendStream_finish L send = map_err (write_error_io L) (uni_finish L send)"

definition BiStream_finish ::
  "('bs, 'ss, 'rs) client_lib \<Rightarrow> 'bs \<Rightarrow> (io_error, 'bs) outcome" where
  "BiStream_finish L bi = map_err (write_error_io L) (bi_finish L bi)"

text \<open>Writing one command on a stream of its own and finishing it.\<close>

definition send_command ::
  "('bs, 'ss, 'rs) client_lib \<Rightarrow> Command \<Rightarrow> 'ss \<Rightarrow> (io_error, 'ss) outcome" where
  "send_command L cmd send =
     and_then (Command_write_to (c_vec L) (uni_write L) cmd send) (SendStream_finish L)"

definition send_token ::
  "('bs, 'ss, 'rs) client_lib \<Rightarrow> quinn_error + 'ss \<Rightarrow> bytes \<Rightarrow> ClientConnection
   \<Rightarrow> (io_error, 'ss) outcome \<times> ClientConnection" where
  "send_token L open_uni digest c = with_send_stream L open_uni (send_command L (new_authenticate digest)) c"

definition send_heartbeat ::
  "('bs, 'ss, 'rs) client_lib \<Rightarrow> quinn_error + 'ss \<Rightarrow> ClientConnection
   \<Rightarrow> (io_error, 'ss) outcome \<times> ClientConnection" where
  "send_heartbeat L open_uni c = with_send_stream L open_uni (send_command L new_heartbeat) c"

definition no_active_udp_session :: "ClientConnection \<Rightarrow> bool" where
  "no_active_udp_session c \<longleftrightarrow> SessionTable_is_empty (cc_sessions c)"

text \<open>
  The task \<open>heartbeat\<close> makes its timer first. Each round of its loop is a \<open>select!\<close>, which takes one
  of the branches that are ready: \<open>NotReady\<close> is a branch that cannot be taken, \<open>LoopEnds\<close> the end of
  the loop, \<open>Round\<close> a round with the outcome of the heartbeat, if one was tried (it is only logged).
\<close>

definition heartbeat_start :: "('bs, 'ss, 'rs) client_lib \<Rightarrow> u64 \<Rightarrow> (unit, unit) outcome" where
  "heartbeat_start L interval = time_interval L (Duration_from_millis interval)"

datatype heartbeat_branch = WaitClose | Tick

datatype 'a heartbeat_result = NotReady | LoopEnds | Round 'a

definition heartbeat_round ::
  "('bs, 'ss, 'rs) client_lib \<Rightarrow> heartbeat_branch \<Rightarrow> quinn_error + 'ss \<Rightarrow> ClientConnection
   \<Rightarrow> ((io_error, 'ss) outcome option \<times> ClientConnection) heartbeat_result" where
  "heartbeat_round L branch open_uni c =
     (case branch of
        WaitClose \<Rightarrow> if ClosedFlag_poll_read (cc_closed c) then LoopEnds else NotReady
      | Tick \<Rightarrow>
          if \<not> no_active_stream (cc_streams c) \<or> \<not> no_active_udp_session c then
            (case send_heartbeat L open_uni c of (r, c) \<Rightarrow> Round (Some r, c))
          else Round (None, c))"

definition conn_send_datagram :: "(bytes \<Rightarrow> quinn_error + 'd) \<Rightarrow> bytes \<Rightarrow> (io_error, 'd) outcome" where
  "conn_send_datagram q_send_datagram data = map_err (IoError Other) (returned (q_send_datagram data))"

text \<open>
  \<open>update_max_udp_relay_packet_size\<close>: what it stores into the global \<open>MAX_UDP_RELAY_PACKET_SIZE\<close>;
  \<open>max_datagram_size\<close> is quinn's answer.
\<close>

definition update_max_udp_relay_packet_size :: "usize option \<Rightarrow> ClientConnection \<Rightarrow> usize" where
  "update_max_udp_relay_packet_size max_datagram_size c =
     (case cc_mode c of
        Native _ \<Rightarrow> (case max_datagram_size of Some n \<Rightarrow> n | None \<Rightarrow> cc_default_max c)
      | Quic _ \<Rightarrow> cc_default_max c)"

definition conn_set_closed :: "ClientConnection \<Rightarrow> ClientConnection \<times> nat list" where
  "conn_set_closed c =
     (case ClosedFlag_set (cc_closed c) of (f, woken) \<Rightarrow> (c\<lparr>cc_closed := f\<rparr>, woken))"

lemma with_send_stream_conn [simp]: "snd (with_send_stream L open_uni f c) = c"
  by (simp add: with_send_stream_def get_send_stream_def set_streams_def split: sum.split)

lemma with_send_stream_Ok:
  "fst (with_send_stream L open_uni f c) = Ok r \<longleftrightarrow> (\<exists>send. open_uni = Inr send \<and> f send = Ok r)"
  by (auto simp: with_send_stream_def get_send_stream_def split: sum.split)

section \<open>The contract of the crates\<close>

text \<open>
  \<open>bi_in\<close> is what a bidirectional stream will still deliver, \<open>bi_out\<close> what was written to it;
  \<open>uni_out\<close> and \<open>uni_in\<close> likewise for the two kinds of unidirectional streams.
\<close>

locale client_env =
  fixes L :: "('bs, 'ss, 'rs) client_lib"
    and bi_in bi_out :: "'bs \<Rightarrow> bytes"
    and uni_out :: "'ss \<Rightarrow> bytes"
    and uni_in :: "'rs \<Rightarrow> bytes"
  assumes vec_contract: "byte_buffer (c_vec L) (\<lambda>bs. bs)"
    and bi_reader: "wire_reader (bi_read L) bi_in (c_order L)"
    and bi_writer: "byte_writer (bi_write L) bi_out"
    and bi_finish_total: "bi_finish L b \<noteq> Panic"
    and uni_writer: "byte_writer (uni_write L) uni_out"
    and uni_finish_Ok: "uni_finish L w = Ok w' \<Longrightarrow> uni_out w' = uni_out w"
    and uni_finish_total: "uni_finish L w \<noteq> Panic"
    and uni_reader: "wire_reader (uni_read L) uni_in (c_order L)"
    and dg_reader: "wire_reader (dg_read L) (\<lambda>bs. bs) (c_order L)"
    and interval_panics: "time_interval L d = Panic \<longleftrightarrow> d = Duration_from_millis 0"
begin

lemma write_command_buf: "Command_write_to_buf (c_vec L) cmd [] = encode_Command cmd"
  using byte_buffer.write_Command [OF vec_contract, of cmd "[]"] by simp

lemma send_command_Ok: "send_command L cmd send = Ok send' \<Longrightarrow> uni_out send' = uni_out send @ encode_Command cmd"
  using byte_writer.write_all_Ok [OF uni_writer] uni_finish_Ok
  by (fastforce simp: send_command_def SendStream_finish_def Command_write_to_def write_command_buf outcome_simps)

lemma send_command_total: "send_command L cmd send \<noteq> Panic"
  using byte_writer.write_all_total [OF uni_writer] uni_finish_total
  by (auto simp: send_command_def SendStream_finish_def Command_write_to_def outcome_simps)

end

text \<open>The contract can hold: streams in memory.\<close>

definition mem_bi_read :: "(bytes \<times> bytes) async_read" where
  "mem_bi_read =
     \<lparr>read_u8 = \<lambda>(i, out). and_then (slice_read_u8 i) (\<lambda>(b, i). Ok (b, (i, out))),
      read_u32 = \<lambda>(i, out). and_then (slice_read_u32 i) (\<lambda>(w, i). Ok (w, (i, out))),
      read_exact = \<lambda>n (i, out). and_then (slice_read_exact n i) (\<lambda>(bs, i). Ok (bs, (i, out)))\<rparr>"

definition mem_client :: "(bytes \<times> bytes, bytes, bytes) client_lib" where
  "mem_client =
     \<lparr>c_vec = vec_buf, c_order = cursor_order, bi_read = mem_bi_read,
      bi_write = \<lparr>write_all = \<lambda>bs (i, out). Ok (i, out @ bs)\<rparr>, bi_finish = Ok,
      uni_write = vec_writer, uni_finish = Ok, uni_read = slice_reader, dg_read = slice_reader,
      write_error_io = IoError Other, connection_error_io = IoError ConnectionAborted,
      time_interval = \<lambda>d. if d = Duration_from_millis 0 then Panic else Ok ()\<rparr>"

lemma mem_bi_wire: "wire_reader mem_bi_read fst cursor_order"
  by unfold_locales
    (auto simp: mem_bi_read_def yields_def slice_read_exact_def slice_read_u32_short be32_def
      cursor_order_def)

interpretation memc: client_env mem_client fst snd "\<lambda>bs. bs" "\<lambda>bs. bs"
  by (rule client_env.intro)
    (auto simp: mem_client_def mem_bi_wire vec.byte_buffer_axioms slice.wire_reader_axioms
      byte_writer_def vec_writer_def)

section \<open>Properties\<close>

text \<open>What the loop over the addresses does, when no attempt panics.\<close>

lemma try_addrs_cases:
  assumes "\<And>a. attempt a \<noteq> Panic"
  shows "(\<exists>before addr after c. addrs = before @ addr # after \<and> attempt addr = Ok c \<and>
        (\<forall>a \<in> set before. \<exists>e. attempt a = Err e) \<and> try_addrs attempt addrs e0 = Ok c) \<or>
    ((\<forall>a \<in> set addrs. \<exists>e. attempt a = Err e) \<and>
      (if addrs = [] then try_addrs attempt addrs e0 = Err e0
       else \<exists>e. attempt (last addrs) = Err e \<and> try_addrs attempt addrs e0 = Err (Some e)))"
proof (induction addrs arbitrary: e0)
  case (Cons a addrs)
  show ?case
  proof (cases "attempt a")
    case (Ok c)
    then have "a # addrs = [] @ a # addrs \<and> attempt a = Ok c \<and> (\<forall>a \<in> set []. \<exists>e. attempt a = Err e) \<and>
      try_addrs attempt (a # addrs) e0 = Ok c" by simp
    then show ?thesis by blast
  next
    case (Err e)
    from Cons.IH [of "Some e"] show ?thesis
    proof (elim disjE exE conjE)
      fix before addr after c
      assume "addrs = before @ addr # after" "attempt addr = Ok c" "\<forall>a \<in> set before. \<exists>e. attempt a = Err e"
        "try_addrs attempt addrs (Some e) = Ok c"
      with Err have "a # addrs = (a # before) @ addr # after \<and> attempt addr = Ok c \<and>
        (\<forall>a \<in> set (a # before). \<exists>e. attempt a = Err e) \<and> try_addrs attempt (a # addrs) e0 = Ok c" by simp
      then show ?thesis by blast
    next
      assume "\<forall>a \<in> set addrs. \<exists>e. attempt a = Err e"
        and "if addrs = [] then try_addrs attempt addrs (Some e) = Err (Some e)
          else \<exists>e'. attempt (last addrs) = Err e' \<and> try_addrs attempt addrs (Some e) = Err (Some e')"
      with Err show ?thesis by (auto split: if_splits)
    qed
  next
    case Panic
    with assms show ?thesis by blast
  qed
qed simp

lemma connect_addr_total: "connect_addr L q config addr name \<noteq> Panic"
  by (auto simp: connect_addr_def outcome_simps split: sum.splits if_splits)

fun resolved :: "(string \<Rightarrow> u16 \<Rightarrow> io_error + SocketAddr list) \<Rightarrow> ServerAddr \<Rightarrow> io_error + SocketAddr list \<times> string" where
  "resolved lookup_host (ServerSocketAddr addr name) = Inr ([addr], name)"
| "resolved lookup_host (ServerDomainAddr domain port) = map_sum id (\<lambda>addrs. (addrs, domain)) (lookup_host domain port)"

lemma Connection_connect_resolved:
  "Connection_connect L q lookup_host config =
     (case resolved lookup_host (server_addr config) of
        Inl e \<Rightarrow> Err e
      | Inr (addrs, name) \<Rightarrow>
          map_err (\<lambda>last_err. case last_err of Some err \<Rightarrow> err | None \<Rightarrow> no_address)
            (try_addrs (\<lambda>addr. connect_addr L q config addr name) addrs None))"
  by (cases "server_addr config"; cases "lookup_host (case server_addr config of ServerDomainAddr d p \<Rightarrow> d) (case server_addr config of ServerDomainAddr d p \<Rightarrow> p)")
    (auto simp: Connection_connect_def)

text \<open>
  Which server address is used. \<open>Connection::connect\<close> takes the first of the resolved addresses
  on which a connection is established; it fails only if every attempt failed, with the error of
  the last attempt, or with \<open>Unable to connect to the server\<close> when there was no address at all.
\<close>

lemma connect_first_address:
  assumes "resolved lookup_host (server_addr config) = Inr (addrs, name)"
  shows "(\<exists>before addr after c. addrs = before @ addr # after \<and>
        connect_addr L q config addr name = Ok c \<and>
        (\<forall>a \<in> set before. \<exists>e. connect_addr L q config a name = Err e) \<and>
        Connection_connect L q lookup_host config = Ok c) \<or>
    (addrs = [] \<and> Connection_connect L q lookup_host config = Err no_address) \<or>
    (addrs \<noteq> [] \<and> (\<forall>a \<in> set addrs. \<exists>e. connect_addr L q config a name = Err e) \<and>
      (\<exists>e. connect_addr L q config (last addrs) name = Err e \<and>
        Connection_connect L q lookup_host config = Err e))"
proof -
  let ?attempts = "try_addrs (\<lambda>addr. connect_addr L q config addr name) addrs None"
  have ok: "Connection_connect L q lookup_host config = Ok c" if "?attempts = Ok c" for c
    using that by (simp add: Connection_connect_resolved assms)
  have err: "Connection_connect L q lookup_host config = Err (case e of Some e \<Rightarrow> e | None \<Rightarrow> no_address)"
    if "?attempts = Err e" for e
    using that by (simp add: Connection_connect_resolved assms)
  from try_addrs_cases [of "\<lambda>addr. connect_addr L q config addr name" addrs None, OF connect_addr_total]
  show ?thesis
  proof (elim disjE conjE)
    assume "\<forall>a \<in> set addrs. \<exists>e. connect_addr L q config a name = Err e"
      and "if addrs = [] then ?attempts = Err None
        else \<exists>e. connect_addr L q config (last addrs) name = Err e \<and> ?attempts = Err (Some e)"
    with err [of None] err [of "Some _"] show ?thesis by (auto split: if_splits)
  qed (use ok in blast)
qed

definition demo_config :: ConnectionConfig where
  "demo_config =
     \<lparr>server_addr = ServerDomainAddr ''relay.example'' 443, token_digest = replicate 32 1,
      config_mode = Native (), heartbeat_interval = 10000, reduce_rtt = False, config_max_size = 1500\<rparr>"

text \<open>A network on which only addresses that start with 10 answer.\<close>

definition demo_quinn :: "(SocketAddr, SocketAddr, SocketAddr) quinn_connect" where
  "demo_quinn =
     \<lparr>client_endpoint = Inr,
      connect_with = \<lambda>ep addr name. (case addr of V4 (Ipv4Addr a b c d) port \<Rightarrow>
        if a = 10 then Inr addr else Inl ''unreachable'' | _ \<Rightarrow> Inl ''no route''),
      into_0rtt = Inl, handshake = Inr\<rparr>"

definition demo_addrs :: "SocketAddr list" where
  "demo_addrs = [V4 (Ipv4Addr 9 0 0 1) 443, V4 (Ipv4Addr 10 0 0 2) 443, V4 (Ipv4Addr 10 0 0 3) 443]"

lemma connect_first_address_witness:
  "Connection_connect mem_client demo_quinn (\<lambda>d p. Inr demo_addrs) demo_config
     = Ok (V4 (Ipv4Addr 10 0 0 2) 443, Connection_new demo_config) \<and>
   Connection_connect mem_client demo_quinn (\<lambda>d p. Inr []) demo_config = Err no_address"
proof
  show "Connection_connect mem_client demo_quinn (\<lambda>d p. Inr demo_addrs) demo_config
     = Ok (V4 (Ipv4Addr 10 0 0 2) 443, Connection_new demo_config)"
    by (simp add: Connection_connect_def demo_config_def demo_addrs_def connect_addr_def demo_quinn_def)
  show "Connection_connect mem_client demo_quinn (\<lambda>d p. Inr []) demo_config = Err no_address"
    using connect_first_address [of "\<lambda>d p. Inr []" demo_config "[]" "''relay.example''" mem_client demo_quinn]
    by (simp add: demo_config_def)
qed

text \<open>
  C32: When a heartbeat is sent. At a tick of its timer the heartbeat loop sends a heartbeat exactly
  if a stream of the connection is open or a UDP session exists, on a stream that no longer counts
  as open afterwards (so that heartbeats do not keep themselves going). The loop ends only on a
  closed connection.
\<close>

theorem heartbeat_when_active:
  assumes "streams_reachable (cc_streams c)" and "conn_alive (cc_streams c)"
  shows "(open_streams (cc_streams c) = {#} \<and> (\<forall>a. SessionTable_get a (cc_sessions c) = None) \<longrightarrow>
        heartbeat_round L Tick open_uni c = Round (None, c)) \<and>
      (open_streams (cc_streams c) \<noteq> {#} \<or> (\<exists>a. SessionTable_get a (cc_sessions c) \<noteq> None) \<longrightarrow>
        heartbeat_round L Tick open_uni c = Round (Some (fst (send_heartbeat L open_uni c)), c)) \<and>
      (heartbeat_round L branch open_uni c = LoopEnds \<longleftrightarrow> branch = WaitClose \<and> closed_flag (cc_closed c))"
proof -
  have "no_active_stream (cc_streams c) \<longleftrightarrow> open_streams (cc_streams c) = {#}"
    using assms by (simp add: no_active_stream_iff streams_reachable_ok)
  moreover have "no_active_udp_session c \<longleftrightarrow> (\<forall>a. SessionTable_get a (cc_sessions c) = None)"
    by (simp add: no_active_udp_session_def sessions.is_empty_iff)
  moreover have "send_heartbeat L open_uni c = (fst (send_heartbeat L open_uni c), c)"
    by (simp add: send_heartbeat_def prod_eq_iff)
  ultimately show ?thesis
    by (auto simp: heartbeat_round_def ClosedFlag_poll_read_def split: prod.splits heartbeat_branch.splits)
qed

theorem heartbeat_when_active_witness:
  "heartbeat_round mem_client Tick (Inr []) (fst (Connection_new demo_config))
     = Round (None, fst (Connection_new demo_config))"
proof -
  let ?c = "fst (Connection_new demo_config)"
  have "cc_streams ?c = streams_new" and "\<not> closed_flag (cc_closed ?c)"
    and "cc_sessions ?c = SessionTable_new"
    by (simp_all add: Connection_new_def ClosedFlag_new_def)
  moreover have "conn_alive streams_new" and "open_streams streams_new = {#}"
    by (simp_all add: streams_new_def)
  ultimately show ?thesis
    using heartbeat_when_active [of ?c mem_client "Inr []"] streams_reachable.start sessions.get_empty by simp
qed

end
