(* ===== verification/Client_Task.thy ===== *)
theory Client_Task
  imports Client_Connection
begin

text \<open>
  \<open>client/src/relay/task.rs\<close> and the parsing half of \<open>client/src/relay/incoming.rs\<close>: what a relay
  request does on a connection, and what the client makes of the packets the server sends. What
  quinn returns for a new stream or a datagram is an argument.
\<close>

section \<open>Connect\<close>

definition drop_bi :: "ClientConnection \<Rightarrow> ClientConnection" where
  "drop_bi c = set_streams (drop_stream BiStream (cc_streams c)) c"

definition negotiate_connect ::
  "('bs, 'ss, 'rs) client_lib \<Rightarrow> quinn_error + 'bs \<Rightarrow> RelayAddress \<Rightarrow> ClientConnection
   \<Rightarrow> (io_error, 'bs option) outcome \<times> ClientConnection" where
  "negotiate_connect L open_bi addr c =
     (let cmd = new_connect (TuicAddress_from addr) in
      case get_bi_stream L open_bi c of
        (Err e, c) \<Rightarrow> (Err e, c)
      | (Panic, c) \<Rightarrow> (Panic, c)
      | (Ok stream, c) \<Rightarrow>
          (case Command_write_to (c_vec L) (bi_write L) cmd stream of
             Err e \<Rightarrow> (Err e, drop_bi c)
           | Panic \<Rightarrow> (Panic, drop_bi c)
           | Ok stream \<Rightarrow>
               (case Command_read_from (bi_read L) (c_order L) stream of
                  Err err \<Rightarrow> (and_then (BiStream_finish L stream) (\<lambda>_. Err err), drop_bi c)
                | Panic \<Rightarrow> (Panic, drop_bi c)
                | Ok (resp, stream) \<Rightarrow>
                    if resp = Response True then (Ok (Some stream), c)
                    else (and_then (BiStream_finish L stream) (\<lambda>_. Ok None), drop_bi c))))"

text \<open>
  What the requester's oneshot channel receives: the stream, or nothing (the sender is dropped).
  Errors are only logged.
\<close>

definition handle_connect ::
  "('bs, 'ss, 'rs) client_lib \<Rightarrow> quinn_error + 'bs \<Rightarrow> RelayAddress \<Rightarrow> ClientConnection
   \<Rightarrow> (unit, 'bs option) outcome \<times> ClientConnection" where
  "handle_connect L open_bi addr c =
     (case negotiate_connect L open_bi addr c of
        (Ok (Some stream), c) \<Rightarrow> (Ok (Some stream), c)
      | (Ok None, c) \<Rightarrow> (Ok None, c)
      | (Err _, c) \<Rightarrow> (Ok None, c)
      | (Panic, c) \<Rightarrow> (Panic, c))"

section \<open>Packets to the server\<close>

definition send_packet_native ::
  "('bs, 'ss, 'rs) client_lib \<Rightarrow> (bytes \<Rightarrow> quinn_error + 'd) \<Rightarrow> u32 \<Rightarrow> bytes \<Rightarrow> RelayAddress
   \<Rightarrow> (io_error, 'd) outcome" where
  "send_packet_native L q_send_datagram assoc_id pkt addr =
     (let cmd = new_packet assoc_id (of_nat (length pkt)) (TuicAddress_from addr);
          buf = Command_write_to_buf (c_vec L) cmd [];
          pkt = extend_from_slice (c_vec L) pkt buf
      in conn_send_datagram q_send_datagram pkt)"

definition send_packet_quic ::
  "('bs, 'ss, 'rs) client_lib \<Rightarrow> quinn_error + 'ss \<Rightarrow> u32 \<Rightarrow> bytes \<Rightarrow> RelayAddress \<Rightarrow> ClientConnection
   \<Rightarrow> (io_error, 'ss) outcome \<times> ClientConnection" where
  "send_packet_quic L open_uni assoc_id pkt addr c =
     (let cmd = new_packet assoc_id (of_nat (length pkt)) (TuicAddress_from addr) in
      with_send_stream L open_uni (\<lambda>send.
        and_then (Command_write_to (c_vec L) (uni_write L) cmd send) (\<lambda>send.
        and_then (write_all (uni_write L) pkt send) (\<lambda>send.
        SendStream_finish L send))) c)"

text \<open>
  \<open>handle_packet_to\<close>: the value stored into the global packet size, whether the packet was sent,
  and the connection.
\<close>

definition handle_packet_to ::
  "('bs, 'ss, 'rs) client_lib \<Rightarrow> usize option \<Rightarrow> (bytes \<Rightarrow> quinn_error + unit) \<Rightarrow> quinn_error + 'ss
   \<Rightarrow> u32 \<Rightarrow> bytes \<Rightarrow> RelayAddress \<Rightarrow> relay_mode \<Rightarrow> ClientConnection
   \<Rightarrow> usize \<times> (io_error, unit) outcome \<times> ClientConnection" where
  "handle_packet_to L max_datagram_size q_send_datagram open_uni assoc_id pkt addr mode c =
     (update_max_udp_relay_packet_size max_datagram_size c,
      (case mode of
         Native _ \<Rightarrow> (send_packet_native L q_send_datagram assoc_id pkt addr, c)
       | Quic _ \<Rightarrow>
           (case send_packet_quic L open_uni assoc_id pkt addr c of
              (r, c) \<Rightarrow> (and_then r (\<lambda>_. Ok ()), c))))"

section \<open>Packets from the server\<close>

text \<open>The value stored into the global packet size, and the channel the packet goes to, if any.\<close>

definition handle_packet_from ::
  "usize option \<Rightarrow> u32 \<Rightarrow> bytes \<Rightarrow> RelayAddress \<Rightarrow> ClientConnection
   \<Rightarrow> usize \<times> (nat \<times> bytes \<times> RelayAddress) option" where
  "handle_packet_from max_datagram_size assoc_id pkt addr c =
     (update_max_udp_relay_packet_size max_datagram_size c,
      (case SessionTable_get assoc_id (cc_sessions c) of
         Some recv_pkt_tx \<Rightarrow> Some (recv_pkt_tx, pkt, addr)
       | None \<Rightarrow> None))"

definition handle_dissociate ::
  "('bs, 'ss, 'rs) client_lib \<Rightarrow> quinn_error + 'ss \<Rightarrow> u32 \<Rightarrow> ClientConnection
   \<Rightarrow> (io_error, 'ss) outcome \<times> ClientConnection" where
  "handle_dissociate L open_uni assoc_id c =
     with_send_stream L open_uni (send_command L (new_dissociate assoc_id)) c"

definition unexpected :: "string \<Rightarrow> io_error" where
  "unexpected what = IoError InvalidData (''[relay] [connection] Unexpected incoming '' @ what)"

definition parse_datagram ::
  "('bs, 'ss, 'rs) client_lib \<Rightarrow> bytes \<Rightarrow> (io_error, u32 \<times> bytes \<times> RelayAddress) outcome" where
  "parse_datagram L pkt =
     and_then (Command_read_from (dg_read L) (c_order L) pkt) (\<lambda>(cmd, _).
     let cmd_len = Command_serialized_len cmd in
     case cmd of
       Packet assoc_id len addr \<Rightarrow>
         and_then (slice_range cmd_len (cmd_len + unat len) pkt) (\<lambda>pkt.
         Ok (assoc_id, pkt, RelayAddress_from addr))
     | _ \<Rightarrow> Err (unexpected ''datagram''))"

definition parse_uni_stream ::
  "('bs, 'ss, 'rs) client_lib \<Rightarrow> 'rs \<Rightarrow> (io_error, u32 \<times> bytes \<times> RelayAddress) outcome" where
  "parse_uni_stream L recv =
     and_then (Command_read_from (uni_read L) (c_order L) recv) (\<lambda>(cmd, recv).
     case cmd of
       Packet assoc_id len addr \<Rightarrow>
         and_then (read_exact (uni_read L) (unat len) recv) (\<lambda>(pkt, _).
         Ok (assoc_id, pkt, RelayAddress_from addr))
     | _ \<Rightarrow> Err (unexpected ''uni stream''))"

text \<open>\<open>process_incoming_datagram\<close> and \<open>process_incoming_uni_stream\<close>: an error is only logged.\<close>

definition process_incoming ::
  "usize option \<Rightarrow> (io_error, u32 \<times> bytes \<times> RelayAddress) outcome \<Rightarrow> ClientConnection
   \<Rightarrow> (unit, (usize \<times> (nat \<times> bytes \<times> RelayAddress) option) option) outcome" where
  "process_incoming max_datagram_size parsed c =
     (case parsed of
        Ok (assoc_id, pkt, addr) \<Rightarrow> Ok (Some (handle_packet_from max_datagram_size assoc_id pkt addr c))
      | Err _ \<Rightarrow> Ok None
      | Panic \<Rightarrow> Panic)"

definition process_incoming_datagram ::
  "('bs, 'ss, 'rs) client_lib \<Rightarrow> usize option \<Rightarrow> bytes \<Rightarrow> ClientConnection
   \<Rightarrow> (unit, (usize \<times> (nat \<times> bytes \<times> RelayAddress) option) option) outcome" where
  "process_incoming_datagram L max_datagram_size pkt c =
     process_incoming max_datagram_size (parse_datagram L pkt) c"

definition process_incoming_uni_stream ::
  "('bs, 'ss, 'rs) client_lib \<Rightarrow> usize option \<Rightarrow> 'rs \<Rightarrow> ClientConnection
   \<Rightarrow> (unit, (usize \<times> (nat \<times> bytes \<times> RelayAddress) option) option) outcome" where
  "process_incoming_uni_stream L max_datagram_size recv c =
     process_incoming max_datagram_size (parse_uni_stream L recv) c"

section \<open>What is sent and what is read\<close>

lemma drop_bi_new: "drop_bi (set_streams (BiStream_new (cc_streams c)) c) = c"
  by (simp add: drop_bi_def set_streams_def BiStream_new_def drop_stream_def numeral_2_eq_2
    Register_clone_def Register_drop_def)

context client_env
begin

lemma send_packet_native_Ok:
  "send_packet_native L q_send assoc_id pkt addr = Ok () \<longleftrightarrow>
     q_send (encode_Command (Packet assoc_id (of_nat (length pkt)) (TuicAddress_from addr)) @ pkt) = Inr ()"
  using byte_buffer.extend_from_slice [OF vec_contract]
  by (simp add: send_packet_native_def conn_send_datagram_def write_command_buf outcome_simps Let_def)

lemma send_packet_quic_Ok:
  assumes "fst (send_packet_quic L (Inr send) assoc_id pkt addr c) = Ok send'"
  shows "uni_out send' =
    uni_out send @ encode_Command (Packet assoc_id (of_nat (length pkt)) (TuicAddress_from addr)) @ pkt"
  using assms byte_writer.write_all_Ok [OF uni_writer] uni_finish_Ok
  by (fastforce simp: send_packet_quic_def with_send_stream_Ok SendStream_finish_def Command_write_to_def
      write_command_buf outcome_simps Let_def)

lemma parse_datagram_cases:
  assumes "Command_ok (Packet assoc_id len addr)"
  shows "parse_datagram L (encode_Command (Packet assoc_id len addr) @ payload) =
    (if unat len \<le> length payload
     then Ok (assoc_id, take (unat len) payload, RelayAddress_from (wire_Address addr)) else Panic)"
proof -
  let ?c = "Packet assoc_id len addr"
  obtain rest where r: "Command_read_from (dg_read L) (c_order L) (encode_Command ?c @ payload)
      = Ok (wire_Command ?c, rest)"
    using wire_reader.read_Command_encode [OF dg_reader refl assms, of payload] by (auto simp: yields_def)
  have len: "Command_serialized_len (wire_Command ?c) = length (encode_Command ?c)"
    using length_encode_Command [of "wire_Command ?c"] assms
    by (cases addr rule: wire_Address.cases) (auto simp: length_encode_Address)
  show ?thesis
    unfolding parse_datagram_def r using len
    by (simp add: Let_def slice_range_def del: encode_Command.simps Command_serialized_len.simps)
qed

lemma parse_uni_stream_ok:
  assumes "Command_ok (Packet assoc_id len addr)" and "unat len \<le> length payload"
    and "uni_in recv = encode_Command (Packet assoc_id len addr) @ payload"
  shows "parse_uni_stream L recv = Ok (assoc_id, take (unat len) payload, RelayAddress_from (wire_Address addr))"
proof -
  let ?c = "Packet assoc_id len addr"
  obtain recv' where r: "Command_read_from (uni_read L) (c_order L) recv = Ok (wire_Command ?c, recv')"
    and c: "uni_in recv' = payload"
    using wire_reader.read_Command_encode [OF uni_reader assms(3,1)] by (auto simp: yields_def)
  then have "uni_in recv' = take (unat len) payload @ drop (unat len) payload" by simp
  from async_reader.read_exact_more [OF wire_reader.axioms(1) [OF uni_reader] this, of "unat len"]
  obtain recv'' where "read_exact (uni_read L) (unat len) recv' = Ok (take (unat len) payload, recv'')"
    using assms(2) by (auto simp: yields_def)
  with r show ?thesis by (simp add: parse_uni_stream_def)
qed

lemma parse_uni_stream_total: "parse_uni_stream L recv \<noteq> Panic"
proof -
  have "Command_read_from (uni_read L) (c_order L) recv \<noteq> Panic"
    using wire_reader.read_Command_exact [OF uni_reader, of recv] by (auto simp: exact_read_def)
  moreover have "read_exact (uni_read L) n r \<noteq> Panic" for n r
    using async_reader.read_exact_cases [OF wire_reader.axioms(1) [OF uni_reader], of n r] by force
  ultimately show ?thesis
    by (auto simp: parse_uni_stream_def outcome_simps split: Command.splits)
qed

lemma parse_datagram_panics:
  "parse_datagram L pkt = Panic \<longleftrightarrow>
     (\<exists>assoc_id len addr payload. Command_ok (Packet assoc_id len addr) \<and> wire_Address addr = addr \<and>
        pkt = encode_Command (Packet assoc_id len addr) @ payload \<and> length payload < unat len)"
proof
  assume p: "parse_datagram L pkt = Panic"
  from wire_reader.read_Command_exact [OF dg_reader, of pkt]
  show "\<exists>assoc_id len addr payload. Command_ok (Packet assoc_id len addr) \<and> wire_Address addr = addr \<and>
        pkt = encode_Command (Packet assoc_id len addr) @ payload \<and> length payload < unat len"
  proof (cases rule: exact_read_cases)
    case (success cmd rest)
    with p obtain assoc_id len addr where c: "cmd = Packet assoc_id len addr"
      by (cases cmd) (auto simp: parse_datagram_def Let_def)
    with success parse_datagram_cases [of assoc_id len addr rest] p show ?thesis
      by (intro exI [of _ assoc_id] exI [of _ len] exI [of _ addr] exI [of _ rest])
        (auto split: if_splits simp del: encode_Command.simps)
  qed (use p in \<open>auto simp: parse_datagram_def\<close>)
qed (auto simp: parse_datagram_cases simp del: encode_Command.simps)

text \<open>The server's answer decides what becomes of a \<open>Connect\<close>.\<close>

lemma handle_connect_accepted:
  assumes w: "Command_write_to (c_vec L) (bi_write L) (Connect (TuicAddress_from addr)) bi = Ok bi1"
    and "bi_in bi1 = encode_Command (Response True) @ rest"
  obtains bi2 where "handle_connect L (Inr bi) addr c = (Ok (Some bi2), set_streams (BiStream_new (cc_streams c)) c)"
    "bi_in bi2 = rest"
proof -
  from wire_reader.read_Command_encode [OF bi_reader assms(2)]
  obtain bi2 where "Command_read_from (bi_read L) (c_order L) bi1 = Ok (Response True, bi2)" "bi_in bi2 = rest"
    by (auto simp: yields_def)
  with w that show thesis by (simp add: handle_connect_def negotiate_connect_def get_bi_stream_def)
qed

lemma handle_connect_refused:
  assumes w: "Command_write_to (c_vec L) (bi_write L) (Connect (TuicAddress_from addr)) bi = Ok bi1"
    and no: "\<nexists>rest. bi_in bi1 = encode_Command (Response True) @ rest"
  shows "handle_connect L (Inr bi) addr c = (Ok None, c)"
proof -
  have fin: "BiStream_finish L b \<noteq> Panic" for b
    using bi_finish_total by (auto simp: BiStream_finish_def outcome_simps)
  from wire_reader.read_Command_exact [OF bi_reader, of bi1] show ?thesis
  proof (cases rule: exact_read_cases)
    case (success cmd bi2)
    with no have "cmd \<noteq> Response True" by auto
    with success(1) w fin [of bi2] show ?thesis
      by (cases "BiStream_finish L bi2")
        (simp_all add: handle_connect_def negotiate_connect_def get_bi_stream_def drop_bi_new)
  next
    case (error e)
    with w fin [of bi1] show ?thesis
      by (cases "BiStream_finish L bi1")
        (simp_all add: handle_connect_def negotiate_connect_def get_bi_stream_def drop_bi_new)
  qed
qed

end

section \<open>Properties\<close>

lemma mem_write_Connect:
  "Command_write_to (c_vec mem_client) (bi_write mem_client) cmd (i, out) = Ok (i, out @ encode_Command cmd)"
  using memc.write_command_buf by (simp add: Command_write_to_def mem_client_def)

text \<open>
  C29: Datagrams that stop the client. Handling a datagram from the server panics exactly when it
  starts with a well-formed \<open>Packet\<close> header whose length field is larger than the number of bytes
  that follow: the payload is cut out with \<open>Bytes::slice\<close>, without a check.
\<close>

theorem datagram_panics:
  assumes "client_env L bi_in bi_out uni_out uni_in"
  shows "process_incoming_datagram L max_datagram_size pkt c = Panic \<longleftrightarrow>
     (\<exists>assoc_id len addr payload. Command_ok (Packet assoc_id len addr) \<and> wire_Address addr = addr \<and>
        pkt = encode_Command (Packet assoc_id len addr) @ payload \<and> length payload < unat len)"
  unfolding client_env.parse_datagram_panics [OF assms, symmetric] process_incoming_datagram_def
    process_incoming_def
  by (simp split: outcome.split prod.split)

theorem datagram_panics_witness:
  "process_incoming_datagram mem_client None
     (encode_Command (Packet 7 3 (SocketAddress (V4 (Ipv4Addr 10 0 0 1) 53))) @ [65, 66])
     (fst (Connection_new demo_config)) = Panic"
  unfolding datagram_panics [OF memc.client_env_axioms]
  by (intro exI [of _ 7] exI [of _ 3] exI [of _ "SocketAddress (V4 (Ipv4Addr 10 0 0 1) 53)"] exI [of _ "[65, 66]"])
    simp

end
