(* ===== verification/Client_Request.thy ===== *)
theory Client_Request
  imports Client_Connection
begin

text \<open>
  \<open>client/src/relay/request.rs\<close>: the requests that the SOCKS5 side sends to the relay, and the
  reference-counted register by which the connection manager learns that there is a request. The
  task of a request is in the theory of the relay.
\<close>

section \<open>Requests\<close>

text \<open>The halves of channels are named by the handle of the channel.\<close>

datatype Request =
  RequestConnect (request_addr: RelayAddress) (response_tx: nat)
| RequestAssociate (request_assoc: u32) (pkt_send_rx: nat) (pkt_recv_tx: nat)

text \<open>\<open>Request::new_connect\<close>: \<open>ch\<close> is the new oneshot channel; the result has its receiver.\<close>

definition Request_new_connect :: "RelayAddress \<Rightarrow> nat \<Rightarrow> Request \<times> nat" where
  "Request_new_connect addr ch = (RequestConnect addr ch, ch)"

text \<open>
  \<open>Request::new_associate\<close>: \<open>random\<close> is what the generator returned, \<open>send\<close> and \<open>recv\<close> are the two
  new channels; the result has the sender of the first and the receiver of the second.
\<close>

definition Request_new_associate :: "u32 \<Rightarrow> nat \<Rightarrow> nat \<Rightarrow> Request \<times> nat \<times> nat" where
  "Request_new_associate random send recv = (RequestAssociate random send recv, send, recv)"

section \<open>The register of requests\<close>

text \<open>
  An \<open>Arc\<close> around the waker of the one task that waits: the number of its owners, and whether the
  waker is there.
\<close>

record RequestRegister =
  strong_count :: nat
  req_waker :: bool

definition RequestRegister_new :: RequestRegister where
  "RequestRegister_new = \<lparr>strong_count = 1, req_waker = False\<rparr>"

text \<open>\<open>clone\<close> first adds an owner, then takes the waker out and wakes it: two steps.\<close>

definition RequestRegister_clone_arc :: "RequestRegister \<Rightarrow> RequestRegister" where
  "RequestRegister_clone_arc rg = rg\<lparr>strong_count := Suc (strong_count rg)\<rparr>"

definition RequestRegister_clone_wake :: "RequestRegister \<Rightarrow> RequestRegister \<times> bool" where
  "RequestRegister_clone_wake rg = (rg\<lparr>req_waker := False\<rparr>, req_waker rg)"

definition RequestRegister_drop :: "RequestRegister \<Rightarrow> RequestRegister" where
  "RequestRegister_drop rg = rg\<lparr>strong_count := strong_count rg - 1\<rparr>"

text \<open>\<open>Wait::poll\<close> first reads the number of owners; if that is at most one, it stores the waker.\<close>

definition Wait_poll_count :: "RequestRegister \<Rightarrow> bool" where
  "Wait_poll_count rg \<longleftrightarrow> strong_count rg > 1"

definition Wait_poll_register :: "RequestRegister \<Rightarrow> RequestRegister" where
  "Wait_poll_register rg = (if strong_count rg > 0 then rg\<lparr>req_waker := True\<rparr> else rg)"

lemmas register_step_defs = RequestRegister_clone_arc_def RequestRegister_clone_wake_def
  RequestRegister_drop_def Wait_poll_count_def Wait_poll_register_def

end
