(* ===== verification/Client_Relay.thy ===== *)
theory Client_Relay
  imports Client_Task Client_Request
begin

text \<open>
  The relay of the client as a system of tasks (\<open>client/src/relay/\<close>): the connection manager
  (\<open>manage_connection\<close>), the task that accepts requests and the task of each request (\<open>request.rs\<close>),
  the task that listens to what the server sends (\<open>listen_incoming\<close>) and the tasks it starts. They
  share the mutex with the current connection, the register of requests, the closed flag and the
  session table of each connection, and a chain of oneshot channels that hands every new
  connection to the listener.

  A label names the task that runs and gives it what its surroundings return; a task runs from one
  \<open>await\<close> (or one access to shared state that another thread may interleave with) to the next.
\<close>

section \<open>States\<close>

text \<open>Who holds the mutex around the current connection.\<close>

datatype holder = NoHolder | ManagerHolds | RequestHolds nat

text \<open>
  Where the manager is: polling \<open>wait_req\<close> (reading the count, then storing the waker, then
  waiting to be woken), connecting, sleeping after a failure, polling the closed flag of a
  connection (in the same three parts), or waiting for the mutex.
\<close>

datatype manager_pc =
  WaitReq | WaitReqUnset | WaitReqParked | Establishing | Sleeping
| CloseRead nat | CloseUnset nat | CloseParked nat | Locking nat

text \<open>
  Where the task of a request is: not spawned yet (its register is being cloned), waiting for the
  mutex, holding it, serving the request on a connection, in the packet loop of an association, or
  finished.
\<close>

datatype request_pc =
  ReqCloning | ReqLocking | ReqHolding | ReqServing nat | ReqAssociated nat | ReqDone

text \<open>Where \<open>listen_incoming\<close> is: waiting on a channel, or listening to a connection.\<close>

datatype incoming_pc = AwaitChannel nat | Listening nat nat

text \<open>The tasks that are spawned for single packets.\<close>

datatype 'rs spawned =
  SendPacket nat u32 bytes RelayAddress
| IncomingDatagram nat bytes
| IncomingUni nat 'rs

text \<open>The places at which the code panics when what its comments claim does not hold.\<close>

datatype panic_site = UnwrapConnection | UnwrapGuard | UnwrapIncoming | DatagramSlice | UniStream | ConnectTask | PacketTask

datatype 'bs relay_event =
  ConnectReply nat "'bs option"
| PacketDelivered u32 nat bytes RelayAddress

record ('bs, 'rs) relay =
  r_conns :: "ClientConnection list"
  r_slot :: "nat option"
  r_holder :: holder
  r_guard :: bool
  r_manager :: manager_pc
  r_register :: RequestRegister
  r_accepting :: bool
  r_requests :: "(Request \<times> request_pc) list"
  r_channels :: "(nat \<times> nat) option list"
  r_next_tx :: nat
  r_incoming :: incoming_pc
  r_spawned :: "'rs spawned list"
  r_max_size :: usize
  r_panics :: "panic_site list"
  r_log :: "'bs relay_event list"

text \<open>
  \<open>incoming::channel\<close>, \<open>Sender::send\<close> and \<open>Receiver::next\<close>. A channel is an index into the list of
  channels; it has the connection and the next channel once they were sent. Receiving on a channel
  whose sender is gone without having sent is an error; the only sender that is still there is the
  manager's.
\<close>

definition incoming_channel :: "('bs, 'rs) relay \<Rightarrow> nat \<times> ('bs, 'rs) relay" where
  "incoming_channel s = (length (r_channels s), s\<lparr>r_channels := r_channels s @ [None]\<rparr>)"

definition incoming_send :: "nat \<Rightarrow> nat \<Rightarrow> nat \<Rightarrow> ('bs, 'rs) relay \<Rightarrow> ('bs, 'rs) relay" where
  "incoming_send tx conn next_rx s = s\<lparr>r_channels := (r_channels s)[tx := Some (conn, next_rx)]\<rparr>"

datatype 'a recv_result = Waiting | Closed | GotConnection 'a

definition incoming_next :: "nat \<Rightarrow> ('bs, 'rs) relay \<Rightarrow> (nat \<times> nat) recv_result" where
  "incoming_next rx s =
     (if rx < length (r_channels s) then
        (case r_channels s ! rx of
           Some v \<Rightarrow> GotConnection v
         | None \<Rightarrow> if r_next_tx s = rx then Waiting else Closed)
      else Closed)"

text \<open>\<open>relay::init\<close>: the mutex is locked before any task starts, and the manager has the guard.\<close>

definition relay_init :: "('bs, 'rs) relay" where
  "relay_init =
     \<lparr>r_conns = [], r_slot = None, r_holder = ManagerHolds, r_guard = True, r_manager = WaitReq,
      r_register = RequestRegister_new, r_accepting = True, r_requests = [], r_channels = [None],
      r_next_tx = 0, r_incoming = AwaitChannel 0, r_spawned = [], r_max_size = 1500, r_panics = [],
      r_log = []\<rparr>"

section \<open>Steps\<close>

definition rpanic :: "panic_site \<Rightarrow> ('bs, 'rs) relay \<Rightarrow> ('bs, 'rs) relay" where
  "rpanic site s = s\<lparr>r_panics := site # r_panics s\<rparr>"

definition set_conn :: "nat \<Rightarrow> ClientConnection \<Rightarrow> ('bs, 'rs) relay \<Rightarrow> ('bs, 'rs) relay" where
  "set_conn k c s = s\<lparr>r_conns := (r_conns s)[k := c]\<rparr>"

definition set_request :: "nat \<Rightarrow> request_pc \<Rightarrow> ('bs, 'rs) relay \<Rightarrow> ('bs, 'rs) relay" where
  "set_request i pc s = s\<lparr>r_requests := (r_requests s)[i := (fst (r_requests s ! i), pc)]\<rparr>"

text \<open>The end of the task of a request drops its register.\<close>

definition finish_request :: "nat \<Rightarrow> ('bs, 'rs) relay \<Rightarrow> ('bs, 'rs) relay" where
  "finish_request i s = set_request i ReqDone (s\<lparr>r_register := RequestRegister_drop (r_register s)\<rparr>)"

definition request_at :: "('bs, 'rs) relay \<Rightarrow> nat \<Rightarrow> (Request \<times> request_pc) option" where
  "request_at s i = (if i < length (r_requests s) then Some (r_requests s ! i) else None)"

definition relay_log :: "'bs relay_event \<Rightarrow> ('bs, 'rs) relay \<Rightarrow> ('bs, 'rs) relay" where
  "relay_log e s = s\<lparr>r_log := r_log s @ [e]\<rparr>"

subsection \<open>Requests\<close>

text \<open>
  \<open>listen_requests\<close>: a request arrives and its register is cloned, in two steps; the task of the
  request starts after the second. The loop ends when the last sender of requests is dropped.
\<close>

definition cloning :: "('bs, 'rs) relay \<Rightarrow> bool" where
  "cloning s \<longleftrightarrow> r_requests s \<noteq> [] \<and> snd (last (r_requests s)) = ReqCloning"

definition request_arrives :: "Request \<Rightarrow> ('bs, 'rs) relay \<Rightarrow> ('bs, 'rs) relay option" where
  "request_arrives req s =
     (if r_accepting s \<and> \<not> cloning s then
        Some (s\<lparr>r_register := RequestRegister_clone_arc (r_register s),
                r_requests := r_requests s @ [(req, ReqCloning)]\<rparr>)
      else None)"

definition request_spawned :: "('bs, 'rs) relay \<Rightarrow> ('bs, 'rs) relay option" where
  "request_spawned s =
     (if cloning s then
        (case RequestRegister_clone_wake (r_register s) of (rg, wake) \<Rightarrow>
           Some (set_request (length (r_requests s) - 1) ReqLocking
             (s\<lparr>r_register := rg,
                r_manager := if wake \<and> r_manager s = WaitReqParked then WaitReq else r_manager s\<rparr>)))
      else None)"

definition requests_end :: "('bs, 'rs) relay \<Rightarrow> ('bs, 'rs) relay option" where
  "requests_end s =
     (if r_accepting s \<and> \<not> cloning s then
        Some (s\<lparr>r_accepting := False, r_register := RequestRegister_drop (r_register s)\<rparr>)
      else None)"

text \<open>\<open>process_request\<close>: the mutex, with its timeout, and the connection that is in it.\<close>

definition request_locks :: "nat \<Rightarrow> ('bs, 'rs) relay \<Rightarrow> ('bs, 'rs) relay option" where
  "request_locks i s =
     (case request_at s i of
        Some (_, ReqLocking) \<Rightarrow>
          if r_holder s = NoHolder then Some (set_request i ReqHolding (s\<lparr>r_holder := RequestHolds i\<rparr>))
          else None
      | _ \<Rightarrow> None)"

definition request_times_out :: "nat \<Rightarrow> ('bs, 'rs) relay \<Rightarrow> ('bs, 'rs) relay option" where
  "request_times_out i s =
     (case request_at s i of
        Some (RequestConnect _ tx, ReqLocking) \<Rightarrow>
          Some (relay_log (ConnectReply tx None) (finish_request i s))
      | Some (RequestAssociate _ _ _, ReqLocking) \<Rightarrow> Some (finish_request i s)
      | _ \<Rightarrow> None)"

definition request_takes :: "nat \<Rightarrow> ('bs, 'rs) relay \<Rightarrow> ('bs, 'rs) relay option" where
  "request_takes i s =
     (case request_at s i of
        Some (_, ReqHolding) \<Rightarrow>
          Some (case r_slot s of
                  None \<Rightarrow> rpanic UnwrapConnection s
                | Some c \<Rightarrow> set_request i (ReqServing c) (s\<lparr>r_holder := NoHolder\<rparr>))
      | _ \<Rightarrow> None)"

text \<open>A \<open>Connect\<close> request is negotiated; \<open>open_bi\<close> is what quinn returned for the new stream.\<close>

definition request_connects ::
  "('bs, 'ss, 'rs) client_lib \<Rightarrow> nat \<Rightarrow> quinn_error + 'bs \<Rightarrow> ('bs, 'rs) relay \<Rightarrow> ('bs, 'rs) relay option" where
  "request_connects L i open_bi s =
     (case request_at s i of
        Some (RequestConnect addr tx, ReqServing c) \<Rightarrow>
          Some (case handle_connect L open_bi addr (r_conns s ! c) of
                  (Ok stream, conn) \<Rightarrow>
                    relay_log (ConnectReply tx stream) (finish_request i (set_conn c conn s))
                | (_, conn) \<Rightarrow> rpanic ConnectTask (finish_request i (set_conn c conn s)))
      | _ \<Rightarrow> None)"

text \<open>
  An \<open>Associate\<close> request enters its channel into the session table, starts a task for every packet
  that comes from the SOCKS5 side, and when that side is gone leaves the table and tells the server.
\<close>

definition request_associates :: "nat \<Rightarrow> ('bs, 'rs) relay \<Rightarrow> ('bs, 'rs) relay option" where
  "request_associates i s =
     (case request_at s i of
        Some (RequestAssociate assoc_id _ pkt_recv, ReqServing c) \<Rightarrow>
          (let conn = r_conns s ! c;
               conn = conn\<lparr>cc_sessions := snd (SessionTable_insert assoc_id pkt_recv (cc_sessions conn))\<rparr>
           in Some (set_request i (ReqAssociated c) (set_conn c conn s)))
      | _ \<Rightarrow> None)"

definition request_packet :: "nat \<Rightarrow> bytes \<Rightarrow> RelayAddress \<Rightarrow> ('bs, 'rs) relay \<Rightarrow> ('bs, 'rs) relay option" where
  "request_packet i pkt addr s =
     (case request_at s i of
        Some (RequestAssociate assoc_id _ _, ReqAssociated c) \<Rightarrow>
          Some (s\<lparr>r_spawned := r_spawned s @ [SendPacket c assoc_id pkt addr]\<rparr>)
      | _ \<Rightarrow> None)"

definition request_dissociates ::
  "('bs, 'ss, 'rs) client_lib \<Rightarrow> nat \<Rightarrow> quinn_error + 'ss \<Rightarrow> ('bs, 'rs) relay \<Rightarrow> ('bs, 'rs) relay option" where
  "request_dissociates L i open_uni s =
     (case request_at s i of
        Some (RequestAssociate assoc_id _ _, ReqAssociated c) \<Rightarrow>
          (let conn = r_conns s ! c;
               conn = conn\<lparr>cc_sessions := snd (SessionTable_remove assoc_id (cc_sessions conn))\<rparr>
           in Some (finish_request i (set_conn c (snd (handle_dissociate L open_uni assoc_id conn)) s)))
      | _ \<Rightarrow> None)"

subsection \<open>The connection manager\<close>

text \<open>\<open>wait_req.clone().await\<close>\<close>

definition manager_polls_req :: "('bs, 'rs) relay \<Rightarrow> ('bs, 'rs) relay option" where
  "manager_polls_req s =
     (case r_manager s of
        WaitReq \<Rightarrow>
          Some (s\<lparr>r_manager := if Wait_poll_count (r_register s) then Establishing else WaitReqUnset\<rparr>)
      | WaitReqUnset \<Rightarrow>
          Some (s\<lparr>r_register := Wait_poll_register (r_register s), r_manager := WaitReqParked\<rparr>)
      | _ \<Rightarrow> None)"

text \<open>
  \<open>Connection::connect\<close> and what follows it. On success the guard is taken, the new connection is
  put into the mutex, sent to the listener together with the next channel, and the mutex is
  released; no other task can look into the mutex meanwhile.
\<close>

definition manager_establishes :: "ClientConnection \<Rightarrow> usize option \<Rightarrow> ('bs, 'rs) relay \<Rightarrow> ('bs, 'rs) relay" where
  "manager_establishes conn max_datagram_size s =
     (if r_guard s then
        (let k = length (r_conns s);
             s = s\<lparr>r_guard := False, r_conns := r_conns s @ [conn], r_slot := Some k\<rparr>
         in case incoming_channel s of (ch, s) \<Rightarrow>
              (incoming_send (r_next_tx s) k ch s)
                \<lparr>r_next_tx := ch, r_max_size := update_max_udp_relay_packet_size max_datagram_size conn,
                 r_holder := NoHolder, r_manager := CloseRead k\<rparr>)
      else rpanic UnwrapGuard s)"

definition manager_connects ::
  "('bs, 'ss, 'rs) client_lib \<Rightarrow> ConnectionConfig \<Rightarrow> ('ep, 'hs, 'qc) quinn_connect
   \<Rightarrow> (string \<Rightarrow> u16 \<Rightarrow> io_error + SocketAddr list) \<Rightarrow> usize option \<Rightarrow> ('bs, 'rs) relay \<Rightarrow> ('bs, 'rs) relay option" where
  "manager_connects L config q lookup_host max_datagram_size s =
     (if r_manager s = Establishing then
        (case Connection_connect L q lookup_host config of
           Ok (_, conn, _) \<Rightarrow> Some (manager_establishes conn max_datagram_size s)
         | Err _ \<Rightarrow> Some (s\<lparr>r_manager := Sleeping\<rparr>)
         | Panic \<Rightarrow> Some (rpanic ConnectTask s))
      else None)"

definition manager_wakes :: "('bs, 'rs) relay \<Rightarrow> ('bs, 'rs) relay option" where
  "manager_wakes s = (if r_manager s = Sleeping then Some (s\<lparr>r_manager := WaitReq\<rparr>) else None)"

text \<open>\<open>new_conn.wait_close().await\<close>; the waker of the manager has the name 0.\<close>

definition manager_polls_close :: "('bs, 'rs) relay \<Rightarrow> ('bs, 'rs) relay option" where
  "manager_polls_close s =
     (case r_manager s of
        CloseRead k \<Rightarrow>
          Some (s\<lparr>r_manager := if ClosedFlag_poll_read (cc_closed (r_conns s ! k)) then Locking k else CloseUnset k\<rparr>)
      | CloseUnset k \<Rightarrow>
          (let conn = r_conns s ! k;
               conn = conn\<lparr>cc_closed := ClosedFlag_poll_register 0 (cc_closed conn)\<rparr>
           in Some ((set_conn k conn s)\<lparr>r_manager := CloseParked k\<rparr>))
      | _ \<Rightarrow> None)"

definition manager_locks :: "('bs, 'rs) relay \<Rightarrow> ('bs, 'rs) relay option" where
  "manager_locks s =
     (case r_manager s of
        Locking k \<Rightarrow>
          if r_holder s = NoHolder then
            Some (s\<lparr>r_holder := ManagerHolds, r_guard := True, r_manager := WaitReq\<rparr>)
          else None
      | _ \<Rightarrow> None)"

subsection \<open>The listener\<close>

definition incoming_receives :: "('bs, 'rs) relay \<Rightarrow> ('bs, 'rs) relay option" where
  "incoming_receives s =
     (case r_incoming s of
        AwaitChannel rx \<Rightarrow>
          (case incoming_next rx s of
             Waiting \<Rightarrow> None
           | Closed \<Rightarrow> Some (rpanic UnwrapIncoming s)
           | GotConnection (conn, next_rx) \<Rightarrow> Some (s\<lparr>r_incoming := Listening conn next_rx\<rparr>))
      | _ \<Rightarrow> None)"

text \<open>
  What the connection delivers: a datagram or a stream, depending on the mode, for which a task is
  started; or an error or the end, after which the connection is marked closed and the next one is
  awaited. Streams come out of \<open>IncomingUniStreams\<close>, which registers them.
\<close>

datatype 'rs incoming_event = ItemDatagram bytes | ItemUni 'rs | ItemEnd

definition incoming_ends :: "nat \<Rightarrow> nat \<Rightarrow> ('bs, 'rs) relay \<Rightarrow> ('bs, 'rs) relay" where
  "incoming_ends k next_rx s =
     (case conn_set_closed (r_conns s ! k) of (conn, woken) \<Rightarrow>
        (set_conn k conn s)
          \<lparr>r_incoming := AwaitChannel next_rx,
           r_manager := if 0 \<in> set woken \<and> r_manager s = CloseParked k then CloseRead k else r_manager s\<rparr>)"

definition incoming_item :: "ConnectionConfig \<Rightarrow> 'rs incoming_event \<Rightarrow> ('bs, 'rs) relay \<Rightarrow> ('bs, 'rs) relay option" where
  "incoming_item config item s =
     (case r_incoming s of
        Listening k next_rx \<Rightarrow>
          (case (config_mode config, item) of
             (Native _, ItemDatagram pkt) \<Rightarrow> Some (s\<lparr>r_spawned := r_spawned s @ [IncomingDatagram k pkt]\<rparr>)
           | (Native _, ItemEnd) \<Rightarrow> Some (incoming_ends k next_rx s)
           | (Quic _, ItemUni recv) \<Rightarrow>
               (case poll_next_uni (NextOk ()) (cc_streams (r_conns s ! k)) of
                  (NextOk _, st) \<Rightarrow>
                    Some (set_conn k (set_streams st (r_conns s ! k))
                      (s\<lparr>r_spawned := r_spawned s @ [IncomingUni k recv]\<rparr>))
                | (_, st) \<Rightarrow> Some (incoming_ends k next_rx (set_conn k (set_streams st (r_conns s ! k)) s)))
           | (Quic _, ItemEnd) \<Rightarrow>
               (case poll_next_uni NextEnd (cc_streams (r_conns s ! k)) of
                  (_, st) \<Rightarrow> Some (incoming_ends k next_rx (set_conn k (set_streams st (r_conns s ! k)) s)))
           | _ \<Rightarrow> None)
      | _ \<Rightarrow> None)"

subsection \<open>Spawned tasks\<close>

text \<open>The end of \<open>process_incoming_datagram\<close> or \<open>process_incoming_uni_stream\<close>, with \<open>handle_packet_from\<close>.\<close>

definition deliver ::
  "panic_site \<Rightarrow> (unit, (usize \<times> (nat \<times> bytes \<times> RelayAddress) option) option) outcome \<Rightarrow> u32
   \<Rightarrow> ('bs, 'rs) relay \<Rightarrow> ('bs, 'rs) relay" where
  "deliver site res assoc_id s =
     (case res of
        Ok None \<Rightarrow> s
      | Ok (Some (sz, None)) \<Rightarrow> s\<lparr>r_max_size := sz\<rparr>
      | Ok (Some (sz, Some (tx, pkt, addr))) \<Rightarrow>
          relay_log (PacketDelivered assoc_id tx pkt addr) (s\<lparr>r_max_size := sz\<rparr>)
      | _ \<Rightarrow> rpanic site s)"

definition parsed_assoc :: "(io_error, u32 \<times> bytes \<times> RelayAddress) outcome \<Rightarrow> u32" where
  "parsed_assoc r = (case r of Ok (a, _) \<Rightarrow> a | _ \<Rightarrow> 0)"

definition run_spawned ::
  "('bs, 'ss, 'rs) client_lib \<Rightarrow> nat \<Rightarrow> usize option \<Rightarrow> (bytes \<Rightarrow> quinn_error + unit) \<Rightarrow> quinn_error + 'ss
   \<Rightarrow> ('bs, 'rs) relay \<Rightarrow> ('bs, 'rs) relay option" where
  "run_spawned L j max_datagram_size q_send_datagram open_uni s =
     (if j < length (r_spawned s) then
        (let t = r_spawned s ! j;
             s = s\<lparr>r_spawned := take j (r_spawned s) @ drop (Suc j) (r_spawned s)\<rparr>
         in case t of
              SendPacket k assoc_id pkt addr \<Rightarrow>
                (case handle_packet_to L max_datagram_size q_send_datagram open_uni assoc_id pkt addr
                    (cc_mode (r_conns s ! k)) (r_conns s ! k) of
                   (sz, Panic, conn) \<Rightarrow> Some (rpanic PacketTask (set_conn k conn (s\<lparr>r_max_size := sz\<rparr>)))
                 | (sz, _, conn) \<Rightarrow> Some (set_conn k conn (s\<lparr>r_max_size := sz\<rparr>)))
            | IncomingDatagram k pkt \<Rightarrow>
                Some (deliver DatagramSlice (process_incoming_datagram L max_datagram_size pkt (r_conns s ! k))
                  (parsed_assoc (parse_datagram L pkt)) s)
            | IncomingUni k recv \<Rightarrow>
                (let conn = set_streams (drop_stream RecvStream (cc_streams (r_conns s ! k))) (r_conns s ! k) in
                 Some (deliver UniStream (process_incoming_uni_stream L max_datagram_size recv conn)
                   (parsed_assoc (parse_uni_stream L recv)) (set_conn k conn s))))
      else None)"

text \<open>The heartbeat task of a connection, and a user of a stream dropping it.\<close>

definition heartbeat_step ::
  "('bs, 'ss, 'rs) client_lib \<Rightarrow> nat \<Rightarrow> heartbeat_branch \<Rightarrow> quinn_error + 'ss \<Rightarrow> ('bs, 'rs) relay
   \<Rightarrow> ('bs, 'rs) relay option" where
  "heartbeat_step L k branch open_uni s =
     (if k < length (r_conns s) then
        (case heartbeat_round L branch open_uni (r_conns s ! k) of
           Round (_, conn) \<Rightarrow> Some (set_conn k conn s)
         | LoopEnds \<Rightarrow> Some s
         | NotReady \<Rightarrow> None)
      else None)"

definition stream_dropped :: "nat \<Rightarrow> ('bs, 'rs) relay \<Rightarrow> ('bs, 'rs) relay option" where
  "stream_dropped k s =
     (if k < length (r_conns s) \<and> BiStream \<in># open_streams (cc_streams (r_conns s ! k)) then
        Some (set_conn k (drop_bi (r_conns s ! k)) s)
      else None)"

section \<open>The system\<close>

datatype ('bs, 'ss, 'rs, 'ep, 'hs, 'qc) rlabel =
  RequestArrives Request | RequestSpawned | RequestsEnd
| RequestLocks nat | RequestTimesOut nat | RequestTakes nat
| RequestConnects nat "quinn_error + 'bs"
| RequestAssociates nat | RequestPacket nat bytes RelayAddress | RequestDissociates nat "quinn_error + 'ss"
| ManagerPollsReq
| ManagerConnects "('ep, 'hs, 'qc) quinn_connect" "string \<Rightarrow> u16 \<Rightarrow> io_error + SocketAddr list" "usize option"
| ManagerWakes | ManagerPollsClose | ManagerLocks
| IncomingReceives | IncomingItem "'rs incoming_event"
| RunSpawned nat "usize option" "bytes \<Rightarrow> quinn_error + unit" "quinn_error + 'ss"
| HeartbeatStep nat heartbeat_branch "quinn_error + 'ss" | StreamDropped nat

fun rstep ::
  "('bs, 'ss, 'rs) client_lib \<Rightarrow> ConnectionConfig \<Rightarrow> ('bs, 'ss, 'rs, 'ep, 'hs, 'qc) rlabel
   \<Rightarrow> ('bs, 'rs) relay \<Rightarrow> ('bs, 'rs) relay option" where
  "rstep L config (RequestArrives req) s = request_arrives req s"
| "rstep L config RequestSpawned s = request_spawned s"
| "rstep L config RequestsEnd s = requests_end s"
| "rstep L config (RequestLocks i) s = request_locks i s"
| "rstep L config (RequestTimesOut i) s = request_times_out i s"
| "rstep L config (RequestTakes i) s = request_takes i s"
| "rstep L config (RequestConnects i open_bi) s = request_connects L i open_bi s"
| "rstep L config (RequestAssociates i) s = request_associates i s"
| "rstep L config (RequestPacket i pkt addr) s = request_packet i pkt addr s"
| "rstep L config (RequestDissociates i open_uni) s = request_dissociates L i open_uni s"
| "rstep L config ManagerPollsReq s = manager_polls_req s"
| "rstep L config (ManagerConnects q lookup_host m) s = manager_connects L config q lookup_host m s"
| "rstep L config ManagerWakes s = manager_wakes s"
| "rstep L config ManagerPollsClose s = manager_polls_close s"
| "rstep L config ManagerLocks s = manager_locks s"
| "rstep L config IncomingReceives s = incoming_receives s"
| "rstep L config (IncomingItem item) s = incoming_item config item s"
| "rstep L config (RunSpawned j m q_send open_uni) s = run_spawned L j m q_send open_uni s"
| "rstep L config (HeartbeatStep k branch open_uni) s = heartbeat_step L k branch open_uni s"
| "rstep L config (StreamDropped k) s = stream_dropped k s"

fun_cases rstep_elim: "rstep L config l s = Some s'"

lemmas rstep_cases = rstep_elim [unfolded eq_commute [of "Some a" for a], consumes 1,
    case_names RequestArrives RequestSpawned RequestsEnd RequestLocks RequestTimesOut RequestTakes RequestConnects
    RequestAssociates RequestPacket RequestDissociates ManagerPollsReq ManagerConnects ManagerWakes ManagerPollsClose
    ManagerLocks IncomingReceives IncomingItem RunSpawned HeartbeatStep StreamDropped]

fun rrun ::
  "('bs, 'ss, 'rs) client_lib \<Rightarrow> ConnectionConfig \<Rightarrow> ('bs, 'ss, 'rs, 'ep, 'hs, 'qc) rlabel list
   \<Rightarrow> ('bs, 'rs) relay \<Rightarrow> ('bs, 'rs) relay option" where
  "rrun L config [] s = Some s"
| "rrun L config (l # ls) s = (case rstep L config l s of Some s' \<Rightarrow> rrun L config ls s' | None \<Rightarrow> None)"

inductive rreachable ::
  "('bs, 'ss, 'rs) client_lib \<Rightarrow> ConnectionConfig \<Rightarrow> ('ep \<times> 'hs \<times> 'qc) itself \<Rightarrow> ('bs, 'rs) relay \<Rightarrow> bool"
  for L config T where
  start: "rreachable L config T relay_init"
| step: "rreachable L config T s \<Longrightarrow>
    rstep L config (l :: ('bs, 'ss, 'rs, 'ep, 'hs, 'qc) rlabel) s = Some s' \<Longrightarrow> rreachable L config T s'"

section \<open>Invariants\<close>

lemma rreachable_invariant:
  assumes "rreachable L config (T :: ('ep \<times> 'hs \<times> 'qc) itself) s" and "P relay_init"
    and "\<And>l s s'. P s \<Longrightarrow> rstep L config (l :: ('bs, 'ss, 'rs, 'ep, 'hs, 'qc) rlabel) s = Some s' \<Longrightarrow> P s'"
  shows "P (s :: ('bs, 'rs) relay)"
  using assms by (induction rule: rreachable.induct) auto

lemma request_at_Some: "request_at s i = Some r \<longleftrightarrow> i < length (r_requests s) \<and> r_requests s ! i = r"
  by (simp add: request_at_def)

text \<open>What it means that a step was possible.\<close>

lemma request_arrivesE:
  assumes "request_arrives req s = Some s'"
  obtains "r_accepting s" "\<not> cloning s"
    "s' = s\<lparr>r_register := RequestRegister_clone_arc (r_register s),
       r_requests := r_requests s @ [(req, ReqCloning)]\<rparr>"
  using assms by (auto simp: request_arrives_def split: if_splits)

lemma request_spawnedE:
  assumes "request_spawned s = Some s'"
  obtains reqs req where "r_requests s = reqs @ [(req, ReqCloning)]"
    "s' = s\<lparr>r_requests := reqs @ [(req, ReqLocking)], r_register := fst (RequestRegister_clone_wake (r_register s)),
       r_manager := if req_waker (r_register s) \<and> r_manager s = WaitReqParked then WaitReq else r_manager s\<rparr>"
proof -
  from assms have "cloning s" by (simp add: request_spawned_def split: if_splits)
  then obtain reqs req where r: "r_requests s = reqs @ [(req, ReqCloning)]"
    by (cases "r_requests s" rule: rev_cases) (auto simp: cloning_def)
  with assms \<open>cloning s\<close> that show thesis
    by (auto simp: request_spawned_def RequestRegister_clone_wake_def set_request_def)
qed

lemma requests_endE:
  assumes "requests_end s = Some s'"
  obtains "r_accepting s" "\<not> cloning s"
    "s' = s\<lparr>r_accepting := False, r_register := RequestRegister_drop (r_register s)\<rparr>"
  using assms by (auto simp: requests_end_def split: if_splits)

lemma request_locksE:
  assumes "request_locks i s = Some s'"
  obtains req where "i < length (r_requests s)" "r_requests s ! i = (req, ReqLocking)" "r_holder s = NoHolder"
    "s' = s\<lparr>r_requests := (r_requests s)[i := (req, ReqHolding)], r_holder := RequestHolds i\<rparr>"
  using assms
  by (auto simp: request_locks_def request_at_Some set_request_def
      split: option.splits prod.splits request_pc.splits if_splits)

lemma request_times_outE:
  assumes "request_times_out i s = Some s'"
  obtains req evs where "i < length (r_requests s)" "r_requests s ! i = (req, ReqLocking)"
    "evs = (case req of RequestConnect _ tx \<Rightarrow> [ConnectReply tx None] | _ \<Rightarrow> [])"
    "s' = s\<lparr>r_requests := (r_requests s)[i := (req, ReqDone)],
       r_register := RequestRegister_drop (r_register s), r_log := r_log s @ evs\<rparr>"
  using assms
  by (auto simp: request_times_out_def request_at_Some finish_request_def set_request_def relay_log_def
      split: option.splits prod.splits request_pc.splits Request.splits)

lemma request_takesE:
  assumes "request_takes i s = Some s'"
  obtains req c where "i < length (r_requests s)" "r_requests s ! i = (req, ReqHolding)" "r_slot s = Some c"
    "s' = s\<lparr>r_requests := (r_requests s)[i := (req, ReqServing c)], r_holder := NoHolder\<rparr>"
  | req where "i < length (r_requests s)" "r_requests s ! i = (req, ReqHolding)" "r_slot s = None"
    "s' = rpanic UnwrapConnection s"
  using assms
  by (auto simp: request_takes_def request_at_Some set_request_def
      split: option.splits prod.splits request_pc.splits)

lemma request_connectsE:
  assumes "request_connects L i open_bi s = Some s'"
  obtains addr tx c stream conn where "i < length (r_requests s)"
      "r_requests s ! i = (RequestConnect addr tx, ReqServing c)"
      "handle_connect L open_bi addr (r_conns s ! c) = (Ok stream, conn)"
      "s' = s\<lparr>r_requests := (r_requests s)[i := (RequestConnect addr tx, ReqDone)], r_conns := (r_conns s)[c := conn],
         r_register := RequestRegister_drop (r_register s), r_log := r_log s @ [ConnectReply tx stream]\<rparr>"
  | addr tx c r conn where "i < length (r_requests s)"
      "r_requests s ! i = (RequestConnect addr tx, ReqServing c)"
      "handle_connect L open_bi addr (r_conns s ! c) = (r, conn)" "\<nexists>stream. r = Ok stream"
      "s' = s\<lparr>r_requests := (r_requests s)[i := (RequestConnect addr tx, ReqDone)], r_conns := (r_conns s)[c := conn],
         r_register := RequestRegister_drop (r_register s), r_panics := ConnectTask # r_panics s\<rparr>"
proof -
  from assms obtain addr tx c where i: "i < length (r_requests s)"
    "r_requests s ! i = (RequestConnect addr tx, ReqServing c)"
    by (auto simp: request_connects_def request_at_Some split: option.splits prod.splits request_pc.splits Request.splits)
  obtain r conn where h: "handle_connect L open_bi addr (r_conns s ! c) = (r, conn)" by force
  show thesis
  proof (cases r)
    case (Ok stream)
    with assms i h show thesis
      by (intro that(1) [of addr tx c stream conn])
        (auto simp: request_connects_def request_at_def finish_request_def set_request_def set_conn_def relay_log_def)
  qed (use assms i h in \<open>auto intro!: that(2) [of addr tx c _ conn] simp: request_connects_def request_at_def
      finish_request_def set_request_def set_conn_def rpanic_def\<close>)
qed

lemma request_associatesE:
  assumes "request_associates i s = Some s'"
  obtains a rx tx c where "i < length (r_requests s)" "r_requests s ! i = (RequestAssociate a rx tx, ReqServing c)"
    "s' = s\<lparr>r_requests := (r_requests s)[i := (RequestAssociate a rx tx, ReqAssociated c)],
       r_conns := (r_conns s)[c := (r_conns s ! c)\<lparr>cc_sessions := snd (SessionTable_insert a tx (cc_sessions (r_conns s ! c)))\<rparr>]\<rparr>"
  using assms
  by (auto simp: request_associates_def request_at_Some set_request_def set_conn_def Let_def
      split: option.splits prod.splits request_pc.splits Request.splits)

lemma request_packetE:
  assumes "request_packet i pkt addr s = Some s'"
  obtains a rx tx c where "i < length (r_requests s)" "r_requests s ! i = (RequestAssociate a rx tx, ReqAssociated c)"
    "s' = s\<lparr>r_spawned := r_spawned s @ [SendPacket c a pkt addr]\<rparr>"
  using assms
  by (auto simp: request_packet_def request_at_Some split: option.splits prod.splits request_pc.splits Request.splits)

lemma handle_dissociate_conn [simp]: "snd (handle_dissociate L open_uni a c) = c"
  by (simp add: handle_dissociate_def)

lemma request_dissociatesE:
  assumes "request_dissociates L i open_uni s = Some s'"
  obtains a rx tx c where "i < length (r_requests s)" "r_requests s ! i = (RequestAssociate a rx tx, ReqAssociated c)"
    "s' = s\<lparr>r_requests := (r_requests s)[i := (RequestAssociate a rx tx, ReqDone)],
       r_conns := (r_conns s)[c := (r_conns s ! c)\<lparr>cc_sessions := snd (SessionTable_remove a (cc_sessions (r_conns s ! c)))\<rparr>],
       r_register := RequestRegister_drop (r_register s)\<rparr>"
  using assms
  by (auto simp: request_dissociates_def request_at_Some finish_request_def set_request_def set_conn_def Let_def
      split: option.splits prod.splits request_pc.splits Request.splits)

lemma manager_polls_reqE:
  assumes "manager_polls_req s = Some s'"
  obtains "r_manager s = WaitReq" "strong_count (r_register s) > 1" "s' = s\<lparr>r_manager := Establishing\<rparr>"
  | "r_manager s = WaitReq" "strong_count (r_register s) \<le> 1" "s' = s\<lparr>r_manager := WaitReqUnset\<rparr>"
  | "r_manager s = WaitReqUnset"
    "s' = s\<lparr>r_register := Wait_poll_register (r_register s), r_manager := WaitReqParked\<rparr>"
  using assms
  by (auto simp: manager_polls_req_def Wait_poll_count_def split: manager_pc.splits if_splits)

lemma Connection_connect_Ok:
  assumes "Connection_connect L q lookup_host config = Ok (qc, c, ts)"
  shows "(c, ts) = Connection_new config"
proof -
  have *: "try_addrs attempt addrs e = Ok r \<Longrightarrow> \<exists>a. attempt a = Ok r" for attempt addrs e r
    by (induction attempt addrs e rule: try_addrs.induct) (auto split: outcome.splits)
  have "connect_addr L q config a name = Ok (qc, c, ts) \<Longrightarrow> (c, ts) = Connection_new config" for a name
    by (auto simp: connect_addr_def outcome_simps)
  with assms show ?thesis
    by (auto simp: Connection_connect_def outcome_simps dest!: *)
qed

lemma try_addrs_total: "(\<And>a. attempt a \<noteq> Panic) \<Longrightarrow> try_addrs attempt addrs e \<noteq> Panic"
  by (induction attempt addrs e rule: try_addrs.induct) (auto split: outcome.splits)

lemma Connection_connect_total: "Connection_connect L q lookup_host config \<noteq> Panic"
  by (auto simp: Connection_connect_resolved outcome_simps try_addrs_total connect_addr_total split: sum.split)

lemma manager_connectsE:
  assumes "manager_connects L config q lookup_host m s = Some s'"
  obtains "r_manager s = Establishing" "s' = s\<lparr>r_manager := Sleeping\<rparr>"
  | "r_manager s = Establishing" "r_guard s"
    "s' = s\<lparr>r_guard := False, r_conns := r_conns s @ [fst (Connection_new config)], r_slot := Some (length (r_conns s)),
       r_channels := (r_channels s @ [None])[r_next_tx s := Some (length (r_conns s), length (r_channels s))],
       r_next_tx := length (r_channels s),
       r_max_size := update_max_udp_relay_packet_size m (fst (Connection_new config)),
       r_holder := NoHolder, r_manager := CloseRead (length (r_conns s))\<rparr>"
  | "r_manager s = Establishing" "\<not> r_guard s" "s' = rpanic UnwrapGuard s"
proof (cases "Connection_connect L q lookup_host config")
  case (Ok r)
  then obtain qc c ts where r: "r = (qc, c, ts)" and c: "c = fst (Connection_new config)"
    using Connection_connect_Ok [of L q lookup_host config] by (cases r) (metis fst_conv)
  show thesis
  proof (cases "r_guard s")
    case True
    with assms Ok r c show thesis
      by (intro that(2)) (auto simp: manager_connects_def manager_establishes_def incoming_channel_def
          incoming_send_def Let_def split: if_splits)
  next
    case False
    with assms Ok r c show thesis
      by (intro that(3)) (auto simp: manager_connects_def manager_establishes_def split: if_splits)
  qed
next
  case Err
  with assms that(1) show thesis by (auto simp: manager_connects_def split: if_splits)
qed (simp add: Connection_connect_total)

lemma manager_wakesE:
  assumes "manager_wakes s = Some s'"
  obtains "r_manager s = Sleeping" "s' = s\<lparr>r_manager := WaitReq\<rparr>"
  using assms by (auto simp: manager_wakes_def split: if_splits)

lemma manager_polls_closeE:
  assumes "manager_polls_close s = Some s'"
  obtains k where "r_manager s = CloseRead k" "closed_flag (cc_closed (r_conns s ! k))" "s' = s\<lparr>r_manager := Locking k\<rparr>"
  | k where "r_manager s = CloseRead k" "\<not> closed_flag (cc_closed (r_conns s ! k))" "s' = s\<lparr>r_manager := CloseUnset k\<rparr>"
  | k where "r_manager s = CloseUnset k"
    "s' = s\<lparr>r_conns := (r_conns s)[k := (r_conns s ! k)\<lparr>cc_closed := ClosedFlag_poll_register 0 (cc_closed (r_conns s ! k))\<rparr>],
       r_manager := CloseParked k\<rparr>"
  using assms
  by (auto simp: manager_polls_close_def ClosedFlag_poll_read_def set_conn_def Let_def
      split: manager_pc.splits if_splits)

lemma manager_locksE:
  assumes "manager_locks s = Some s'"
  obtains k where "r_manager s = Locking k" "r_holder s = NoHolder"
    "s' = s\<lparr>r_holder := ManagerHolds, r_guard := True, r_manager := WaitReq\<rparr>"
  using assms by (auto simp: manager_locks_def split: manager_pc.splits if_splits)

lemma incoming_receivesE:
  assumes "incoming_receives s = Some s'"
  obtains rx k next_rx where "r_incoming s = AwaitChannel rx" "incoming_next rx s = GotConnection (k, next_rx)"
    "s' = s\<lparr>r_incoming := Listening k next_rx\<rparr>"
  | rx where "r_incoming s = AwaitChannel rx" "incoming_next rx s = Closed" "s' = rpanic UnwrapIncoming s"
  using assms
  by (auto simp: incoming_receives_def split: incoming_pc.splits recv_result.splits)

text \<open>The steps that only touch the streams of a connection.\<close>

definition streams_change :: "ClientConnection \<Rightarrow> ClientConnection \<Rightarrow> bool" where
  "streams_change c c' \<longleftrightarrow> (\<exists>st. c' = set_streams st c \<and>
     (streams_reachable (cc_streams c) \<and> conn_alive (cc_streams c) \<longrightarrow> streams_reachable st \<and> conn_alive st))"

lemma streams_changeI:
  "(streams_reachable (cc_streams c) \<Longrightarrow> conn_alive (cc_streams c) \<Longrightarrow> streams_reachable st \<and> conn_alive st)
   \<Longrightarrow> streams_change c (set_streams st c)"
  by (auto simp: streams_change_def)

lemma streams_change_refl [simp]: "streams_change c c"
  unfolding streams_change_def by (intro exI [of _ "cc_streams c"]) (auto simp: set_streams_def)

lemma conn_alive_poll_next [simp]: "conn_alive (snd (poll_next_uni polled st)) = conn_alive st"
  by (cases polled) (auto simp: poll_next_uni_def split: option.split)

lemma conn_alive_drop [simp]: "conn_alive (drop_stream k st) = conn_alive st"
  by (simp add: drop_stream_def)

lemma conn_alive_bi [simp]: "conn_alive (BiStream_new st) = conn_alive st"
  by (simp add: BiStream_new_def)

lemma streams_change_poll_next: "streams_change c (set_streams (snd (poll_next_uni polled (cc_streams c))) c)"
  by (intro streams_changeI) (auto intro: streams_reachable.incoming)

lemma streams_change_drop: "streams_change c (set_streams (drop_stream k (cc_streams c)) c)"
  by (intro streams_changeI) (auto intro: streams_reachable.drop_stream)

lemma streams_change_bi: "streams_change c (set_streams (BiStream_new (cc_streams c)) c)"
  by (intro streams_changeI) (auto intro: streams_reachable.bi)

lemma streams_change_heartbeat: "heartbeat_round L branch open_uni c = Round (r, c') \<Longrightarrow> c' = c"
  by (auto simp: heartbeat_round_def send_heartbeat_def split: heartbeat_branch.splits if_splits prod.splits
      dest: arg_cong [where f = snd])

lemma handle_packet_to_conn [simp]: "snd (snd (handle_packet_to L m q open_uni a pkt addr mode c)) = c"
  by (auto simp: handle_packet_to_def send_packet_quic_def Let_def split: UdpRelayMode.splits prod.splits
      dest: arg_cong [where f = snd])

lemma handle_connect_conn: "streams_change c (snd (handle_connect L open_bi addr c))"
proof (cases open_bi)
  case (Inr b)
  have "snd (handle_connect L open_bi addr c) \<in> {c, set_streams (BiStream_new (cc_streams c)) c}"
    by (auto simp: handle_connect_def negotiate_connect_def get_bi_stream_def Inr Let_def drop_bi_new
        split: outcome.splits option.splits prod.splits if_splits)
  then show ?thesis using streams_change_bi by auto
qed (simp add: handle_connect_def negotiate_connect_def get_bi_stream_def)

text \<open>The end of an item: what the listener does in each mode.\<close>

lemma incoming_item_uni:
  assumes "r_incoming s = Listening k next_rx" and "config_mode config = Quic ()"
    and "incoming_item config (ItemUni recv) s = Some s'"
  obtains st where "streams_change (r_conns s ! k) (set_streams st (r_conns s ! k))"
      "s' = (set_conn k (set_streams st (r_conns s ! k)) s)\<lparr>r_spawned := r_spawned s @ [IncomingUni k recv]\<rparr>"
  | st where "streams_change (r_conns s ! k) (set_streams st (r_conns s ! k))"
      "s' = incoming_ends k next_rx (set_conn k (set_streams st (r_conns s ! k)) s)"
proof -
  obtain r st where p: "poll_next_uni (NextOk ()) (cc_streams (r_conns s ! k)) = (r, st)" by force
  then have st: "streams_change (r_conns s ! k) (set_streams st (r_conns s ! k))"
    using streams_change_poll_next [of "r_conns s ! k" "NextOk ()"] by simp
  show thesis
  proof (cases "r = NextOk ()")
    case True
    with assms p st show thesis by (intro that(1) [of st]) (auto simp: incoming_item_def set_conn_def)
  next
    case False
    with assms p st show thesis by (intro that(2) [of st]) (cases r; auto simp: incoming_item_def)+
  qed
qed

lemma incoming_itemE:
  assumes "incoming_item config item s = Some s'"
    and bound: "\<forall>k next_rx. r_incoming s = Listening k next_rx \<longrightarrow> k < length (r_conns s)"
  obtains k next_rx pkt where "r_incoming s = Listening k next_rx" "config_mode config = Native ()"
      "s' = s\<lparr>r_spawned := r_spawned s @ [IncomingDatagram k pkt]\<rparr>"
  | k next_rx recv c where "r_incoming s = Listening k next_rx" "config_mode config = Quic ()"
      "streams_change (r_conns s ! k) c"
      "s' = s\<lparr>r_conns := (r_conns s)[k := c], r_spawned := r_spawned s @ [IncomingUni k recv]\<rparr>"
  | k next_rx c where "r_incoming s = Listening k next_rx" "streams_change (r_conns s ! k) c"
      "s' = s\<lparr>r_conns := (r_conns s)[k := fst (conn_set_closed c)], r_incoming := AwaitChannel next_rx,
         r_manager := if 0 \<in> set (closed_wakers (cc_closed (r_conns s ! k))) \<and> r_manager s = CloseParked k
           then CloseRead k else r_manager s\<rparr>"
proof -
  from assms(1) obtain k next_rx where i: "r_incoming s = Listening k next_rx"
    by (auto simp: incoming_item_def split: incoming_pc.splits)
  with bound have k: "k < length (r_conns s)" by blast
  note ended = that(3)
  have ends: thesis if "s' = incoming_ends k next_rx (set_conn k (set_streams st (r_conns s ! k)) s)"
    "streams_change (r_conns s ! k) (set_streams st (r_conns s ! k))" for st
    using that k by (intro ended [OF i, of "set_streams st (r_conns s ! k)"])
      (auto simp: incoming_ends_def set_conn_def conn_set_closed_def ClosedFlag_set_def set_streams_def)
  have same: "set_conn k (set_streams (cc_streams (r_conns s ! k)) (r_conns s ! k)) s = s"
    by (simp add: set_conn_def set_streams_def)
  show thesis
  proof (cases "config_mode config")
    case (Native u)
    then show thesis
    proof (cases item)
      case (ItemDatagram pkt)
      with assms(1) i Native that(1) show thesis by (auto simp: incoming_item_def)
    next
      case ItemEnd
      with assms(1) i Native ends [of "cc_streams (r_conns s ! k)"] show thesis
        by (auto simp: incoming_item_def same) (simp add: set_streams_def)
    qed (use assms(1) i Native in \<open>auto simp: incoming_item_def\<close>)
  next
    case (Quic u)
    then show thesis
    proof (cases item)
      case (ItemUni recv)
      with i Quic assms(1) have uni: "incoming_item config (ItemUni recv) s = Some s'" by simp
      from i _ this show thesis
      proof (rule incoming_item_uni)
        fix st assume "streams_change (r_conns s ! k) (set_streams st (r_conns s ! k))"
          "s' = (set_conn k (set_streams st (r_conns s ! k)) s)\<lparr>r_spawned := r_spawned s @ [IncomingUni k recv]\<rparr>"
        with i Quic show thesis
          by (intro that(2) [OF i, of "set_streams st (r_conns s ! k)" recv]) (auto simp: set_conn_def)
      qed (use Quic ends in auto)
    next
      case ItemEnd
      obtain r st where p: "poll_next_uni NextEnd (cc_streams (r_conns s ! k)) = (r, st)" by force
      with assms(1) i Quic ItemEnd streams_change_poll_next [of "r_conns s ! k" NextEnd] show thesis
        by (intro ends [of st]) (auto simp: incoming_item_def)
    qed (use assms(1) i Quic in \<open>auto simp: incoming_item_def\<close>)
  qed
qed

lemma deliver_frame:
  obtains sz ps lg where "deliver site res a s = s\<lparr>r_max_size := sz, r_panics := ps, r_log := lg\<rparr>"
proof (cases "deliver site res a s = rpanic site s")
  case True
  then show thesis by (intro that [of "r_log s" "site # r_panics s" "r_max_size s"]) (simp add: rpanic_def)
next
  case False
  then obtain d where d: "res = Ok d" by (cases res) (auto simp: deliver_def)
  consider "d = None" | sz where "d = Some (sz, None)" | sz tx pkt addr where "d = Some (sz, Some (tx, pkt, addr))"
    by (cases d) (metis option.exhaust surj_pair)+
  then show thesis
  proof cases
    case 1
    with d show thesis by (intro that [of "r_log s" "r_panics s" "r_max_size s"]) (simp add: deliver_def)
  next
    case (2 sz)
    with d show thesis by (intro that [of "r_log s" "r_panics s" sz]) (simp add: deliver_def)
  next
    case (3 sz tx pkt addr)
    with d show thesis
      by (intro that [of "r_log s @ [PacketDelivered a tx pkt addr]" "r_panics s" sz])
        (simp add: deliver_def relay_log_def)
  qed
qed

text \<open>A spawned task changes at most the streams of its connection, the log and the global size.\<close>

lemma run_spawnedE:
  assumes "run_spawned L j m q_send open_uni s = Some s'"
  obtains sp k c sz ps lg where "set sp \<subseteq> set (r_spawned s)" "streams_change (r_conns s ! k) c"
    "s' = s\<lparr>r_spawned := sp, r_conns := (r_conns s)[k := c], r_max_size := sz, r_panics := ps, r_log := lg\<rparr>"
proof -
  let ?sp = "take j (r_spawned s) @ drop (Suc j) (r_spawned s)"
  have sub: "set ?sp \<subseteq> set (r_spawned s)" by (auto dest: in_set_takeD in_set_dropD)
  from assms have j: "j < length (r_spawned s)" by (auto simp: run_spawned_def split: if_splits)
  show thesis
  proof (cases "r_spawned s ! j")
    case (SendPacket k a pkt addr)
    let ?c = "r_conns s ! k"
    obtain sz r conn where h: "handle_packet_to L m q_send open_uni a pkt addr (cc_mode ?c) ?c = (sz, r, conn)"
      using prod_cases3 by blast
    with handle_packet_to_conn [of L m q_send open_uni a pkt addr "cc_mode ?c" ?c] have "conn = ?c" by simp
    with assms j SendPacket h show thesis
      by (intro that [OF sub, of k ?c "r_log s'" "r_panics s'" sz])
        (auto simp: run_spawned_def Let_def set_conn_def rpanic_def split: outcome.splits)
  next
    case (IncomingDatagram k pkt)
    obtain sz ps lg where "deliver DatagramSlice (process_incoming_datagram L m pkt (r_conns s ! k))
        (parsed_assoc (parse_datagram L pkt)) (s\<lparr>r_spawned := ?sp\<rparr>)
      = s\<lparr>r_spawned := ?sp, r_max_size := sz, r_panics := ps, r_log := lg\<rparr>"
      by (rule deliver_frame)
    with assms j IncomingDatagram show thesis
      by (intro that [OF sub, of k "r_conns s ! k" lg ps sz]) (auto simp: run_spawned_def Let_def)
  next
    case (IncomingUni k recv)
    let ?c = "set_streams (drop_stream RecvStream (cc_streams (r_conns s ! k))) (r_conns s ! k)"
    obtain sz ps lg where "deliver UniStream (process_incoming_uni_stream L m recv ?c)
        (parsed_assoc (parse_uni_stream L recv)) (s\<lparr>r_spawned := ?sp, r_conns := (r_conns s)[k := ?c]\<rparr>)
      = s\<lparr>r_spawned := ?sp, r_conns := (r_conns s)[k := ?c], r_max_size := sz, r_panics := ps, r_log := lg\<rparr>"
      by (rule deliver_frame)
    with assms j IncomingUni show thesis
      by (intro that [OF sub, of k ?c lg ps sz]) (auto simp: run_spawned_def Let_def set_conn_def streams_change_drop)
  qed
qed

lemma heartbeat_stepE:
  assumes "heartbeat_step L k branch open_uni s = Some s'"
  obtains "s' = s"
  using assms
  by (auto simp: heartbeat_step_def set_conn_def split: if_splits heartbeat_result.splits dest: streams_change_heartbeat)

lemma stream_droppedE:
  assumes "stream_dropped k s = Some s'"
  obtains c where "streams_change (r_conns s ! k) c" "s' = s\<lparr>r_conns := (r_conns s)[k := c]\<rparr>"
  using assms streams_change_drop [of "r_conns s ! k" BiStream]
  by (auto simp: stream_dropped_def set_conn_def drop_bi_def split: if_splits)

end
