(* ===== verification/Client_Safety.thy ===== *)
theory Client_Safety
  imports Client_Relay
begin

text \<open>
  Invariants of the client's relay: the mutex and its guard, the chain of channels to the listener,
  the count of requests, and the session tables; and the properties that rest on them.
\<close>

section \<open>Invariants\<close>

lemmas rstep_elims = request_arrivesE request_spawnedE requests_endE request_locksE request_times_outE
  request_takesE request_connectsE request_associatesE request_packetE request_dissociatesE
  manager_polls_reqE manager_connectsE manager_wakesE manager_polls_closeE manager_locksE
  incoming_receivesE run_spawnedE heartbeat_stepE stream_droppedE

text \<open>The mutex: who holds it, what is in it, and where the manager is.\<close>

fun manager_waits :: "manager_pc \<Rightarrow> bool" where
  "manager_waits WaitReq = True"
| "manager_waits WaitReqUnset = True"
| "manager_waits WaitReqParked = True"
| "manager_waits Establishing = True"
| "manager_waits Sleeping = True"
| "manager_waits _ = False"

fun manager_conn :: "manager_pc \<Rightarrow> nat option" where
  "manager_conn (CloseRead k) = Some k"
| "manager_conn (CloseUnset k) = Some k"
| "manager_conn (CloseParked k) = Some k"
| "manager_conn (Locking k) = Some k"
| "manager_conn _ = None"

definition holding :: "('bs, 'rs) relay \<Rightarrow> nat \<Rightarrow> bool" where
  "holding s i \<longleftrightarrow> i < length (r_requests s) \<and> snd (r_requests s ! i) = ReqHolding"

definition lock_ok :: "('bs, 'rs) relay \<Rightarrow> bool" where
  "lock_ok s \<longleftrightarrow>
     (r_guard s \<longleftrightarrow> r_holder s = ManagerHolds) \<and> (r_guard s \<longleftrightarrow> manager_waits (r_manager s)) \<and>
     (\<forall>i. r_holder s = RequestHolds i \<longleftrightarrow> holding s i) \<and>
     r_slot s = (if r_conns s = [] then None else Some (length (r_conns s) - 1)) \<and>
     (r_conns s = [] \<longrightarrow> r_guard s) \<and>
     (\<forall>k. manager_conn (r_manager s) = Some k \<longrightarrow> Suc k = length (r_conns s))"

lemma lock_ok_init: "lock_ok relay_init"
  by (simp add: lock_ok_def relay_init_def holding_def)

lemma lock_held: "lock_ok s \<Longrightarrow> holding s i \<Longrightarrow> r_slot s \<noteq> None"
  unfolding lock_ok_def by (metis holder.distinct(5) option.distinct(1))

lemma lock_connecting: "lock_ok s \<Longrightarrow> manager_waits (r_manager s) \<Longrightarrow> r_guard s"
  unfolding lock_ok_def by blast

lemma lock_ok_frame:
  assumes "lock_ok s" and "r_guard s' = r_guard s" "r_holder s' = r_holder s" "r_slot s' = r_slot s"
    "length (r_conns s') = length (r_conns s)" "manager_waits (r_manager s') = manager_waits (r_manager s)"
    "manager_conn (r_manager s') = manager_conn (r_manager s)" "\<And>i. holding s' i = holding s i"
  shows "lock_ok s'"
proof -
  have "r_conns s' = [] \<longleftrightarrow> r_conns s = []" using assms(5) by (metis length_0_conv)
  with assms show ?thesis unfolding lock_ok_def by auto
qed

text \<open>The channels: the k-th connection was sent over the k-th channel.\<close>

definition chain_ok :: "('bs, 'rs) relay \<Rightarrow> bool" where
  "chain_ok s \<longleftrightarrow>
     r_channels s = map (\<lambda>k. Some (k, Suc k)) [0..<length (r_conns s)] @ [None] \<and>
     r_next_tx s = length (r_conns s) \<and>
     (case r_incoming s of
        AwaitChannel rx \<Rightarrow> rx \<le> length (r_conns s)
      | Listening k next_rx \<Rightarrow> k < length (r_conns s) \<and> next_rx = Suc k)"

lemma chain_ok_init: "chain_ok relay_init"
  by (simp add: chain_ok_def relay_init_def)

lemma chain_ok_bound: "chain_ok s \<Longrightarrow> \<forall>k next_rx. r_incoming s = Listening k next_rx \<longrightarrow> k < length (r_conns s)"
  by (auto simp: chain_ok_def)

lemma chain_next:
  assumes "chain_ok s" and "r_incoming s = AwaitChannel rx"
  shows "incoming_next rx s = (if rx = length (r_conns s) then Waiting else GotConnection (rx, Suc rx))"
  using assms by (auto simp: chain_ok_def incoming_next_def nth_append)

lemma chain_ok_frame:
  assumes "chain_ok s" and "length (r_conns s') = length (r_conns s)" "r_channels s' = r_channels s"
    "r_next_tx s' = r_next_tx s" "r_incoming s' = r_incoming s"
  shows "chain_ok s'"
  using assms by (cases "r_incoming s") (simp_all add: chain_ok_def)

lemma chain_ok_step:
  assumes ok: "chain_ok s" and step: "rstep L config l s = Some s'"
  shows "chain_ok s'"
  using step
proof (cases rule: rstep_cases)
  case (ManagerConnects q lookup m)
  from ManagerConnects(2) show ?thesis
  proof (cases rule: manager_connectsE)
    case 2
    with ok show ?thesis
      by (auto simp: chain_ok_def list_update_append split: incoming_pc.splits)
  qed (auto intro: chain_ok_frame [OF ok] simp: rpanic_def)
next
  case IncomingReceives
  from IncomingReceives(2) show ?thesis
  proof (cases rule: incoming_receivesE)
    case (1 rx k next_rx)
    with ok chain_next [OF ok 1(1)] show ?thesis by (auto simp: chain_ok_def split: if_splits)
  qed (auto intro: chain_ok_frame [OF ok] simp: rpanic_def)
next
  case (IncomingItem item)
  from IncomingItem(2) chain_ok_bound [OF ok] show ?thesis
  proof (cases rule: incoming_itemE)
    case (3 k next_rx c)
    with ok show ?thesis by (auto simp: chain_ok_def)
  qed (auto intro: chain_ok_frame [OF ok])
qed (auto elim!: rstep_elims intro!: chain_ok_frame [OF ok] simp: rpanic_def)

lemma lock_ok_step:
  assumes ok: "lock_ok s" and chain: "chain_ok s" and step: "rstep L config l s = Some s'"
  shows "lock_ok s'"
  using step
proof (cases rule: rstep_cases)
  case (RequestLocks i)
  from RequestLocks(2) show ?thesis
    using ok by (cases rule: request_locksE) (auto simp: lock_ok_def holding_def nth_list_update split: if_splits)
next
  case (RequestTakes i)
  from RequestTakes(2) show ?thesis
  proof (cases rule: request_takesE)
    case (1 req c)
    with ok have "r_holder s = RequestHolds i" by (auto simp: lock_ok_def holding_def)
    with 1 ok show ?thesis by (auto simp: lock_ok_def holding_def nth_list_update split: if_splits)
  qed (auto intro: lock_ok_frame [OF ok] simp: rpanic_def holding_def)
next
  case (ManagerConnects q lookup m)
  from ManagerConnects(2) show ?thesis
  proof (cases rule: manager_connectsE)
    case 2
    with ok have "\<not> holding s i" for i by (auto simp: lock_ok_def)
    with 2 show ?thesis by (simp add: lock_ok_def holding_def)
  qed (auto intro!: lock_ok_frame [OF ok] simp: rpanic_def holding_def)
next
  case ManagerLocks
  from ManagerLocks(2) show ?thesis
  proof (cases rule: manager_locksE)
    case (1 k)
    with ok have "\<not> holding s i" for i by (auto simp: lock_ok_def)
    with 1 ok show ?thesis by (simp add: lock_ok_def holding_def)
  qed
next
  case (IncomingItem item)
  from IncomingItem(2) chain_ok_bound [OF chain] show ?thesis
    by (cases rule: incoming_itemE)
      (auto intro!: lock_ok_frame [OF ok] simp: holding_def)
next
  case ManagerPollsReq
  from ManagerPollsReq(2) show ?thesis
    by (cases rule: manager_polls_reqE) (auto intro!: lock_ok_frame [OF ok] simp: holding_def)
next
  case ManagerPollsClose
  from ManagerPollsClose(2) show ?thesis
    by (cases rule: manager_polls_closeE) (auto intro!: lock_ok_frame [OF ok] simp: holding_def)
qed (auto elim!: rstep_elims intro!: lock_ok_frame [OF ok]
    simp: rpanic_def holding_def nth_list_update nth_append split: if_splits)

text \<open>Requests and spawned tasks refer to connections that exist, and what is spawned fits the mode.\<close>

fun request_conn :: "request_pc \<Rightarrow> nat option" where
  "request_conn (ReqServing c) = Some c"
| "request_conn (ReqAssociated c) = Some c"
| "request_conn _ = None"

fun spawned_ok :: "ConnectionConfig \<Rightarrow> nat \<Rightarrow> 'rs spawned \<Rightarrow> bool" where
  "spawned_ok config n (SendPacket k _ _ _) \<longleftrightarrow> k < n"
| "spawned_ok config n (IncomingDatagram k _) \<longleftrightarrow> k < n \<and> config_mode config = Native ()"
| "spawned_ok config n (IncomingUni k _) \<longleftrightarrow> k < n \<and> config_mode config = Quic ()"

definition refs_ok :: "ConnectionConfig \<Rightarrow> ('bs, 'rs) relay \<Rightarrow> bool" where
  "refs_ok config s \<longleftrightarrow>
     (\<forall>r \<in> set (r_requests s). \<forall>c. request_conn (snd r) = Some c \<longrightarrow> c < length (r_conns s)) \<and>
     (\<forall>t \<in> set (r_spawned s). spawned_ok config (length (r_conns s)) t)"

lemma refs_ok_init: "refs_ok config relay_init"
  by (simp add: refs_ok_def relay_init_def)

lemma spawned_ok_mono: "spawned_ok config n t \<Longrightarrow> n \<le> m \<Longrightarrow> spawned_ok config m t"
  by (cases t) auto

lemma refs_ok_frame:
  assumes "refs_ok config s" and "length (r_conns s) \<le> length (r_conns s')"
    and "\<And>r. r \<in> set (r_requests s') \<Longrightarrow> r \<in> set (r_requests s) \<or> request_conn (snd r) = None \<or>
      (\<exists>c. request_conn (snd r) = Some c \<and> c < length (r_conns s))"
    and "\<And>t. t \<in> set (r_spawned s') \<Longrightarrow> t \<in> set (r_spawned s) \<or> spawned_ok config (length (r_conns s)) t"
  shows "refs_ok config s'"
  unfolding refs_ok_def
proof (intro conjI ballI allI impI)
  fix r c assume "r \<in> set (r_requests s')" and "request_conn (snd r) = Some c"
  with assms(1) assms(3) [of r] have "c < length (r_conns s)" by (auto simp: refs_ok_def)
  with assms(2) show "c < length (r_conns s')" by simp
next
  fix t assume "t \<in> set (r_spawned s')"
  with assms(1) assms(4) [of t] have "spawned_ok config (length (r_conns s)) t" by (auto simp: refs_ok_def)
  with assms(2) show "spawned_ok config (length (r_conns s')) t" by (blast intro: spawned_ok_mono)
qed

lemma refs_ok_at:
  assumes "refs_ok config s" and "i < length (r_requests s)" and "r_requests s ! i = (req, pc)"
    and "request_conn pc = Some c"
  shows "c < length (r_conns s)"
  using assms nth_mem [OF assms(2)] by (auto simp: refs_ok_def)

lemma refs_ok_step:
  assumes ok: "refs_ok config s" and lock: "lock_ok s" and chain: "chain_ok s" and step: "rstep L config l s = Some s'"
  shows "refs_ok config s'"
  using step
proof (cases rule: rstep_cases)
  case (RequestTakes i)
  from RequestTakes(2) show ?thesis
  proof (cases rule: request_takesE)
    case (1 req c)
    with lock have "c < length (r_conns s)" by (auto simp: lock_ok_def split: if_splits)
    with 1 show ?thesis
      by (intro refs_ok_frame [OF ok]) (auto dest!: set_update_subset_insert [THEN subsetD])
  qed (auto intro!: refs_ok_frame [OF ok] simp: rpanic_def)
next
  case (RequestAssociates i)
  from RequestAssociates(2) show ?thesis
    by (cases rule: request_associatesE)
      (auto intro!: refs_ok_frame [OF ok] dest!: set_update_subset_insert [THEN subsetD] refs_ok_at [OF ok])
next
  case (RequestPacket i pkt addr)
  from RequestPacket(2) show ?thesis
    by (cases rule: request_packetE) (auto intro!: refs_ok_frame [OF ok] dest!: refs_ok_at [OF ok])
next
  case (IncomingItem item)
  from IncomingItem(2) chain_ok_bound [OF chain] show ?thesis
    using chain by (cases rule: incoming_itemE) (auto intro!: refs_ok_frame [OF ok] simp: chain_ok_def)
qed (auto elim!: rstep_elims intro!: refs_ok_frame [OF ok]
    dest!: set_update_subset_insert [THEN subsetD] simp: rpanic_def)

text \<open>The register counts the listener and the requests whose tasks have not ended.\<close>

definition live :: "Request \<times> request_pc \<Rightarrow> bool" where
  "live r \<longleftrightarrow> snd r \<noteq> ReqDone"

definition count_ok :: "('bs, 'rs) relay \<Rightarrow> bool" where
  "count_ok s \<longleftrightarrow> strong_count (r_register s) = of_bool (r_accepting s) + length (filter live (r_requests s))"

lemma filter_update_keep:
  "i < length xs \<Longrightarrow> P (xs ! i) \<Longrightarrow> P y \<Longrightarrow> length (filter P (xs[i := y])) = length (filter P xs)"
  by (subst (3) id_take_nth_drop) (auto simp: upd_conv_take_nth_drop)

lemma filter_update_remove:
  "i < length xs \<Longrightarrow> P (xs ! i) \<Longrightarrow> \<not> P y \<Longrightarrow> length (filter P (xs[i := y])) = length (filter P xs) - 1"
  by (subst (3) id_take_nth_drop) (auto simp: upd_conv_take_nth_drop)

lemma filter_pos: "i < length xs \<Longrightarrow> P (xs ! i) \<Longrightarrow> 0 < length (filter P xs)"
  by (auto simp: filter_empty_conv)

lemma live_pair [simp]: "live (req, pc) \<longleftrightarrow> pc \<noteq> ReqDone"
  by (simp add: live_def)

lemma count_ok_init: "count_ok relay_init"
  by (simp add: count_ok_def relay_init_def RequestRegister_new_def)

lemma count_ok_frame:
  assumes "count_ok s" and "strong_count (r_register s') = strong_count (r_register s)"
    and "r_accepting s' = r_accepting s"
    and "r_requests s' = r_requests s"
  shows "count_ok s'"
  using assms by (simp add: count_ok_def)

lemma count_ok_move:
  assumes "count_ok s" and "i < length (r_requests s)" "r_requests s ! i = (req, pc)" "pc \<noteq> ReqDone" "pc' \<noteq> ReqDone"
    and "strong_count (r_register s') = strong_count (r_register s)" "r_accepting s' = r_accepting s"
    and "r_requests s' = (r_requests s)[i := (req, pc')]"
  shows "count_ok s'"
  using assms by (simp add: count_ok_def filter_update_keep)

lemma count_ok_finish:
  assumes "count_ok s" and "i < length (r_requests s)" "r_requests s ! i = (req, pc)" "pc \<noteq> ReqDone"
    and "r_register s' = RequestRegister_drop (r_register s)" "r_accepting s' = r_accepting s"
      "r_requests s' = (r_requests s)[i := (req, ReqDone)]"
  shows "count_ok s'"
  using assms filter_pos [of i "r_requests s" live]
  by (simp add: count_ok_def RequestRegister_drop_def filter_update_remove)

lemma count_ok_step:
  assumes ok: "count_ok s" and chain: "chain_ok s" and step: "rstep L config l s = Some s'"
  shows "count_ok s'"
  using step
proof (cases rule: rstep_cases)
  case (RequestArrives req)
  from RequestArrives(2) show ?thesis
    using ok by (cases rule: request_arrivesE) (simp add: count_ok_def RequestRegister_clone_arc_def)
next
  case RequestSpawned
  from RequestSpawned(2) show ?thesis
    using ok by (cases rule: request_spawnedE) (simp add: count_ok_def RequestRegister_clone_wake_def)
next
  case RequestsEnd
  from RequestsEnd(2) show ?thesis
    using ok by (cases rule: requests_endE) (simp add: count_ok_def RequestRegister_drop_def)
next
  case (IncomingItem item)
  from IncomingItem(2) chain_ok_bound [OF chain] show ?thesis
    by (cases rule: incoming_itemE) (auto intro!: count_ok_frame [OF ok])
next
  case (RequestTimesOut i)
  from RequestTimesOut(2) show ?thesis by (cases rule: request_times_outE) (auto intro: count_ok_finish [OF ok])
next
  case (RequestConnects i open_bi)
  from RequestConnects(2) show ?thesis by (cases rule: request_connectsE) (auto intro: count_ok_finish [OF ok])
next
  case (RequestDissociates i open_uni)
  from RequestDissociates(2) show ?thesis by (cases rule: request_dissociatesE) (auto intro: count_ok_finish [OF ok])
next
  case (RequestLocks i)
  from RequestLocks(2) show ?thesis by (cases rule: request_locksE) (auto intro: count_ok_move [OF ok])
next
  case (RequestTakes i)
  from RequestTakes(2) show ?thesis by (cases rule: request_takesE) (auto intro: count_ok_move [OF ok] count_ok_frame [OF ok] simp: rpanic_def)
next
  case (RequestAssociates i)
  from RequestAssociates(2) show ?thesis by (cases rule: request_associatesE) (auto intro: count_ok_move [OF ok])
qed (auto elim!: rstep_elims intro!: count_ok_frame [OF ok] simp: rpanic_def Wait_poll_register_def)

text \<open>Every entry of a session table belongs to an association that is being served.\<close>

definition tables_ok :: "('bs, 'rs) relay \<Rightarrow> bool" where
  "tables_ok s \<longleftrightarrow>
     (\<forall>c < length (r_conns s). \<forall>a tx. SessionTable_get a (cc_sessions (r_conns s ! c)) = Some tx \<longrightarrow>
        (\<exists>rx. (RequestAssociate a rx tx, ReqAssociated c) \<in> set (r_requests s)))"

lemma tables_ok_init: "tables_ok relay_init"
  by (simp add: tables_ok_def relay_init_def)

lemma tables_okD:
  assumes "tables_ok s" and "c < length (r_conns s)" and "SessionTable_get a (cc_sessions (r_conns s ! c)) = Some tx"
  obtains rx where "(RequestAssociate a rx tx, ReqAssociated c) \<in> set (r_requests s)"
  using assms unfolding tables_ok_def by blast

lemma in_set_update: "x \<in> set xs \<Longrightarrow> x \<noteq> xs ! i \<Longrightarrow> x \<in> set (xs[i := y])"
  by (metis in_set_conv_nth length_list_update nth_list_update_neq)

lemma streams_change_fields:
  assumes "streams_change c c'"
  shows "cc_sessions c' = cc_sessions c" "cc_mode c' = cc_mode c" "cc_closed c' = cc_closed c"
    "cc_default_max c' = cc_default_max c"
  using assms by (auto simp: streams_change_def set_streams_def)

lemma tables_ok_frame:
  assumes "tables_ok s" and "length (r_conns s') = length (r_conns s)"
    and "\<And>k. k < length (r_conns s) \<Longrightarrow> cc_sessions (r_conns s' ! k) = cc_sessions (r_conns s ! k)"
    and "\<And>a rx tx c. (RequestAssociate a rx tx, ReqAssociated c) \<in> set (r_requests s) \<Longrightarrow>
      (RequestAssociate a rx tx, ReqAssociated c) \<in> set (r_requests s')"
  shows "tables_ok s'"
  unfolding tables_ok_def
proof (intro allI impI)
  fix c a tx assume c: "c < length (r_conns s')" and g: "SessionTable_get a (cc_sessions (r_conns s' ! c)) = Some tx"
  with assms(2) assms(3) [of c] have "c < length (r_conns s)" "SessionTable_get a (cc_sessions (r_conns s ! c)) = Some tx"
    by simp_all
  with assms(1) obtain rx where "(RequestAssociate a rx tx, ReqAssociated c) \<in> set (r_requests s)"
    by (rule tables_okD)
  with assms(4) show "\<exists>rx. (RequestAssociate a rx tx, ReqAssociated c) \<in> set (r_requests s')" by blast
qed

lemma conn_update_sessions:
  "cc_sessions c = cc_sessions (cs ! k) \<Longrightarrow> j < length cs \<Longrightarrow> cc_sessions (cs[k := c] ! j) = cc_sessions (cs ! j)"
  by (cases "j = k") auto

lemma cc_sessions_set_closed [simp]: "cc_sessions (fst (conn_set_closed c)) = cc_sessions c"
  by (simp add: conn_set_closed_def split: prod.split)

lemma cc_sessions_new [simp]: "cc_sessions (fst (Connection_new config)) = SessionTable_new"
  by (simp add: Connection_new_def)

lemma handle_connect_sessions:
  "handle_connect L open_bi addr c = (r, c') \<Longrightarrow> cc_sessions c' = cc_sessions c"
  using streams_change_fields(1) [OF handle_connect_conn [of c L open_bi addr]] by simp

lemma tables_ok_associate:
  assumes ok: "tables_ok s" and i: "i < length (r_requests s)" "r_requests s ! i = (RequestAssociate a rx tx, pc)"
    and pc: "\<And>c. pc \<noteq> ReqAssociated c"
    and req: "r_requests s' = (r_requests s)[i := (RequestAssociate a rx tx, ReqAssociated c)]"
    and conn: "r_conns s' = (r_conns s)[c := (r_conns s ! c)\<lparr>cc_sessions := snd (SessionTable_insert a tx (cc_sessions (r_conns s ! c)))\<rparr>]"
  shows "tables_ok s'"
  unfolding tables_ok_def
proof (intro allI impI)
  fix c' a' tx' assume c': "c' < length (r_conns s')" and g: "SessionTable_get a' (cc_sessions (r_conns s' ! c')) = Some tx'"
  consider "c' = c" "a' = a" "tx' = tx" | "SessionTable_get a' (cc_sessions (r_conns s ! c')) = Some tx'"
    using c' g by (cases "c' = c"; cases "a' = a") (auto simp: conn sessions.get_insert)
  then show "\<exists>rx. (RequestAssociate a' rx tx', ReqAssociated c') \<in> set (r_requests s')"
  proof cases
    case 1
    with i req show ?thesis by (auto intro: set_update_memI)
  next
    case 2
    with ok c' conn obtain rx' where "(RequestAssociate a' rx' tx', ReqAssociated c') \<in> set (r_requests s)"
      by (auto elim: tables_okD)
    with i pc [of c'] req show ?thesis by (auto intro!: exI [of _ rx'] in_set_update)
  qed
qed

lemma tables_ok_dissociate:
  assumes ok: "tables_ok s" and i: "i < length (r_requests s)" "r_requests s ! i = (RequestAssociate a rx tx, ReqAssociated c)"
    and req: "r_requests s' = (r_requests s)[i := (RequestAssociate a rx tx, ReqDone)]"
    and conn: "r_conns s' = (r_conns s)[c := (r_conns s ! c)\<lparr>cc_sessions := snd (SessionTable_remove a (cc_sessions (r_conns s ! c)))\<rparr>]"
  shows "tables_ok s'"
  unfolding tables_ok_def
proof (intro allI impI)
  fix c' a' tx' assume c': "c' < length (r_conns s')" and g: "SessionTable_get a' (cc_sessions (r_conns s' ! c')) = Some tx'"
  have old: "SessionTable_get a' (cc_sessions (r_conns s ! c')) = Some tx'" and ne: "\<not> (c' = c \<and> a' = a)"
    using c' g by (cases "c' = c"; cases "a' = a"; auto simp: conn sessions.get_remove)+
  with ok c' conn obtain rx' where "(RequestAssociate a' rx' tx', ReqAssociated c') \<in> set (r_requests s)"
    by (auto elim: tables_okD)
  with i ne req show "\<exists>rx. (RequestAssociate a' rx tx', ReqAssociated c') \<in> set (r_requests s')"
    by (auto intro!: exI [of _ rx'] in_set_update)
qed

lemma tables_ok_step:
  assumes ok: "tables_ok s" and chain: "chain_ok s" and step: "rstep L config l s = Some s'"
  shows "tables_ok s'"
  using step
proof (cases rule: rstep_cases)
  case (RequestAssociates i)
  from RequestAssociates(2) show ?thesis by (cases rule: request_associatesE) (auto intro: tables_ok_associate [OF ok])
next
  case (RequestDissociates i open_uni)
  from RequestDissociates(2) show ?thesis by (cases rule: request_dissociatesE) (auto intro: tables_ok_dissociate [OF ok])
next
  case (ManagerConnects q lookup m)
  from ManagerConnects(2) show ?thesis
  proof (cases rule: manager_connectsE)
    case 2
    with ok show ?thesis by (auto simp: tables_ok_def nth_append sessions.get_empty split: if_splits)
  qed (auto intro!: tables_ok_frame [OF ok] simp: rpanic_def)
next
  case (IncomingItem item)
  from IncomingItem(2) chain_ok_bound [OF chain] show ?thesis
    by (cases rule: incoming_itemE)
      (auto intro!: tables_ok_frame [OF ok] conn_update_sessions simp: streams_change_fields)
next
  case (RequestConnects i open_bi)
  from RequestConnects(2) show ?thesis
    by (cases rule: request_connectsE)
      (auto intro!: tables_ok_frame [OF ok] conn_update_sessions in_set_update dest: handle_connect_sessions)
qed (auto elim!: rstep_elims intro!: tables_ok_frame [OF ok] conn_update_sessions in_set_update
    simp: rpanic_def streams_change_fields)

text \<open>With associate ids that differ, every association that is being served has its entry.\<close>

definition unique_ids :: "('bs, 'rs) relay \<Rightarrow> bool" where
  "unique_ids s \<longleftrightarrow>
     (\<forall>i < length (r_requests s). \<forall>j < length (r_requests s). \<forall>a rx tx rx' tx'.
        fst (r_requests s ! i) = RequestAssociate a rx tx \<and> fst (r_requests s ! j) = RequestAssociate a rx' tx' \<longrightarrow> i = j)"

definition served :: "('bs, 'rs) relay \<Rightarrow> nat \<Rightarrow> u32 \<Rightarrow> nat \<Rightarrow> nat \<Rightarrow> bool" where
  "served s i a tx c \<longleftrightarrow>
     i < length (r_requests s) \<and> (\<exists>rx. r_requests s ! i = (RequestAssociate a rx tx, ReqAssociated c))"

definition sessions_complete :: "('bs, 'rs) relay \<Rightarrow> bool" where
  "sessions_complete s \<longleftrightarrow>
     (\<forall>i a tx c. served s i a tx c \<longrightarrow> SessionTable_get a (cc_sessions (r_conns s ! c)) = Some tx)"

text \<open>The requests themselves never change, and new ones come at the end.\<close>

lemma requests_grow:
  assumes "chain_ok s" and step: "rstep L config l s = Some s'"
  obtains new where "map fst (r_requests s') = map fst (r_requests s) @ new"
proof -
  have upd: "map fst ((r_requests s)[i := (req, pc)]) = map fst (r_requests s) @ []"
    if "i < length (r_requests s)" "r_requests s ! i = (req, pc')" for i req pc pc'
    using that by (simp add: map_update list_update_same_conv)
  show thesis
    using step
  proof (cases rule: rstep_cases)
    case (IncomingItem item)
    from IncomingItem(2) chain_ok_bound [OF assms(1)] show thesis
      by (cases rule: incoming_itemE) (auto intro!: that [of "[]"])
  next
    case (RequestArrives req)
    with step that [of "[req]"] show thesis by (auto elim!: request_arrivesE)
  next
    case RequestSpawned
    with step that [of "[]"] show thesis by (auto elim!: request_spawnedE)
  qed (use step that [of "[]"] upd in \<open>auto elim!: rstep_elims simp: rpanic_def\<close>)
qed

lemma unique_ids_iff:
  "unique_ids s \<longleftrightarrow>
     (\<forall>i < length (map fst (r_requests s)). \<forall>j < length (map fst (r_requests s)). \<forall>a rx tx rx' tx'.
        map fst (r_requests s) ! i = RequestAssociate a rx tx \<and> map fst (r_requests s) ! j = RequestAssociate a rx' tx' \<longrightarrow> i = j)"
  by (simp add: unique_ids_def)

lemma unique_ids_before:
  assumes "chain_ok s" and "rstep L config l s = Some s'" and "unique_ids s'"
  shows "unique_ids s"
proof -
  obtain new where n: "map fst (r_requests s') = map fst (r_requests s) @ new"
    using assms(1,2) by (rule requests_grow)
  then have len: "length (map fst (r_requests s)) \<le> length (map fst (r_requests s'))" by (metis le_add1 length_append)
  have at: "map fst (r_requests s') ! i = map fst (r_requests s) ! i" if "i < length (map fst (r_requests s))" for i
    using n that by (simp only: nth_append if_True)
  show ?thesis
    unfolding unique_ids_iff
  proof (intro allI impI)
    fix i j a rx tx rx' tx'
    assume "i < length (map fst (r_requests s))" "j < length (map fst (r_requests s))"
      "map fst (r_requests s) ! i = RequestAssociate a rx tx \<and> map fst (r_requests s) ! j = RequestAssociate a rx' tx'"
    with at len assms(3) [unfolded unique_ids_iff, rule_format, of i j a rx tx rx' tx'] show "i = j" by simp
  qed
qed

lemma sessions_complete_frame:
  assumes "sessions_complete s"
    and "\<And>i a tx c. served s' i a tx c \<Longrightarrow> served s i a tx c \<and> cc_sessions (r_conns s' ! c) = cc_sessions (r_conns s ! c)"
  shows "sessions_complete s'"
  using assms unfolding sessions_complete_def by metis

lemma served_bound:
  assumes "refs_ok config s" and "served s i a tx c"
  shows "c < length (r_conns s)"
  using assms refs_ok_at [OF assms(1), of i] by (auto simp: served_def)

lemma sessions_complete_associate:
  assumes ok: "sessions_complete s" and u: "unique_ids s" and refs: "refs_ok config s"
    and i: "i < length (r_requests s)" "r_requests s ! i = (RequestAssociate a rx tx, ReqServing c)"
    and req: "r_requests s' = (r_requests s)[i := (RequestAssociate a rx tx, ReqAssociated c)]"
    and conn: "r_conns s' = (r_conns s)[c := (r_conns s ! c)\<lparr>cc_sessions := snd (SessionTable_insert a tx (cc_sessions (r_conns s ! c)))\<rparr>]"
  shows "sessions_complete s'"
  unfolding sessions_complete_def
proof (intro allI impI)
  fix j a' tx' c' assume j: "served s' j a' tx' c'"
  have c: "c < length (r_conns s)" using refs_ok_at [OF refs i] by simp
  show "SessionTable_get a' (cc_sessions (r_conns s' ! c')) = Some tx'"
  proof (cases "j = i")
    case True
    with j i req conn c show ?thesis by (auto simp: served_def sessions.get_insert)
  next
    case False
    with j req have old: "served s j a' tx' c'" by (auto simp: served_def)
    with u i False have "a' \<noteq> a" unfolding unique_ids_def served_def by (metis fst_conv)
    moreover have "c' < length (r_conns s)" using served_bound [OF refs old] .
    ultimately show ?thesis
      using ok old conn by (cases "c' = c") (auto simp: sessions_complete_def sessions.get_insert)
  qed
qed

lemma sessions_complete_dissociate:
  assumes ok: "sessions_complete s" and u: "unique_ids s" and refs: "refs_ok config s"
    and i: "i < length (r_requests s)" "r_requests s ! i = (RequestAssociate a rx tx, ReqAssociated c)"
    and req: "r_requests s' = (r_requests s)[i := (RequestAssociate a rx tx, ReqDone)]"
    and conn: "r_conns s' = (r_conns s)[c := (r_conns s ! c)\<lparr>cc_sessions := snd (SessionTable_remove a (cc_sessions (r_conns s ! c)))\<rparr>]"
  shows "sessions_complete s'"
  unfolding sessions_complete_def
proof (intro allI impI)
  fix j a' tx' c' assume j: "served s' j a' tx' c'"
  with i req have "j \<noteq> i" by (auto simp: served_def)
  with j req have old: "served s j a' tx' c'" by (auto simp: served_def)
  with u i \<open>j \<noteq> i\<close> have "a' \<noteq> a" unfolding unique_ids_def served_def by (metis fst_conv)
  moreover have "c' < length (r_conns s)" using served_bound [OF refs old] .
  ultimately show "SessionTable_get a' (cc_sessions (r_conns s' ! c')) = Some tx'"
    using ok old conn by (cases "c' = c") (auto simp: sessions_complete_def sessions.get_remove)
qed

lemma sessions_complete_unserved:
  assumes ok: "sessions_complete s" and refs: "refs_ok config s"
    and "\<And>i a tx c. served s' i a tx c \<Longrightarrow> served s i a tx c"
    and "\<And>k. k < length (r_conns s) \<Longrightarrow> cc_sessions (r_conns s' ! k) = cc_sessions (r_conns s ! k)"
  shows "sessions_complete s'"
  using assms(3,4) served_bound [OF refs] by (blast intro: sessions_complete_frame [OF ok])

lemma sessions_complete_step:
  assumes ok: "sessions_complete s" and u: "unique_ids s" and refs: "refs_ok config s" and chain: "chain_ok s"
    and step: "rstep L config l s = Some s'"
  shows "sessions_complete s'"
  using step
proof (cases rule: rstep_cases)
  case (RequestAssociates i)
  from RequestAssociates(2) show ?thesis by (cases rule: request_associatesE) (auto intro: sessions_complete_associate [OF ok u refs])
next
  case (RequestDissociates i open_uni)
  from RequestDissociates(2) show ?thesis by (cases rule: request_dissociatesE) (auto intro: sessions_complete_dissociate [OF ok u refs])
next
  case (IncomingItem item)
  from IncomingItem(2) chain_ok_bound [OF chain] show ?thesis
    by (cases rule: incoming_itemE)
      (auto intro!: sessions_complete_unserved [OF ok refs] conn_update_sessions
        simp: streams_change_fields served_def)
next
  case (RequestConnects i open_bi)
  from RequestConnects(2) show ?thesis
    by (cases rule: request_connectsE)
      (auto intro!: sessions_complete_unserved [OF ok refs] conn_update_sessions dest: handle_connect_sessions
        simp: served_def nth_list_update split: if_splits)
next
  case (RequestSpawned)
  from RequestSpawned(2) show ?thesis
    by (cases rule: request_spawnedE) (auto intro!: sessions_complete_unserved [OF ok refs] simp: served_def nth_append split: if_splits)
qed (auto elim!: rstep_elims intro!: sessions_complete_unserved [OF ok refs] conn_update_sessions
    simp: rpanic_def streams_change_fields served_def nth_append nth_list_update split: if_splits)

text \<open>All of them together.\<close>

definition relay_ok :: "ConnectionConfig \<Rightarrow> ('bs, 'rs) relay \<Rightarrow> bool" where
  "relay_ok config s \<longleftrightarrow> lock_ok s \<and> chain_ok s \<and> refs_ok config s \<and> count_ok s \<and> tables_ok s"

lemma relay_okD:
  assumes "relay_ok config s"
  shows "lock_ok s" "chain_ok s" "refs_ok config s" "count_ok s" "tables_ok s"
  using assms by (auto simp: relay_ok_def)

lemma relay_ok_step: "relay_ok config s \<Longrightarrow> rstep L config l s = Some s' \<Longrightarrow> relay_ok config s'"
  unfolding relay_ok_def
  by (blast intro: lock_ok_step chain_ok_step refs_ok_step count_ok_step tables_ok_step)

lemma relay_ok_init: "relay_ok config relay_init"
  by (simp add: relay_ok_def lock_ok_init chain_ok_init refs_ok_init count_ok_init tables_ok_init)

lemma rreachable_ok: "rreachable L config T s \<Longrightarrow> relay_ok config s"
  by (induction rule: rreachable.induct) (auto intro: relay_ok_init relay_ok_step)

lemma rreachable_complete: "rreachable L config T s \<Longrightarrow> unique_ids s \<Longrightarrow> sessions_complete s"
proof (induction rule: rreachable.induct)
  case (step s l s')
  note ok = relay_okD [OF rreachable_ok [OF step.hyps(1)]]
  from unique_ids_before [OF ok(2) step.hyps(2) step.prems] step.IH ok step.hyps(2) show ?case
    by (blast intro: sessions_complete_step)
qed (simp add: sessions_complete_def served_def relay_init_def)

section \<open>Panics and deliveries\<close>

lemma deliver_cases:
  fixes m parsed c s site
  defines "s' \<equiv> deliver site (process_incoming m parsed c) (parsed_assoc parsed) s"
  obtains "parsed = Panic" "r_panics s' = site # r_panics s" "r_log s' = r_log s"
  | "parsed \<noteq> Panic" "r_panics s' = r_panics s" "r_log s' = r_log s"
  | a pkt addr tx where "parsed = Ok (a, pkt, addr)" "SessionTable_get a (cc_sessions c) = Some tx"
    "r_panics s' = r_panics s" "r_log s' = r_log s @ [PacketDelivered a tx pkt addr]"
proof (cases parsed)
  case (Ok p)
  obtain a pkt addr where p: "p = (a, pkt, addr)" using prod_cases3 by blast
  show thesis
  proof (cases "SessionTable_get a (cc_sessions c)")
    case None
    with Ok p that(2) show thesis
      by (simp add: s'_def deliver_def process_incoming_def handle_packet_from_def)
  next
    case (Some tx)
    with Ok p that(3) [OF _ Some] show thesis
      by (simp add: s'_def deliver_def process_incoming_def handle_packet_from_def relay_log_def parsed_assoc_def)
  qed
next
  case (Err e)
  with that(2) show thesis by (simp add: s'_def deliver_def process_incoming_def)
next
  case Panic
  with that(1) show thesis by (simp add: s'_def deliver_def process_incoming_def rpanic_def)
qed

lemma deliver_requests: "r_requests (deliver site res a s) = r_requests s"
  by (rule deliver_frame [of site res a s]) simp

lemma handle_connect_no_Err: "fst (handle_connect L open_bi addr c) \<noteq> Err e"
  by (auto simp: handle_connect_def split: outcome.splits prod.splits option.splits)

context client_env
begin

lemma handle_connect_total: "fst (handle_connect L open_bi addr c) \<noteq> Panic"
proof -
  have w: "Command_write_to (c_vec L) (bi_write L) cmd b \<noteq> Panic" for cmd b
    using byte_writer.write_all_total [OF bi_writer] by (auto simp: Command_write_to_def)
  have r: "Command_read_from (bi_read L) (c_order L) b \<noteq> Panic" for b
    using wire_reader.read_Command_exact [OF bi_reader, of b] by (auto simp: exact_read_def)
  have f: "BiStream_finish L b \<noteq> Panic" for b
    using bi_finish_total by (auto simp: BiStream_finish_def outcome_simps)
  have "fst (negotiate_connect L open_bi addr c) \<noteq> Panic"
    using w r f
    by (auto simp: negotiate_connect_def get_bi_stream_def Let_def outcome_simps
        split: sum.splits outcome.splits prod.splits if_splits)
  then show ?thesis
    by (auto simp: handle_connect_def split: outcome.splits prod.splits option.splits)
qed

lemma handle_packet_to_total: "fst (snd (handle_packet_to L m q_send open_uni a pkt addr mode c)) \<noteq> Panic"
proof -
  have w: "write_all (uni_write L) bs b \<noteq> Panic" for bs b
    using byte_writer.write_all_total [OF uni_writer] by auto
  have f: "SendStream_finish L b \<noteq> Panic" for b
    using uni_finish_total by (auto simp: SendStream_finish_def outcome_simps)
  have "fst (send_packet_quic L open_uni a pkt addr c) \<noteq> Panic"
    using w f by (auto simp: send_packet_quic_def with_send_stream_def get_send_stream_def Command_write_to_def
        Let_def outcome_simps split: sum.splits)
  moreover have "send_packet_native L q_send a pkt addr \<noteq> Panic"
    by (auto simp: send_packet_native_def conn_send_datagram_def Let_def outcome_simps)
  ultimately show ?thesis
    by (auto simp: handle_packet_to_def outcome_simps split: UdpRelayMode.splits prod.splits)
qed

text \<open>What a spawned task can do to the log and to the record of panics.\<close>

lemma run_spawned_cases:
  assumes run: "run_spawned L j m q_send open_uni s = Some s'" and refs: "refs_ok config s"
  obtains k pkt where "IncomingDatagram k pkt \<in> set (r_spawned s)" "config_mode config = Native ()"
      "parse_datagram L pkt = Panic" "r_panics s' = DatagramSlice # r_panics s" "r_log s' = r_log s"
  | "r_panics s' = r_panics s" "r_log s' = r_log s"
  | k a pkt addr tx where "k < length (r_conns s)" "SessionTable_get a (cc_sessions (r_conns s ! k)) = Some tx"
      "r_panics s' = r_panics s" "r_log s' = r_log s @ [PacketDelivered a tx pkt addr]"
proof -
  let ?s = "s\<lparr>r_spawned := take j (r_spawned s) @ drop (Suc j) (r_spawned s)\<rparr>"
  from run have j: "j < length (r_spawned s)" by (auto simp: run_spawned_def split: if_splits)
  then have ok: "spawned_ok config (length (r_conns s)) (r_spawned s ! j)" using refs by (auto simp: refs_ok_def)
  show thesis
  proof (cases "r_spawned s ! j")
    case (SendPacket k a pkt addr)
    obtain sz r conn where h: "handle_packet_to L m q_send open_uni a pkt addr (cc_mode (r_conns s ! k)) (r_conns s ! k) = (sz, r, conn)"
      using prod_cases3 by blast
    with handle_packet_to_total [of m q_send open_uni a pkt addr "cc_mode (r_conns s ! k)" "r_conns s ! k"]
    have "r \<noteq> Panic" by simp
    with run j SendPacket h that(2) show thesis
      by (cases r) (auto simp: run_spawned_def Let_def set_conn_def)
  next
    case (IncomingDatagram k pkt)
    with run j have s': "s' = deliver DatagramSlice (process_incoming m (parse_datagram L pkt) (r_conns s ! k))
      (parsed_assoc (parse_datagram L pkt)) ?s"
      by (simp add: run_spawned_def Let_def process_incoming_datagram_def)
    have mem: "IncomingDatagram k pkt \<in> set (r_spawned s)" using j IncomingDatagram nth_mem by fastforce
    show thesis
      by (rule deliver_cases [of "parse_datagram L pkt" DatagramSlice m "r_conns s ! k" ?s])
        (use ok IncomingDatagram mem s' in \<open>auto intro: that\<close>)
  next
    case (IncomingUni k recv)
    let ?c = "set_streams (drop_stream RecvStream (cc_streams (r_conns s ! k))) (r_conns s ! k)"
    from IncomingUni run j have s': "s' = deliver UniStream (process_incoming m (parse_uni_stream L recv) ?c)
      (parsed_assoc (parse_uni_stream L recv)) (set_conn k ?c ?s)"
      by (simp add: run_spawned_def Let_def process_incoming_uni_stream_def)
    show thesis
      by (rule deliver_cases [of "parse_uni_stream L recv" UniStream m ?c "set_conn k ?c ?s"])
        (use ok IncomingUni s' parse_uni_stream_total in \<open>auto intro: that simp: set_conn_def set_streams_def\<close>)
  qed
qed

lemma rstep_panics:
  assumes ok: "relay_ok config s" and step: "rstep L config l s = Some s'"
  shows "r_panics s' = r_panics s \<or>
    (config_mode config = Native () \<and> r_panics s' = DatagramSlice # r_panics s)"
  using step
proof (cases rule: rstep_cases)
  case (RunSpawned j m q_send open_uni)
  from RunSpawned(2) relay_okD(3) [OF ok] show ?thesis by (cases rule: run_spawned_cases) auto
next
  case (RequestTakes i)
  from RequestTakes(2) show ?thesis
  proof (cases rule: request_takesE)
    case (2 req)
    with lock_held [OF relay_okD(1) [OF ok], of i] show ?thesis by (simp add: holding_def)
  qed simp
next
  case (RequestConnects i open_bi)
  from RequestConnects(2) show ?thesis
  proof (cases rule: request_connectsE)
    case (2 addr tx c r conn)
    with handle_connect_total [of open_bi addr "r_conns s ! c"] handle_connect_no_Err [of L open_bi addr "r_conns s ! c"]
    show ?thesis by (cases r) auto
  qed simp
next
  case (ManagerConnects q lookup m)
  from ManagerConnects(2) show ?thesis
    using lock_connecting [OF relay_okD(1) [OF ok]] by (cases rule: manager_connectsE) auto
next
  case IncomingReceives
  from IncomingReceives(2) show ?thesis
    using chain_next [OF relay_okD(2) [OF ok]] by (cases rule: incoming_receivesE) (auto split: if_splits)
next
  case (IncomingItem item)
  from IncomingItem(2) chain_ok_bound [OF relay_okD(2) [OF ok]] show ?thesis by (cases rule: incoming_itemE) auto
qed (auto elim!: rstep_elims)

end

text \<open>The listener has finished with exactly the connections that are marked closed.\<close>

fun finished_with :: "incoming_pc \<Rightarrow> nat" where
  "finished_with (AwaitChannel rx) = rx"
| "finished_with (Listening k _) = k"

fun after_close :: "manager_pc \<Rightarrow> bool" where
  "after_close (CloseRead _) = False"
| "after_close (CloseUnset _) = False"
| "after_close (CloseParked _) = False"
| "after_close _ = True"

definition closed_ok :: "('bs, 'rs) relay \<Rightarrow> bool" where
  "closed_ok s \<longleftrightarrow>
     (\<forall>k < length (r_conns s). closed_flag (cc_closed (r_conns s ! k)) \<longleftrightarrow> k < finished_with (r_incoming s)) \<and>
     length (r_conns s) \<le> Suc (finished_with (r_incoming s)) \<and>
     (after_close (r_manager s) \<longrightarrow> finished_with (r_incoming s) = length (r_conns s))"

lemma finished_le: "chain_ok s \<Longrightarrow> finished_with (r_incoming s) \<le> length (r_conns s)"
  by (cases "r_incoming s") (auto simp: chain_ok_def)

lemma closed_ok_init: "closed_ok relay_init"
  by (simp add: closed_ok_def relay_init_def)

lemma closed_ok_frame:
  assumes "closed_ok s" and "length (r_conns s') = length (r_conns s)"
    and "\<And>k. k < length (r_conns s) \<Longrightarrow>
      closed_flag (cc_closed (r_conns s' ! k)) = closed_flag (cc_closed (r_conns s ! k))"
    and "finished_with (r_incoming s') = finished_with (r_incoming s)"
    and "after_close (r_manager s') \<Longrightarrow> after_close (r_manager s)"
  shows "closed_ok s'"
  using assms by (simp add: closed_ok_def)

lemma conn_update_closed:
  "closed_flag (cc_closed c) = closed_flag (cc_closed (cs ! k)) \<Longrightarrow> j < length cs \<Longrightarrow>
   closed_flag (cc_closed (cs[k := c] ! j)) = closed_flag (cc_closed (cs ! j))"
  by (cases "j = k") auto

lemma conn_set_closed_flag [simp]: "closed_flag (cc_closed (fst (conn_set_closed c)))"
  by (simp add: conn_set_closed_def ClosedFlag_set_def)

lemma closed_flag_register [simp]: "closed_flag (ClosedFlag_poll_register w f) = closed_flag f"
  by (simp add: ClosedFlag_poll_register_def)

lemma closed_flag_new [simp]: "\<not> closed_flag (cc_closed (fst (Connection_new config)))"
  by (simp add: Connection_new_def ClosedFlag_new_def)

lemma handle_connect_closed:
  "handle_connect L open_bi addr c = (r, c') \<Longrightarrow> cc_closed c' = cc_closed c"
  using streams_change_fields(3) [OF handle_connect_conn [of c L open_bi addr]] by simp

lemma closed_ok_step:
  assumes ok: "closed_ok s" and lock: "lock_ok s" and chain: "chain_ok s" and step: "rstep L config l s = Some s'"
  shows "closed_ok s'"
  using step
proof (cases rule: rstep_cases)
  case (ManagerConnects q lookup m)
  from ManagerConnects(2) show ?thesis
  proof (cases rule: manager_connectsE)
    case 2
    with ok show ?thesis by (auto simp: closed_ok_def nth_append less_Suc_eq)
  qed (auto intro!: closed_ok_frame [OF ok] simp: rpanic_def)
next
  case ManagerPollsClose
  from ManagerPollsClose(2) show ?thesis
  proof (cases rule: manager_polls_closeE)
    case (1 k)
    with lock have "Suc k = length (r_conns s)" by (auto simp: lock_ok_def)
    with ok 1 finished_le [OF chain] show ?thesis by (auto simp: closed_ok_def)
  qed (auto intro!: closed_ok_frame [OF ok] simp: conn_update_closed)
next
  case IncomingReceives
  from IncomingReceives(2) show ?thesis
    using chain_next [OF chain]
    by (cases rule: incoming_receivesE) (auto intro!: closed_ok_frame [OF ok] simp: rpanic_def split: if_splits)
next
  case (IncomingItem item)
  from IncomingItem(2) chain_ok_bound [OF chain] show ?thesis
  proof (cases rule: incoming_itemE)
    case (3 k next_rx c)
    with chain have k: "k < length (r_conns s)" "next_rx = Suc k" by (auto simp: chain_ok_def)
    from ok 3(1) k have "\<not> after_close (r_manager s)" by (auto simp: closed_ok_def)
    with ok 3 k show ?thesis by (auto simp: closed_ok_def nth_list_update less_Suc_eq split: if_splits)
  qed (auto intro!: closed_ok_frame [OF ok] simp: conn_update_closed streams_change_fields)
next
  case (RequestConnects i open_bi)
  from RequestConnects(2) show ?thesis
    by (cases rule: request_connectsE)
      (auto intro!: closed_ok_frame [OF ok] simp: conn_update_closed dest: handle_connect_closed)
next
  case ManagerLocks
  with step show ?thesis by (auto elim!: manager_locksE intro!: closed_ok_frame [OF ok])
next
  case RequestSpawned
  with step show ?thesis by (auto elim!: request_spawnedE intro!: closed_ok_frame [OF ok] split: if_splits)
qed (auto elim!: rstep_elims intro!: closed_ok_frame [OF ok]
    simp: conn_update_closed rpanic_def streams_change_fields)

lemma rreachable_closed_ok: "rreachable L config T s \<Longrightarrow> closed_ok s"
proof (induction rule: rreachable.induct)
  case (step s l s')
  with relay_okD(1,2) [OF rreachable_ok] show ?case by (blast intro: closed_ok_step)
qed (rule closed_ok_init)

text \<open>What is delivered was asked for.\<close>

definition log_ok :: "('bs, 'rs) relay \<Rightarrow> bool" where
  "log_ok s \<longleftrightarrow>
     (\<forall>a tx pkt addr. PacketDelivered a tx pkt addr \<in> set (r_log s) \<longrightarrow>
        (\<exists>rx. RequestAssociate a rx tx \<in> set (map fst (r_requests s))))"

lemma log_ok_frame:
  assumes "log_ok s" and "map fst (r_requests s') = map fst (r_requests s) @ new"
    and "\<And>a tx pkt addr. PacketDelivered a tx pkt addr \<in> set (r_log s') \<Longrightarrow> PacketDelivered a tx pkt addr \<in> set (r_log s)"
  shows "log_ok s'"
  using assms unfolding log_ok_def by (metis UnI1 set_append)

lemma rstep_log:
  assumes "rstep L config l s = Some s'" and "chain_ok s" and "PacketDelivered a tx pkt addr \<in> set (r_log s')"
    and "\<And>j m q_send open_uni. l \<noteq> RunSpawned j m q_send open_uni"
  shows "PacketDelivered a tx pkt addr \<in> set (r_log s)"
proof (cases l)
  case (IncomingItem item)
  with assms have "incoming_item config item s = Some s'" by simp
  from this chain_ok_bound [OF assms(2)] show ?thesis
    using assms(3) by (cases rule: incoming_itemE) auto
qed (use assms in \<open>auto elim!: rstep_elims simp: rpanic_def split: Request.splits\<close>)

lemma log_ok_add:
  assumes ok: "log_ok s" and grow: "map fst (r_requests s') = map fst (r_requests s) @ new"
    and log: "r_log s' = r_log s @ [PacketDelivered a tx pkt addr]"
    and req: "RequestAssociate a rx tx \<in> set (map fst (r_requests s'))"
  shows "log_ok s'"
  unfolding log_ok_def
proof (intro allI impI)
  fix a' tx' pkt' addr' assume "PacketDelivered a' tx' pkt' addr' \<in> set (r_log s')"
  with log consider "a' = a" "tx' = tx" | "PacketDelivered a' tx' pkt' addr' \<in> set (r_log s)" by auto
  then show "\<exists>rx. RequestAssociate a' rx tx' \<in> set (map fst (r_requests s'))"
  proof cases
    case 2
    with ok show ?thesis unfolding log_ok_def grow by (metis UnI1 set_append)
  qed (use req in blast)
qed

context client_env
begin

lemma log_ok_step:
  assumes ok: "log_ok s" and inv: "relay_ok config s" and step: "rstep L config l s = Some s'"
  shows "log_ok s'"
proof -
  obtain new where grow: "map fst (r_requests s') = map fst (r_requests s) @ new"
    using relay_okD(2) [OF inv] step by (rule requests_grow)
  show ?thesis
  proof (cases "\<exists>j m q_send open_uni. l = RunSpawned j m q_send open_uni")
    case False
    with rstep_log [OF step relay_okD(2) [OF inv]] log_ok_frame [OF ok grow] show ?thesis by blast
  next
    case True
    with step obtain j m q_send open_uni where "run_spawned L j m q_send open_uni s = Some s'" by auto
    from this relay_okD(3) [OF inv] show ?thesis
    proof (cases rule: run_spawned_cases)
      case (3 k a pkt addr tx)
      with relay_okD(5) [OF inv] obtain rx where "(RequestAssociate a rx tx, ReqAssociated k) \<in> set (r_requests s)"
        by (auto elim: tables_okD)
      then have "RequestAssociate a rx tx \<in> set (map fst (r_requests s'))" unfolding grow by force
      with 3 show ?thesis by (blast intro: log_ok_add [OF ok grow])
    qed (auto intro: log_ok_frame [OF ok grow])
  qed
qed

lemma rreachable_log_ok: "rreachable L config T s \<Longrightarrow> log_ok s"
proof (induction rule: rreachable.induct)
  case (step s l s')
  with rreachable_ok show ?case by (blast intro: log_ok_step)
qed (simp add: log_ok_def relay_init_def)

lemma rreachable_panics:
  "rreachable L config T s \<Longrightarrow>
   set (r_panics s) \<subseteq> {DatagramSlice} \<and> (r_panics s \<noteq> [] \<longrightarrow> config_mode config = Native ())"
proof (induction rule: rreachable.induct)
  case (step s l s')
  from rstep_panics [OF rreachable_ok [OF step.hyps(1)] step.hyps(2)] step.IH show ?case by auto
qed (simp add: relay_init_def)

end

section \<open>Runs\<close>

lemma rrun_append: "rrun L config (ls @ ls') s = (case rrun L config ls s of Some s' \<Rightarrow> rrun L config ls' s' | None \<Rightarrow> None)"
  by (induction ls arbitrary: s) (auto split: option.splits)

lemma rrun_reachable:
  "rreachable L config (T :: ('ep \<times> 'hs \<times> 'qc) itself) s \<Longrightarrow>
   rrun L config (ls :: ('bs, 'ss, 'rs, 'ep, 'hs, 'qc) rlabel list) s = Some s' \<Longrightarrow> rreachable L config T (s' :: ('bs, 'rs) relay)"
  by (induction ls arbitrary: s) (auto split: option.splits intro: rreachable.step)

type_synonym demo_label = "(bytes \<times> bytes, bytes, bytes, SocketAddr, SocketAddr, SocketAddr) rlabel"

text \<open>A request for an association arrives, the manager connects, and the association is entered.\<close>

definition demo_dial :: demo_label where
  "demo_dial = ManagerConnects demo_quinn (\<lambda>d p. Inr demo_addrs) (Some 1200)"

definition demo_associating :: "demo_label list" where
  "demo_associating =
     [RequestArrives (RequestAssociate 7 0 1), RequestSpawned, ManagerPollsReq, demo_dial,
      RequestLocks 0, RequestTakes 0, RequestAssociates 0, IncomingReceives]"

definition demo_associated :: "(bytes \<times> bytes, bytes) relay" where
  "demo_associated =
     \<lparr>r_conns = [(fst (Connection_new demo_config))\<lparr>cc_sessions := [(7, 1)]\<rparr>], r_slot = Some 0, r_holder = NoHolder,
      r_guard = False, r_manager = CloseRead 0, r_register = \<lparr>strong_count = 2, req_waker = False\<rparr>,
      r_accepting = True, r_requests = [(RequestAssociate 7 0 1, ReqAssociated 0)],
      r_channels = [Some (0, 1), None], r_next_tx = 1, r_incoming = Listening 0 1, r_spawned = [],
      r_max_size = 1200, r_panics = [], r_log = []\<rparr>"

lemma demo_conn:
  "fst (Connection_new demo_config) =
     \<lparr>cc_sessions = [], cc_streams = streams_new, cc_mode = Native (), cc_closed = ClosedFlag_new, cc_default_max = 1500\<rparr>"
  by (simp add: Connection_new_def demo_config_def SessionTable_new_def)

lemma demo_mode: "config_mode demo_config = Native ()"
  by (simp add: demo_config_def)

lemma demo_dials:
  "rstep mem_client demo_config demo_dial s =
     (if r_manager s = Establishing then Some (manager_establishes (fst (Connection_new demo_config)) (Some 1200) s) else None)"
  by (simp add: demo_dial_def manager_connects_def Connection_connect_def demo_config_def demo_addrs_def connect_addr_def
      demo_quinn_def split: prod.split)

lemmas rstep_defs = request_arrives_def request_spawned_def requests_end_def request_locks_def
  request_times_out_def request_takes_def request_connects_def request_associates_def
  request_packet_def request_dissociates_def request_at_def finish_request_def set_request_def cloning_def
  manager_polls_req_def manager_establishes_def manager_wakes_def manager_polls_close_def manager_locks_def
  incoming_channel_def incoming_send_def incoming_receives_def incoming_item_def incoming_ends_def
  incoming_next_def set_conn_def relay_log_def rpanic_def register_step_defs Let_def

lemma demo_associating: "rrun mem_client demo_config demo_associating relay_init = Some demo_associated"
  by (simp add: demo_associating_def demo_dials rstep_defs relay_init_def RequestRegister_new_def demo_associated_def
    update_max_udp_relay_packet_size_def demo_conn SessionTable_insert_def)

definition demo_reply_packet :: bytes where
  "demo_reply_packet = encode_Command (Packet 7 2 (SocketAddress (V4 (Ipv4Addr 10 0 0 1) 53))) @ [65, 66]"

definition demo_receiving :: "demo_label list" where
  "demo_receiving = [IncomingItem (ItemDatagram demo_reply_packet), RunSpawned 0 None (\<lambda>_. Inr ()) (Inr [])]"

lemma demo_receiving:
  "rrun mem_client demo_config demo_receiving demo_associated =
     Some (demo_associated\<lparr>r_max_size := 1500,
       r_log := [PacketDelivered 7 1 [65, 66] (RelaySocket (V4 (Ipv4Addr 10 0 0 1) 53))]\<rparr>)"
proof -
  have "parse_datagram mem_client demo_reply_packet = Ok (7, [65, 66], RelaySocket (V4 (Ipv4Addr 10 0 0 1) 53))"
    unfolding demo_reply_packet_def by (subst memc.parse_datagram_cases) simp_all
  then show ?thesis
    by (simp add: demo_receiving_def incoming_item_def demo_associated_def demo_mode run_spawned_def
      process_incoming_datagram_def process_incoming_def handle_packet_from_def deliver_def relay_log_def
      parsed_assoc_def SessionTable_get_def update_max_udp_relay_packet_size_def demo_conn)
qed

definition demo_delivered :: "(bytes \<times> bytes, bytes) relay" where
  "demo_delivered = demo_associated\<lparr>r_max_size := 1500,
     r_log := [PacketDelivered 7 1 [65, 66] (RelaySocket (V4 (Ipv4Addr 10 0 0 1) 53))]\<rparr>"

lemma demo_associated_reachable:
  "rreachable mem_client demo_config TYPE(SocketAddr \<times> SocketAddr \<times> SocketAddr) demo_associated"
  using rrun_reachable [OF rreachable.start demo_associating] .

lemma demo_delivered_reachable:
  "rreachable mem_client demo_config TYPE(SocketAddr \<times> SocketAddr \<times> SocketAddr) demo_delivered"
  unfolding demo_delivered_def using rrun_reachable [OF demo_associated_reachable demo_receiving] .

section \<open>Properties\<close>



text \<open>
  Who may look into the mutex. In every reachable state at most one request holds it, and the
  request that does finds the connection that was established last. While the manager waits for a
  request or connects, it holds the mutex itself; and the mutex is empty only then.
\<close>

lemma mutex_discipline:
  assumes "rreachable L config T s"
  shows "(holding s i \<and> holding s j \<longrightarrow> i = j) \<and>
    (holding s i \<longrightarrow> r_slot s = Some (length (r_conns s) - 1) \<and> r_conns s \<noteq> [] \<and> \<not> manager_waits (r_manager s)) \<and>
    (manager_waits (r_manager s) \<longleftrightarrow> r_holder s = ManagerHolds) \<and>
    (r_slot s = None \<longrightarrow> r_holder s = ManagerHolds)"
proof -
  have ok: "lock_ok s" using relay_okD(1) [OF rreachable_ok [OF assms]] .
  then have h: "r_holder s = RequestHolds i \<longleftrightarrow> holding s i" for i unfolding lock_ok_def by blast
  have m: "manager_waits (r_manager s) \<longleftrightarrow> r_holder s = ManagerHolds" using ok unfolding lock_ok_def by blast
  have slot: "r_slot s = (if r_conns s = [] then None else Some (length (r_conns s) - 1))"
    using ok unfolding lock_ok_def by blast
  have "r_conns s = [] \<Longrightarrow> r_holder s = ManagerHolds" using ok unfolding lock_ok_def by blast
  moreover have "holding s i \<Longrightarrow> r_holder s \<noteq> ManagerHolds" using h [of i] by auto
  ultimately show ?thesis using h [of i] h [of j] m slot by (auto split: if_splits)
qed

text \<open>
  C17: At most one connection is open. In every reachable state all connections but the last are
  marked closed, the last one too while the manager makes a new one, and the listener listens to
  no connection but the last, and only while it is open.
\<close>

theorem one_open_connection:
  assumes "rreachable L config T s"
  shows "(k < length (r_conns s) \<longrightarrow> closed_flag (cc_closed (r_conns s ! k)) \<or>
      (Suc k = length (r_conns s) \<and> \<not> manager_waits (r_manager s))) \<and>
    (r_incoming s = Listening k next_rx \<longrightarrow>
      Suc k = length (r_conns s) \<and> \<not> closed_flag (cc_closed (r_conns s ! k)))"
proof -
  have ok: "closed_ok s" and chain: "chain_ok s"
    using rreachable_closed_ok [OF assms] relay_okD(2) [OF rreachable_ok [OF assms]] by auto
  have "manager_waits m \<Longrightarrow> after_close m" for m by (cases m) auto
  with ok chain show ?thesis by (fastforce simp: closed_ok_def chain_ok_def)
qed

theorem one_open_connection_witness:
  "length (r_conns demo_associated) = 1 \<and> \<not> closed_flag (cc_closed (r_conns demo_associated ! 0))"
  using one_open_connection [OF demo_associated_reachable, of 0 1] by (simp add: demo_associated_def)

text \<open>
  C11: The session tables are exact. If all associate ids that were drawn differ, then in every
  reachable state a packet from the server for an id has a receiver on a connection exactly if an
  association with that id is being served on that connection, and the receiver is that
  association's channel.
\<close>

theorem client_sessions_exact:
  assumes "rreachable L config T s" and "unique_ids s" and "c < length (r_conns s)"
  shows "SessionTable_get a (cc_sessions (r_conns s ! c)) = Some tx \<longleftrightarrow> (\<exists>i. served s i a tx c)"
proof
  assume "SessionTable_get a (cc_sessions (r_conns s ! c)) = Some tx"
  with relay_okD(5) [OF rreachable_ok [OF assms(1)]] assms(3)
  obtain rx where "(RequestAssociate a rx tx, ReqAssociated c) \<in> set (r_requests s)" by (rule tables_okD)
  then show "\<exists>i. served s i a tx c" by (auto simp: served_def in_set_conv_nth)
next
  assume "\<exists>i. served s i a tx c"
  with rreachable_complete [OF assms(1,2)] show "SessionTable_get a (cc_sessions (r_conns s ! c)) = Some tx"
    by (auto simp: sessions_complete_def)
qed

theorem client_sessions_exact_witness:
  "\<exists>i. served demo_associated i 7 1 0"
proof -
  have "unique_ids demo_associated" and "0 < length (r_conns demo_associated)"
    by (auto simp: unique_ids_def demo_associated_def)
  then show ?thesis
    using client_sessions_exact [OF demo_associated_reachable, of 0 7 1]
    by (simp add: SessionTable_get_def demo_associated_def)
qed

text \<open>
  Packets go where they belong. Every packet that was handed to the SOCKS5 side went into the
  channel of an association that has the associate id of that packet.
\<close>

lemma deliveries_associated:
  assumes "client_env L bi_in bi_out uni_out uni_in" and "rreachable L config T s"
    and "PacketDelivered a tx pkt addr \<in> set (r_log s)"
  shows "\<exists>rx. RequestAssociate a rx tx \<in> set (map fst (r_requests s))"
  using client_env.rreachable_log_ok [OF assms(1,2)] assms(3) unfolding log_ok_def by blast

end
