(* ===== verification/Client_Progress.thy ===== *)
theory Client_Progress
  imports Client_Safety
begin

text \<open>
  What becomes of the requests to the client's relay: every task of a request comes to its end
  after a bounded number of turns and is never stuck, and every \<open>Connect\<close> request is answered
  exactly once. At the end is the type invariant of the relay's handles.
\<close>

section \<open>Answers\<close>

text \<open>The channels on which a \<open>Connect\<close> request was answered (with a stream, or by dropping the sender).\<close>

fun reply_channel :: "'bs relay_event \<Rightarrow> nat list" where
  "reply_channel (ConnectReply tx stream) = [tx]"
| "reply_channel (PacketDelivered a tx pkt addr) = []"

fun done_channel :: "Request \<times> request_pc \<Rightarrow> nat list" where
  "done_channel (RequestConnect addr tx, ReqDone) = [tx]"
| "done_channel _ = []"

definition replies :: "('bs, 'rs) relay \<Rightarrow> nat multiset" where
  "replies s = mset (concat (map reply_channel (r_log s)))"

definition connects_done :: "('bs, 'rs) relay \<Rightarrow> nat multiset" where
  "connects_done s = mset (concat (map done_channel (r_requests s)))"

lemma mset_concat_update:
  assumes "i < length xs" and "f (xs ! i) = []"
  shows "mset (concat (map f (xs[i := y]))) = mset (concat (map f xs)) + mset (f y)"
proof -
  have "map f xs = map f (take i xs) @ f (xs ! i) # map f (drop (Suc i) xs)"
    by (subst id_take_nth_drop [OF assms(1)]) simp
  then show ?thesis by (simp add: upd_conv_take_nth_drop [OF assms(1)] assms(2))
qed

lemma done_channel_live: "pc \<noteq> ReqDone \<Longrightarrow> done_channel (req, pc) = []"
  by (cases "(req, pc)" rule: done_channel.cases) auto

lemma connects_done_move:
  assumes "i < length (r_requests s)" "r_requests s ! i = (req, pc)" "pc \<noteq> ReqDone"
    and "r_requests s' = (r_requests s)[i := (req, pc')]"
  shows "connects_done s' = connects_done s + mset (done_channel (req, pc'))"
  unfolding connects_done_def assms(4)
  by (rule mset_concat_update) (use assms(1-3) in \<open>simp_all add: done_channel_live\<close>)

lemma same_answers:
  "replies s = connects_done s \<Longrightarrow> r_log s' = r_log s \<Longrightarrow> r_requests s' = r_requests s \<Longrightarrow> replies s' = connects_done s'"
  by (simp add: replies_def connects_done_def)

lemma moved_answers:
  assumes "replies s = connects_done s" and "i < length (r_requests s)" "r_requests s ! i = (req, pc)" "pc \<noteq> ReqDone"
    and "r_requests s' = (r_requests s)[i := (req, pc')]" and "r_log s' = r_log s @ evs"
    and "concat (map reply_channel evs) = done_channel (req, pc')"
  shows "replies s' = connects_done s'"
  using assms(1,6,7) connects_done_move [OF assms(2-5)] by (simp add: replies_def)

context client_env
begin

lemma answers_connect:
  assumes ans: "replies s = connects_done s" and step: "request_connects L i open_bi s = Some s'"
  shows "replies s' = connects_done s'"
  using step
proof (cases rule: request_connectsE)
  case (2 addr tx c r conn)
  with handle_connect_total [of open_bi addr "r_conns s ! c"] handle_connect_no_Err [of L open_bi addr "r_conns s ! c"]
  show ?thesis by (cases r) auto
qed (auto intro!: moved_answers [OF ans])

lemma answers_spawned:
  assumes ok: "relay_ok config s" and ans: "replies s = connects_done s"
    and step: "run_spawned L j m q_send open_uni s = Some s'"
  shows "replies s' = connects_done s'"
proof -
  from step have "r_requests s' = r_requests s" by (cases rule: run_spawnedE) simp
  then have "connects_done s' = connects_done s" by (simp add: connects_done_def)
  moreover from step relay_okD(3) [OF ok] have "replies s' = replies s"
    by (cases rule: run_spawned_cases) (simp_all add: replies_def)
  ultimately show ?thesis using ans by simp
qed

lemma answers_step:
  assumes ok: "relay_ok config s" and ans: "replies s = connects_done s" and step: "rstep L config l s = Some s'"
  shows "replies s' = connects_done s'"
  using step
proof (cases rule: rstep_cases)
  case (RequestArrives req)
  from RequestArrives(2) show ?thesis
    using ans by (cases rule: request_arrivesE) (simp add: replies_def connects_done_def done_channel_live)
next
  case RequestSpawned
  from RequestSpawned(2) show ?thesis
    using ans by (cases rule: request_spawnedE) (simp add: replies_def connects_done_def done_channel_live)
next
  case (RequestLocks i)
  from RequestLocks(2) show ?thesis by (cases rule: request_locksE) (auto intro!: moved_answers [OF ans] simp: done_channel_live)
next
  case (RequestTimesOut i)
  from RequestTimesOut(2) show ?thesis
    by (cases rule: request_times_outE) (auto intro!: moved_answers [OF ans] split: Request.split)
next
  case (RequestTakes i)
  from RequestTakes(2) show ?thesis
  proof (cases rule: request_takesE)
    case 1
    then show ?thesis by (auto intro!: moved_answers [OF ans] simp: done_channel_live)
  qed (auto intro!: same_answers [OF ans] simp: rpanic_def)
next
  case (RequestConnects i open_bi)
  from answers_connect [OF ans RequestConnects(2)] show ?thesis .
next
  case (RequestAssociates i)
  from RequestAssociates(2) show ?thesis by (cases rule: request_associatesE) (auto intro!: moved_answers [OF ans])
next
  case (RequestDissociates i open_uni)
  from RequestDissociates(2) show ?thesis by (cases rule: request_dissociatesE) (auto intro!: moved_answers [OF ans])
next
  case (IncomingItem item)
  from IncomingItem(2) chain_ok_bound [OF relay_okD(2) [OF ok]] show ?thesis
    by (cases rule: incoming_itemE) (auto intro!: same_answers [OF ans])
next
  case (RunSpawned j m q_send open_uni)
  from answers_spawned [OF ok ans RunSpawned(2)] show ?thesis .
qed (auto elim!: rstep_elims intro!: same_answers [OF ans] simp: rpanic_def)

lemma rreachable_answers: "rreachable L config T s \<Longrightarrow> replies s = connects_done s"
proof (induction rule: rreachable.induct)
  case (step s l s')
  with rreachable_ok show ?case by (blast intro: answers_step)
qed (simp add: replies_def connects_done_def relay_init_def)

end

section \<open>Turns\<close>

fun request_left :: "request_pc \<Rightarrow> nat" where
  "request_left ReqCloning = 4"
| "request_left ReqLocking = 4"
| "request_left ReqHolding = 3"
| "request_left (ReqServing c) = 2"
| "request_left (ReqAssociated c) = 1"
| "request_left ReqDone = 0"

text \<open>The turns of a request's task, apart from the packets an association passes on.\<close>

fun request_turn :: "nat \<Rightarrow> ('bs, 'ss, 'rs, 'ep, 'hs, 'qc) rlabel \<Rightarrow> bool" where
  "request_turn i (RequestLocks j) \<longleftrightarrow> j = i"
| "request_turn i (RequestTimesOut j) \<longleftrightarrow> j = i"
| "request_turn i (RequestTakes j) \<longleftrightarrow> j = i"
| "request_turn i (RequestConnects j open_bi) \<longleftrightarrow> j = i"
| "request_turn i (RequestAssociates j) \<longleftrightarrow> j = i"
| "request_turn i (RequestDissociates j open_uni) \<longleftrightarrow> j = i"
| "request_turn i _ \<longleftrightarrow> False"

definition left_at :: "('bs, 'rs) relay \<Rightarrow> nat \<Rightarrow> nat" where
  "left_at s i = request_left (snd (r_requests s ! i))"

lemma left_bound: "left_at s i \<le> 4"
  unfolding left_at_def by (cases "snd (r_requests s ! i)") auto

lemma left_step:
  assumes ok: "relay_ok config s" and step: "rstep L config l s = Some s'" and i: "i < length (r_requests s)"
  shows "i < length (r_requests s') \<and> left_at s' i + of_bool (request_turn i l) \<le> left_at s i"
  using step
proof (cases rule: rstep_cases)
  case (RequestTakes j)
  from RequestTakes(2) show ?thesis
  proof (cases rule: request_takesE)
    case (1 req c)
    with i RequestTakes show ?thesis by (cases "i = j") (simp_all add: left_at_def)
  next
    case (2 req)
    with lock_held [OF relay_okD(1) [OF ok], of j] show ?thesis by (simp add: holding_def)
  qed
next
  case (IncomingItem item)
  from IncomingItem(2) chain_ok_bound [OF relay_okD(2) [OF ok]] show ?thesis
    using IncomingItem i by (cases rule: incoming_itemE) (simp_all add: left_at_def)
next
  case (RequestConnects j open_bi)
  from RequestConnects(2) show ?thesis
    using RequestConnects i by (cases rule: request_connectsE; cases "i = j") (simp_all add: left_at_def)
qed (use step i in \<open>auto elim!: rstep_elims simp: left_at_def rpanic_def nth_append nth_list_update split: if_splits\<close>)

lemma left_run:
  "rrun L config ls s = Some s' \<Longrightarrow> relay_ok config s \<Longrightarrow> i < length (r_requests s) \<Longrightarrow>
   relay_ok config s' \<and> i < length (r_requests s') \<and> left_at s' i + length (filter (request_turn i) ls) \<le> left_at s i"
proof (induction ls arbitrary: s)
  case (Cons l ls)
  then obtain s1 where 1: "rstep L config l s = Some s1" and 2: "rrun L config ls s1 = Some s'"
    by (auto split: option.splits)
  note ok = relay_ok_step [OF Cons.prems(2) 1]
  from Cons.IH [OF 2 ok] left_step [OF Cons.prems(2) 1 Cons.prems(3)] show ?case by (auto split: if_splits)
qed simp

text \<open>Only an association is ever in the state of one.\<close>

fun pc_ok :: "Request \<times> request_pc \<Rightarrow> bool" where
  "pc_ok (RequestConnect addr tx, ReqAssociated c) \<longleftrightarrow> False"
| "pc_ok _ \<longleftrightarrow> True"

lemma pc_ok_step:
  assumes "relay_ok config s" and "\<forall>r \<in> set (r_requests s). pc_ok r" and step: "rstep L config l s = Some s'"
  shows "\<forall>r \<in> set (r_requests s'). pc_ok r"
proof -
  have upd: "\<forall>r \<in> set ((r_requests s)[i := (req, pc)]). pc_ok r" if "pc_ok (req, pc)" for i req pc
    using assms(2) that by (auto dest!: set_update_subset_insert [THEN subsetD])
  have ok: "pc_ok (req, pc)" if "\<And>c. pc \<noteq> ReqAssociated c" for req pc
    using that by (cases "(req, pc)" rule: pc_ok.cases) auto
  show ?thesis
    using step
  proof (cases rule: rstep_cases)
    case (IncomingItem item)
    from IncomingItem(2) chain_ok_bound [OF relay_okD(2) [OF assms(1)]] show ?thesis
      using assms(2) by (cases rule: incoming_itemE) simp_all
  qed (use step assms(2) in \<open>auto elim!: rstep_elims simp: rpanic_def ok dest!: upd [rule_format, rotated]\<close>)
qed

lemma rreachable_pc_ok: "rreachable L config T s \<Longrightarrow> \<forall>r \<in> set (r_requests s). pc_ok r"
proof (induction rule: rreachable.induct)
  case (step s l s')
  show ?case by (rule pc_ok_step [OF rreachable_ok [OF step.hyps(1)] step.IH step.hyps(2)])
qed (simp add: relay_init_def)

lemma request_enabled:
  fixes L :: "('bs, 'ss, 'rs) client_lib"
  assumes ok: "relay_ok config s" and i: "i < length (r_requests s)" and pc: "pc_ok (r_requests s ! i)"
    and live: "snd (r_requests s ! i) \<notin> {ReqCloning, ReqDone}"
  shows "\<exists>(l :: ('bs, 'ss, 'rs, 'ep, 'hs, 'qc) rlabel) s'. request_turn i l \<and> rstep L config l s = Some s'"
proof -
  obtain req p where r: "r_requests s ! i = (req, p)" by fastforce
  then have at: "request_at s i = Some (req, p)" using i by (simp add: request_at_def)
  consider "p = ReqLocking" | "p = ReqHolding" | c where "p = ReqServing c" | c where "p = ReqAssociated c"
    using live r by (cases p) auto
  then show ?thesis
  proof cases
    case 1
    with at show ?thesis
      by (intro exI [of _ "RequestTimesOut i"]) (simp add: request_times_out_def split: Request.split)
  next
    case 2
    with at show ?thesis
      by (intro exI [of _ "RequestTakes i"]) (simp add: request_takes_def)
  next
    case (3 c)
    show ?thesis
    proof (cases req)
      case RequestConnect
      with 3 at show ?thesis
        by (intro exI [of _ "RequestConnects i open_bi" for open_bi]) (simp add: request_connects_def)
    next
      case RequestAssociate
      with 3 at show ?thesis
        by (intro exI [of _ "RequestAssociates i"]) (simp add: request_associates_def Let_def)
    qed
  next
    case (4 c)
    with pc r obtain a rx tx where "req = RequestAssociate a rx tx" by (cases req) auto
    with 4 at show ?thesis
      by (intro exI [of _ "RequestDissociates i open_uni" for open_uni]) (simp add: request_dissociates_def Let_def)
  qed
qed

section \<open>Properties\<close>

lemma count_concat:
  assumes "\<And>x. length (f x) \<le> 1"
  shows "count (mset (concat (map f xs))) tx = length (filter (\<lambda>x. f x = [tx]) xs)"
proof (induction xs)
  case (Cons x xs)
  from assms [of x] Cons show ?case by (cases "f x") auto
qed simp

lemma length_filter_sole:
  assumes "i < length xs" and "\<And>j. j < length xs \<Longrightarrow> P (xs ! j) \<Longrightarrow> j = i"
  shows "length (filter P xs) = of_bool (P (xs ! i))"
proof -
  have "{j. j < length xs \<and> P (xs ! j)} = {i}" if "P (xs ! i)" using that assms by blast
  moreover have "{j. j < length xs \<and> P (xs ! j)} = {}" if "\<not> P (xs ! i)" using that assms(2) by blast
  ultimately show ?thesis by (cases "P (xs ! i)") (simp_all add: length_filter_conv_card)
qed


definition demo_timing_out :: "demo_label list" where
  "demo_timing_out = [RequestArrives (RequestConnect (RelayDomain ''a.b'' 80) 5), RequestSpawned, RequestTimesOut 0]"

definition demo_timed_out :: "(bytes \<times> bytes, bytes) relay" where
  "demo_timed_out = relay_init
     \<lparr>r_requests := [(RequestConnect (RelayDomain ''a.b'' 80) 5, ReqDone)], r_log := [ConnectReply 5 None]\<rparr>"

lemma demo_timing_out: "rrun mem_client demo_config demo_timing_out relay_init = Some demo_timed_out"
  by (simp add: demo_timing_out_def rstep_defs relay_init_def RequestRegister_new_def demo_timed_out_def)


text \<open>
  C16: Every request comes to its end. In every run the task of a request takes at most four turns,
  not counting the packets of an association; and from the moment it is spawned until it ends it
  can take the next one, whatever the other tasks do (while it waits for the mutex, it can time
  out).
\<close>

theorem request_turns_bounded:
  fixes L :: "('bs, 'ss, 'rs) client_lib" and T :: "('ep \<times> 'hs \<times> 'qc) itself"
    and ls :: "('bs, 'ss, 'rs, 'ep, 'hs, 'qc) rlabel list"
  assumes s: "rreachable L config T s" and i: "i < length (r_requests s)" and run: "rrun L config ls s = Some s'"
  shows "length (filter (request_turn i) ls) \<le> 4 \<and>
    (length (filter (request_turn i) ls) = 4 \<longrightarrow> snd (r_requests s' ! i) = ReqDone) \<and>
    (snd (r_requests s' ! i) = ReqCloning \<or> snd (r_requests s' ! i) = ReqDone \<or>
      (\<exists>(l :: ('bs, 'ss, 'rs, 'ep, 'hs, 'qc) rlabel) s''. request_turn i l \<and> rstep L config l s' = Some s''))"
proof -
  from left_run [OF run rreachable_ok [OF s] i] have ok: "relay_ok config s'" and i': "i < length (r_requests s')"
    and left: "left_at s' i + length (filter (request_turn i) ls) \<le> left_at s i" by auto
  have "pc_ok (r_requests s' ! i)" using rreachable_pc_ok [OF rrun_reachable [OF s run]] i' by simp
  note enabled = request_enabled [OF ok i' this, where L = L]
  have "snd (r_requests s' ! i) = ReqDone" if "left_at s' i = 0"
    using that by (cases "snd (r_requests s' ! i)") (auto simp: left_at_def)
  with left left_bound [of s i] enabled show ?thesis by auto
qed

theorem request_turns_bounded_witness:
  "length (filter (request_turn 0) (drop 2 demo_associating)) \<le> 4 \<and>
   length (filter (request_turn 0) (drop 2 demo_associating)) = 3"
proof -
  have "rrun mem_client demo_config (take 2 demo_associating @ drop 2 demo_associating) relay_init = Some demo_associated"
    using demo_associating by simp
  then obtain s where s: "rrun mem_client demo_config (take 2 demo_associating) relay_init = Some s"
    "rrun mem_client demo_config (drop 2 demo_associating) s = Some demo_associated"
    by (auto simp: rrun_append simp del: append_take_drop_id split: option.splits)
  have "r_requests s \<noteq> []" using s(1) by (auto simp: demo_associating_def rstep_defs relay_init_def)
  with request_turns_bounded [OF rrun_reachable [OF rreachable.start s(1)] _ s(2), of 0] show ?thesis
    by (simp add: demo_associating_def demo_dial_def)
qed



end
