(* ===== verification/Stream_Polls.thy ===== *)
theory Stream_Polls
  imports Server_Auth Client_Stream
begin

text \<open>
  The \<open>AsyncRead\<close> and \<open>AsyncWrite\<close> implementations of the stream wrappers: \<open>SendStream\<close>, \<open>RecvStream\<close>
  and \<open>BiStream\<close> of the client (\<open>client/src/relay/stream.rs\<close>) and \<open>BiStream\<close> of the server
  (\<open>server/src/connection/task.rs\<close>). Each poll is passed on to a stream of quinn. The property is
  that a bidirectional stream is nothing but its two halves: whatever the order of the polls, each
  half sees its own polls only, and the answers are its answers.
\<close>

section \<open>quinn's streams\<close>

text \<open>
  The polls of quinn's streams, with the waker of the task that polls. A read fills a buffer, of
  which nothing is assumed; a write returns how much was taken.
\<close>

record 'ss send_polls =
  q_poll_write :: "waker \<Rightarrow> bytes \<Rightarrow> 'ss \<Rightarrow> (io_error + usize) poll \<times> 'ss"
  q_poll_write_vectored :: "waker \<Rightarrow> bytes list \<Rightarrow> 'ss \<Rightarrow> (io_error + usize) poll \<times> 'ss"
  q_is_write_vectored :: "'ss \<Rightarrow> bool"
  q_poll_flush :: "waker \<Rightarrow> 'ss \<Rightarrow> (io_error + unit) poll \<times> 'ss"
  q_poll_shutdown :: "waker \<Rightarrow> 'ss \<Rightarrow> (io_error + unit) poll \<times> 'ss"

type_synonym ('buf, 'rs) poll_read = "waker \<Rightarrow> 'buf \<Rightarrow> 'rs \<Rightarrow> (io_error + unit) poll \<times> 'buf \<times> 'rs"

section \<open>The client's streams\<close>

text \<open>A wrapper also holds its clone of the register, which no poll looks at.\<close>

record 'ss client_send =
  cs_send :: 'ss
  cs_reg :: Register

record 'rs client_recv =
  cr_recv :: 'rs
  cr_reg :: Register

record ('ss, 'rs) client_bi =
  cb_send :: "'ss client_send"
  cb_recv :: "'rs client_recv"

definition SendStream_poll_write ::
  "'ss send_polls \<Rightarrow> waker \<Rightarrow> bytes \<Rightarrow> 'ss client_send \<Rightarrow> (io_error + usize) poll \<times> 'ss client_send" where
  "SendStream_poll_write P cx buf s =
     (case q_poll_write P cx buf (cs_send s) of (r, send) \<Rightarrow> (r, s\<lparr>cs_send := send\<rparr>))"

definition SendStream_poll_write_vectored ::
  "'ss send_polls \<Rightarrow> waker \<Rightarrow> bytes list \<Rightarrow> 'ss client_send \<Rightarrow> (io_error + usize) poll \<times> 'ss client_send" where
  "SendStream_poll_write_vectored P cx bufs s =
     (case q_poll_write_vectored P cx bufs (cs_send s) of (r, send) \<Rightarrow> (r, s\<lparr>cs_send := send\<rparr>))"

definition SendStream_is_write_vectored :: "'ss send_polls \<Rightarrow> 'ss client_send \<Rightarrow> bool" where
  "SendStream_is_write_vectored P s = q_is_write_vectored P (cs_send s)"

definition SendStream_poll_flush ::
  "'ss send_polls \<Rightarrow> waker \<Rightarrow> 'ss client_send \<Rightarrow> (io_error + unit) poll \<times> 'ss client_send" where
  "SendStream_poll_flush P cx s = (case q_poll_flush P cx (cs_send s) of (r, send) \<Rightarrow> (r, s\<lparr>cs_send := send\<rparr>))"

definition SendStream_poll_shutdown ::
  "'ss send_polls \<Rightarrow> waker \<Rightarrow> 'ss client_send \<Rightarrow> (io_error + unit) poll \<times> 'ss client_send" where
  "SendStream_poll_shutdown P cx s = (case q_poll_shutdown P cx (cs_send s) of (r, send) \<Rightarrow> (r, s\<lparr>cs_send := send\<rparr>))"

definition RecvStream_poll_read :: "('buf, 'rs) poll_read \<Rightarrow> ('buf, 'rs client_recv) poll_read" where
  "RecvStream_poll_read p cx buf s = (case p cx buf (cr_recv s) of (r, buf, recv) \<Rightarrow> (r, buf, s\<lparr>cr_recv := recv\<rparr>))"

definition BiStream_poll_read :: "('buf, 'rs) poll_read \<Rightarrow> ('buf, ('ss, 'rs) client_bi) poll_read" where
  "BiStream_poll_read p cx buf b =
     (case RecvStream_poll_read p cx buf (cb_recv b) of (r, buf, recv) \<Rightarrow> (r, buf, b\<lparr>cb_recv := recv\<rparr>))"

definition BiStream_poll_write ::
  "'ss send_polls \<Rightarrow> waker \<Rightarrow> bytes \<Rightarrow> ('ss, 'rs) client_bi \<Rightarrow> (io_error + usize) poll \<times> ('ss, 'rs) client_bi" where
  "BiStream_poll_write P cx buf b =
     (case SendStream_poll_write P cx buf (cb_send b) of (r, send) \<Rightarrow> (r, b\<lparr>cb_send := send\<rparr>))"

definition BiStream_poll_write_vectored ::
  "'ss send_polls \<Rightarrow> waker \<Rightarrow> bytes list \<Rightarrow> ('ss, 'rs) client_bi \<Rightarrow> (io_error + usize) poll \<times> ('ss, 'rs) client_bi" where
  "BiStream_poll_write_vectored P cx bufs b =
     (case SendStream_poll_write_vectored P cx bufs (cb_send b) of (r, send) \<Rightarrow> (r, b\<lparr>cb_send := send\<rparr>))"

definition BiStream_is_write_vectored :: "'ss send_polls \<Rightarrow> ('ss, 'rs) client_bi \<Rightarrow> bool" where
  "BiStream_is_write_vectored P b = SendStream_is_write_vectored P (cb_send b)"

definition BiStream_poll_flush ::
  "'ss send_polls \<Rightarrow> waker \<Rightarrow> ('ss, 'rs) client_bi \<Rightarrow> (io_error + unit) poll \<times> ('ss, 'rs) client_bi" where
  "BiStream_poll_flush P cx b = (case SendStream_poll_flush P cx (cb_send b) of (r, send) \<Rightarrow> (r, b\<lparr>cb_send := send\<rparr>))"

definition BiStream_poll_shutdown ::
  "'ss send_polls \<Rightarrow> waker \<Rightarrow> ('ss, 'rs) client_bi \<Rightarrow> (io_error + unit) poll \<times> ('ss, 'rs) client_bi" where
  "BiStream_poll_shutdown P cx b = (case SendStream_poll_shutdown P cx (cb_send b) of (r, send) \<Rightarrow> (r, b\<lparr>cb_send := send\<rparr>))"

section \<open>The server's stream\<close>

datatype ('ss, 'rs) server_bi = ServerBiStream (sb_send: 'ss) (sb_recv: 'rs)

fun server_poll_read :: "('buf, 'rs) poll_read \<Rightarrow> ('buf, ('ss, 'rs) server_bi) poll_read" where
  "server_poll_read p cx buf (ServerBiStream send recv) =
     (case p cx buf recv of (r, buf, recv) \<Rightarrow> (r, buf, ServerBiStream send recv))"

fun server_poll_write ::
  "'ss send_polls \<Rightarrow> waker \<Rightarrow> bytes \<Rightarrow> ('ss, 'rs) server_bi \<Rightarrow> (io_error + usize) poll \<times> ('ss, 'rs) server_bi" where
  "server_poll_write P cx buf (ServerBiStream send recv) =
     (case q_poll_write P cx buf send of (r, send) \<Rightarrow> (r, ServerBiStream send recv))"

fun server_poll_write_vectored ::
  "'ss send_polls \<Rightarrow> waker \<Rightarrow> bytes list \<Rightarrow> ('ss, 'rs) server_bi \<Rightarrow> (io_error + usize) poll \<times> ('ss, 'rs) server_bi" where
  "server_poll_write_vectored P cx bufs (ServerBiStream send recv) =
     (case q_poll_write_vectored P cx bufs send of (r, send) \<Rightarrow> (r, ServerBiStream send recv))"

fun server_is_write_vectored :: "'ss send_polls \<Rightarrow> ('ss, 'rs) server_bi \<Rightarrow> bool" where
  "server_is_write_vectored P (ServerBiStream send recv) = q_is_write_vectored P send"

fun server_poll_flush ::
  "'ss send_polls \<Rightarrow> waker \<Rightarrow> ('ss, 'rs) server_bi \<Rightarrow> (io_error + unit) poll \<times> ('ss, 'rs) server_bi" where
  "server_poll_flush P cx (ServerBiStream send recv) =
     (case q_poll_flush P cx send of (r, send) \<Rightarrow> (r, ServerBiStream send recv))"

fun server_poll_shutdown ::
  "'ss send_polls \<Rightarrow> waker \<Rightarrow> ('ss, 'rs) server_bi \<Rightarrow> (io_error + unit) poll \<times> ('ss, 'rs) server_bi" where
  "server_poll_shutdown P cx (ServerBiStream send recv) =
     (case q_poll_shutdown P cx send of (r, send) \<Rightarrow> (r, ServerBiStream send recv))"

section \<open>Sequences of polls\<close>

datatype write_op = PollWrite waker bytes | PollWriteVectored waker "bytes list" | IsWriteVectored | PollFlush waker | PollShutdown waker

datatype write_answer = Wrote "(io_error + usize) poll" | Vectored bool | Acked "(io_error + unit) poll"

fun quinn_write :: "'ss send_polls \<Rightarrow> write_op \<Rightarrow> 'ss \<Rightarrow> write_answer \<times> 'ss" where
  "quinn_write P (PollWrite cx buf) s = apfst Wrote (q_poll_write P cx buf s)"
| "quinn_write P (PollWriteVectored cx bufs) s = apfst Wrote (q_poll_write_vectored P cx bufs s)"
| "quinn_write P IsWriteVectored s = (Vectored (q_is_write_vectored P s), s)"
| "quinn_write P (PollFlush cx) s = apfst Acked (q_poll_flush P cx s)"
| "quinn_write P (PollShutdown cx) s = apfst Acked (q_poll_shutdown P cx s)"

fun client_write :: "'ss send_polls \<Rightarrow> write_op \<Rightarrow> ('ss, 'rs) client_bi \<Rightarrow> write_answer \<times> ('ss, 'rs) client_bi" where
  "client_write P (PollWrite cx buf) b = apfst Wrote (BiStream_poll_write P cx buf b)"
| "client_write P (PollWriteVectored cx bufs) b = apfst Wrote (BiStream_poll_write_vectored P cx bufs b)"
| "client_write P IsWriteVectored b = (Vectored (BiStream_is_write_vectored P b), b)"
| "client_write P (PollFlush cx) b = apfst Acked (BiStream_poll_flush P cx b)"
| "client_write P (PollShutdown cx) b = apfst Acked (BiStream_poll_shutdown P cx b)"

fun server_write :: "'ss send_polls \<Rightarrow> write_op \<Rightarrow> ('ss, 'rs) server_bi \<Rightarrow> write_answer \<times> ('ss, 'rs) server_bi" where
  "server_write P (PollWrite cx buf) b = apfst Wrote (server_poll_write P cx buf b)"
| "server_write P (PollWriteVectored cx bufs) b = apfst Wrote (server_poll_write_vectored P cx bufs b)"
| "server_write P IsWriteVectored b = (Vectored (server_is_write_vectored P b), b)"
| "server_write P (PollFlush cx) b = apfst Acked (server_poll_flush P cx b)"
| "server_write P (PollShutdown cx) b = apfst Acked (server_poll_shutdown P cx b)"

text \<open>
  Polls on a bidirectional stream, writes on the left and reads (with the task's waker and the
  buffer) on the right, and their answers one after the other.
\<close>

definition read_step :: "('buf, 'b) poll_read \<Rightarrow> waker \<times> 'buf \<Rightarrow> 'b \<Rightarrow> ((io_error + unit) poll \<times> 'buf) \<times> 'b" where
  "read_step rd op b = (case rd (fst op) (snd op) b of (r, buf, b) \<Rightarrow> ((r, buf), b))"

fun duplex_step ::
  "(write_op \<Rightarrow> 'b \<Rightarrow> write_answer \<times> 'b) \<Rightarrow> ('buf, 'b) poll_read \<Rightarrow> write_op + waker \<times> 'buf \<Rightarrow> 'b
   \<Rightarrow> (write_answer + (io_error + unit) poll \<times> 'buf) \<times> 'b" where
  "duplex_step wr rd (Inl op) b = apfst Inl (wr op b)"
| "duplex_step wr rd (Inr op) b = apfst Inr (read_step rd op b)"

fun poll_all :: "('op \<Rightarrow> 's \<Rightarrow> 'a \<times> 's) \<Rightarrow> 'op list \<Rightarrow> 's \<Rightarrow> 'a list \<times> 's" where
  "poll_all f [] s = ([], s)"
| "poll_all f (op # ops) s = (case f op s of (a, s) \<Rightarrow> apfst (Cons a) (poll_all f ops s))"

fun lefts :: "('a + 'b) list \<Rightarrow> 'a list" where
  "lefts [] = []"
| "lefts (Inl x # xs) = x # lefts xs"
| "lefts (Inr y # xs) = lefts xs"

fun rights :: "('a + 'b) list \<Rightarrow> 'b list" where
  "rights [] = []"
| "rights (Inl x # xs) = rights xs"
| "rights (Inr y # xs) = y # rights xs"

section \<open>A stream is its two halves\<close>

locale duplex =
  fixes P :: "'ss send_polls" and p :: "('buf, 'rs) poll_read"
    and wr :: "write_op \<Rightarrow> 'b \<Rightarrow> write_answer \<times> 'b" and rd :: "('buf, 'b) poll_read"
    and send_half :: "'b \<Rightarrow> 'ss" and recv_half :: "'b \<Rightarrow> 'rs"
  assumes write_half: "wr op b = (a, b') \<Longrightarrow> quinn_write P op (send_half b) = (a, send_half b') \<and> recv_half b' = recv_half b"
    and read_half: "rd cx buf b = (r, buf', b') \<Longrightarrow> p cx buf (recv_half b) = (r, buf', recv_half b') \<and> send_half b' = send_half b"
begin

lemma separates:
  "poll_all (duplex_step wr rd) ops b = (as, b') \<Longrightarrow>
   poll_all (quinn_write P) (lefts ops) (send_half b) = (lefts as, send_half b') \<and>
   poll_all (read_step p) (rights ops) (recv_half b) = (rights as, recv_half b') \<and> map isl as = map isl ops"
proof (induction ops arbitrary: b as)
  case (Cons op ops)
  show ?case
  proof (cases op)
    case (Inl w)
    obtain a b1 where 1: "wr w b = (a, b1)" by fastforce
    obtain as' where r: "poll_all (duplex_step wr rd) ops b1 = (as', b')" "as = Inl a # as'"
      using Cons.prems by (cases "poll_all (duplex_step wr rd) ops b1") (auto simp: Inl 1)
    from Cons.IH [OF r(1)] r(2) write_half [OF 1] show ?thesis by (simp add: Inl)
  next
    case (Inr q)
    obtain res buf b1 where 1: "rd (fst q) (snd q) b = (res, buf, b1)" using prod_cases3 by blast
    obtain as' where r: "poll_all (duplex_step wr rd) ops b1 = (as', b')" "as = Inr (res, buf) # as'"
      using Cons.prems by (cases "poll_all (duplex_step wr rd) ops b1") (auto simp: Inr 1 read_step_def)
    from Cons.IH [OF r(1)] r(2) read_half [OF 1] show ?thesis by (simp add: Inr read_step_def)
  qed
qed simp

end

lemmas client_poll_defs = BiStream_poll_write_def BiStream_poll_write_vectored_def BiStream_is_write_vectored_def
  BiStream_poll_flush_def BiStream_poll_shutdown_def BiStream_poll_read_def
  SendStream_poll_write_def SendStream_poll_write_vectored_def SendStream_is_write_vectored_def
  SendStream_poll_flush_def SendStream_poll_shutdown_def RecvStream_poll_read_def

lemma client_write_half:
  "client_write P op b = (a, b') \<Longrightarrow>
   quinn_write P op (cs_send (cb_send b)) = (a, cs_send (cb_send b')) \<and> cr_recv (cb_recv b') = cr_recv (cb_recv b)"
  by (cases op) (auto simp: client_poll_defs apfst_def map_prod_def split: prod.splits)

lemma client_read_half:
  "BiStream_poll_read p cx buf b = (r, buf', b') \<Longrightarrow>
   p cx buf (cr_recv (cb_recv b)) = (r, buf', cr_recv (cb_recv b')) \<and> cs_send (cb_send b') = cs_send (cb_send b)"
  by (auto simp: client_poll_defs split: prod.splits)

lemma server_write_half:
  "server_write P op b = (a, b') \<Longrightarrow> quinn_write P op (sb_send b) = (a, sb_send b') \<and> sb_recv b' = sb_recv b"
  by (cases b; cases op) (auto simp: apfst_def map_prod_def split: prod.splits)

lemma server_read_half:
  "server_poll_read p cx buf b = (r, buf', b') \<Longrightarrow> p cx buf (sb_recv b) = (r, buf', sb_recv b') \<and> sb_send b' = sb_send b"
  by (cases b) (auto split: prod.splits)

interpretation clientbi: duplex P p "client_write P" "BiStream_poll_read p"
  "\<lambda>b. cs_send (cb_send b)" "\<lambda>b. cr_recv (cb_recv b)" for P p
  by unfold_locales (rule client_write_half, assumption, rule client_read_half, assumption)

interpretation serverbi: duplex P p "server_write P" "server_poll_read p" sb_send sb_recv for P p
  by unfold_locales (rule server_write_half, assumption, rule server_read_half, assumption)

lemma answers_determined: "map isl as = map isl bs \<Longrightarrow> lefts as = lefts bs \<Longrightarrow> rights as = rights bs \<Longrightarrow> as = bs"
proof (induction as arbitrary: bs)
  case (Cons a as)
  then obtain b bs' where "bs = b # bs'" by (cases bs) auto
  with Cons show ?case by (cases a; cases b) auto
qed simp

section \<open>Properties\<close>


text \<open>Streams over byte lists: a write takes all, a read of a buffer takes what is there.\<close>

definition demo_polls :: "bytes send_polls" where
  "demo_polls =
     \<lparr>q_poll_write = (\<lambda>cx buf s. (Ready (Inr (length buf)), s @ buf)),
      q_poll_write_vectored = (\<lambda>cx bufs s. (Ready (Inr (length (concat bufs))), s @ concat bufs)),
      q_is_write_vectored = (\<lambda>s. True), q_poll_flush = (\<lambda>cx s. (Ready (Inr ()), s)),
      q_poll_shutdown = (\<lambda>cx s. (Ready (Inr ()), s))\<rparr>"

definition demo_poll_read :: "(bytes, bytes) poll_read" where
  "demo_poll_read cx buf s = (if s = [] then (Pending, buf, s) else (Ready (Inr ()), buf @ s, []))"


end
