(* ===== verification/Client_Config.thy ===== *)
theory Client_Config
  imports Config_Interfaces Client_Types
begin

text \<open>
  \<open>client/src/config.rs\<close> and \<open>client/src/certificate.rs\<close>: the command line and the file give a raw
  configuration, from which the client's configuration is made.
\<close>

section \<open>Raw configuration\<close>

datatype ClientCongestion = ClientCubic | ClientNewReno | ClientBbr

datatype ClientConfigError =
    ClientHelp string
  | ClientVersion string
  | ClientIo string io_error
  | ClientParseConfigJson string
  | ClientParseArgument string
  | ClientUnexpectedArguments string
  | ClientMissingOption string
  | ClientParseInt ParseIntError
  | ClientParseAddr AddrParseError
  | ClientInvalidCongestion
  | ClientInvalidUdpRelayMode
  | ClientCertificate string
  | ClientNativeCertificate io_error
  | ClientLocalAuthentication
  | ClientParseLogLevel string

definition ClientCongestion_from_str :: "string \<Rightarrow> ClientConfigError + ClientCongestion" where
  "ClientCongestion_from_str s =
     (if eq_ignore_ascii_case s ''cubic'' then Inr ClientCubic
      else if eq_ignore_ascii_case s ''new_reno'' \<or> eq_ignore_ascii_case s ''newreno'' then Inr ClientNewReno
      else if eq_ignore_ascii_case s ''bbr'' then Inr ClientBbr
      else Inl ClientInvalidCongestion)"

definition UdpRelayMode_from_str :: "string \<Rightarrow> ClientConfigError + relay_mode" where
  "UdpRelayMode_from_str s =
     (if eq_ignore_ascii_case s ''native'' then Inr (Native ())
      else if eq_ignore_ascii_case s ''quic'' then Inr (Quic ())
      else Inl ClientInvalidUdpRelayMode)"

definition client_default_certificates :: "string list" where "client_default_certificates = []"
definition client_default_udp_relay_mode :: relay_mode where "client_default_udp_relay_mode = Native ()"
definition client_default_congestion :: ClientCongestion where "client_default_congestion = ClientCubic"
definition client_default_heartbeat :: u64 where "client_default_heartbeat = 10000"
definition client_default_alpn :: "string list" where "client_default_alpn = []"
definition client_default_disable_sni :: bool where "client_default_disable_sni = False"
definition client_default_reduce_rtt :: bool where "client_default_reduce_rtt = False"
definition client_default_request_timeout :: u64 where "client_default_request_timeout = 8000"
definition client_default_max_size :: usize where "client_default_max_size = 1500"
definition client_default_local_ip :: IpAddr where "client_default_local_ip = IpV4 (Ipv4Addr 127 0 0 1)"
definition client_default_log_level :: LevelFilter where "client_default_log_level = LevelInfo"

record RawRelayConfig =
  rr_server :: "string option"
  rr_port :: "u16 option"
  rr_token :: "string option"
  rr_ip :: "IpAddr option"
  rr_certificates :: "string list"
  rr_mode :: relay_mode
  rr_congestion :: ClientCongestion
  rr_heartbeat :: u64
  rr_alpn :: "string list"
  rr_disable_sni :: bool
  rr_reduce_rtt :: bool
  rr_request_timeout :: u64
  rr_max_size :: usize

record RawLocalConfig =
  rl_port :: "u16 option"
  rl_ip :: IpAddr
  rl_username :: "string option"
  rl_password :: "string option"

record ClientRawConfig =
  rc_relay :: RawRelayConfig
  rc_local :: RawLocalConfig
  rc_log_level :: LevelFilter

definition RawRelayConfig_default :: RawRelayConfig where
  "RawRelayConfig_default =
     \<lparr>rr_server = None, rr_port = None, rr_token = None, rr_ip = None,
      rr_certificates = client_default_certificates, rr_mode = client_default_udp_relay_mode,
      rr_congestion = client_default_congestion, rr_heartbeat = client_default_heartbeat,
      rr_alpn = client_default_alpn, rr_disable_sni = client_default_disable_sni,
      rr_reduce_rtt = client_default_reduce_rtt, rr_request_timeout = client_default_request_timeout,
      rr_max_size = client_default_max_size\<rparr>"

definition RawLocalConfig_default :: RawLocalConfig where
  "RawLocalConfig_default =
     \<lparr>rl_port = None, rl_ip = client_default_local_ip, rl_username = None, rl_password = None\<rparr>"

definition ClientRawConfig_default :: ClientRawConfig where
  "ClientRawConfig_default =
     \<lparr>rc_relay = RawRelayConfig_default, rc_local = RawLocalConfig_default,
      rc_log_level = client_default_log_level\<rparr>"

section \<open>The configuration file\<close>

text \<open>
  What \<open>serde_json\<close> finds in the file: a field that is absent is \<open>None\<close>. The attributes of the
  structs say what becomes of it: a default for an absent field, and \<open>deserialize_from_str\<close> for the
  two fields that are enumerations, whose errors become errors of \<open>serde\<close>.
\<close>

record RelayJson =
  js_server :: "string option"
  js_port :: "u16 option"
  js_token :: "string option"
  js_ip :: "IpAddr option"
  js_certificates :: "string list option"
  js_mode :: "string option"
  js_congestion :: "string option"
  js_heartbeat :: "u64 option"
  js_alpn :: "string list option"
  js_disable_sni :: "bool option"
  js_reduce_rtt :: "bool option"
  js_request_timeout :: "u64 option"
  js_max_size :: "usize option"

record LocalJson =
  js_local_port :: "u16 option"
  js_local_ip :: "IpAddr option"
  js_username :: "string option"
  js_password :: "string option"

record ClientJson =
  js_relay :: RelayJson
  js_local :: LocalJson
  js_log_level :: "LevelFilter option"

definition RawRelayConfig_deserialize ::
  "(ClientConfigError \<Rightarrow> string) \<Rightarrow> RelayJson \<Rightarrow> (string, RawRelayConfig) outcome" where
  "RawRelayConfig_deserialize custom j =
     and_then (deserialize_from_str custom UdpRelayMode_from_str client_default_udp_relay_mode (js_mode j)) (\<lambda>mode.
     and_then (deserialize_from_str custom ClientCongestion_from_str client_default_congestion (js_congestion j)) (\<lambda>cc.
     Ok \<lparr>rr_server = js_server j, rr_port = js_port j, rr_token = js_token j, rr_ip = js_ip j,
         rr_certificates = field_or client_default_certificates (js_certificates j), rr_mode = mode,
         rr_congestion = cc, rr_heartbeat = field_or client_default_heartbeat (js_heartbeat j),
         rr_alpn = field_or client_default_alpn (js_alpn j),
         rr_disable_sni = field_or client_default_disable_sni (js_disable_sni j),
         rr_reduce_rtt = field_or client_default_reduce_rtt (js_reduce_rtt j),
         rr_request_timeout = field_or client_default_request_timeout (js_request_timeout j),
         rr_max_size = field_or client_default_max_size (js_max_size j)\<rparr>))"

definition RawLocalConfig_deserialize :: "LocalJson \<Rightarrow> RawLocalConfig" where
  "RawLocalConfig_deserialize j =
     \<lparr>rl_port = js_local_port j, rl_ip = field_or client_default_local_ip (js_local_ip j),
      rl_username = js_username j, rl_password = js_password j\<rparr>"

definition ClientRawConfig_deserialize ::
  "(ClientConfigError \<Rightarrow> string) \<Rightarrow> ClientJson \<Rightarrow> (string, ClientRawConfig) outcome" where
  "ClientRawConfig_deserialize custom j =
     and_then (RawRelayConfig_deserialize custom (js_relay j)) (\<lambda>relay.
     Ok \<lparr>rc_relay = relay, rc_local = RawLocalConfig_deserialize (js_local j),
         rc_log_level = field_or client_default_log_level (js_log_level j)\<rparr>)"

text \<open>
  What the client's configuration calls. \<open>client_json\<close> is \<open>serde_json\<close>'s reader, \<open>de_custom\<close> its
  rendering of a custom error, \<open>native_certs\<close> the platform's root certificates, \<open>add_root\<close> the check
  with which \<open>rustls\<close> takes a certificate into its store.
\<close>

record client_config_env =
  client_cli :: getopts
  client_open :: "string \<Rightarrow> io_error + string"
  client_json :: "string \<Rightarrow> string + ClientJson"
  de_custom :: "ClientConfigError \<Rightarrow> string"
  client_level :: "string \<Rightarrow> string + LevelFilter"
  client_fs :: files
  add_root :: "bytes \<Rightarrow> string + unit"
  native_certs :: "io_error + bytes list"
  client_blake3 :: "bytes \<Rightarrow> bytes"

definition client_from_file :: "client_config_env \<Rightarrow> string \<Rightarrow> (ClientConfigError, ClientRawConfig) outcome" where
  "client_from_file E path =
     and_then (map_err (ClientIo path) (returned (client_open E path))) (\<lambda>content.
     map_err ClientParseConfigJson
       (and_then (returned (client_json E content)) (ClientRawConfig_deserialize (de_custom E))))"

section \<open>The command line\<close>

definition client_options :: "opt_decl list" where
  "client_options =
     [(''c'', ''config'', OptOpt), ('''', ''server'', OptOpt), ('''', ''server-port'', OptOpt),
      ('''', ''token'', OptOpt), ('''', ''server-ip'', OptOpt), ('''', ''certificate'', OptOpt),
      ('''', ''udp-relay-mode'', OptOpt), ('''', ''congestion-controller'', OptOpt),
      ('''', ''heartbeat-interval'', OptOpt), ('''', ''alpn'', OptOpt), ('''', ''disable-sni'', OptFlag),
      ('''', ''reduce-rtt'', OptFlag), ('''', ''request-timeout'', OptOpt),
      ('''', ''max-udp-relay-packet-size'', OptOpt), ('''', ''local-port'', OptOpt),
      ('''', ''local-ip'', OptOpt), ('''', ''local-username'', OptOpt), ('''', ''local-password'', OptOpt),
      ('''', ''log-level'', OptOpt), (''v'', ''version'', OptFlag), (''h'', ''help'', OptFlag)]"

text \<open>\<open>Option<Result<u16, _>>::transpose()?\<close>\<close>

definition transpose_port :: "(ParseIntError + u16) option \<Rightarrow> (ClientConfigError, u16 option) outcome" where
  "transpose_port p =
     (case p of
        None \<Rightarrow> Ok None
      | Some r \<Rightarrow> map_err ClientParseInt (and_then (returned r) (\<lambda>p. Ok (Some p))))"

text \<open>The four settings that must be there, over the file or on their own.\<close>

definition client_required ::
  "client_config_env \<Rightarrow> opt_matches \<Rightarrow> (ClientConfigError, ClientRawConfig) outcome" where
  "client_required E m =
     (let server = opt_str m ''server'';
          server_port = map_option parse_u16 (opt_str m ''server-port'');
          token = opt_str m ''token'';
          local_port = map_option parse_u16 (opt_str m ''local-port'')
      in case opt_str m ''config'' of
        Some path \<Rightarrow>
          and_then (client_from_file E path) (\<lambda>raw.
          and_then (ok_or (ClientMissingOption ''server address'') (option_or server (rr_server (rc_relay raw)))) (\<lambda>server.
          and_then (transpose_port server_port) (\<lambda>server_port.
          and_then (ok_or (ClientMissingOption ''server port'') (option_or server_port (rr_port (rc_relay raw)))) (\<lambda>server_port.
          and_then (ok_or (ClientMissingOption ''token'') (option_or token (rr_token (rc_relay raw)))) (\<lambda>token.
          and_then (transpose_port local_port) (\<lambda>local_port.
          and_then (ok_or (ClientMissingOption ''local port'') (option_or local_port (rl_port (rc_local raw)))) (\<lambda>local_port.
          Ok (raw\<lparr>rc_relay := (rc_relay raw)\<lparr>rr_server := Some server, rr_port := Some server_port, rr_token := Some token\<rparr>,
              rc_local := (rc_local raw)\<lparr>rl_port := Some local_port\<rparr>\<rparr>))))))))
      | None \<Rightarrow>
          and_then (ok_or (ClientMissingOption ''server address'') server) (\<lambda>server.
          and_then (ok_or (ClientMissingOption ''server port'') server_port) (\<lambda>server_port.
          and_then (map_err ClientParseInt (returned server_port)) (\<lambda>server_port.
          and_then (ok_or (ClientMissingOption ''token'') token) (\<lambda>token.
          and_then (ok_or (ClientMissingOption ''local port'') local_port) (\<lambda>local_port.
          and_then (map_err ClientParseInt (returned local_port)) (\<lambda>local_port.
          Ok (ClientRawConfig_default
            \<lparr>rc_relay := RawRelayConfig_default\<lparr>rr_server := Some server, rr_port := Some server_port, rr_token := Some token\<rparr>,
             rc_local := RawLocalConfig_default\<lparr>rl_port := Some local_port\<rparr>\<rparr>))))))))"

definition upd_relay :: "(RawRelayConfig \<Rightarrow> RawRelayConfig) \<Rightarrow> ClientRawConfig \<Rightarrow> ClientRawConfig" where
  "upd_relay f raw = raw\<lparr>rc_relay := f (rc_relay raw)\<rparr>"

definition upd_local :: "(RawLocalConfig \<Rightarrow> RawLocalConfig) \<Rightarrow> ClientRawConfig \<Rightarrow> ClientRawConfig" where
  "upd_local f raw = raw\<lparr>rc_local := f (rc_local raw)\<rparr>"

definition client_optional ::
  "client_config_env \<Rightarrow> opt_matches \<Rightarrow> ClientRawConfig \<Rightarrow> (ClientConfigError, ClientRawConfig) outcome" where
  "client_optional E m raw =
     and_then (override m ''server-ip'' parse_IpAddr ClientParseAddr (\<lambda>v. upd_relay (\<lambda>r. r\<lparr>rr_ip := Some v\<rparr>)) raw) (\<lambda>raw.
     let certificates = opt_strs m ''certificate'';
         raw = (if certificates \<noteq> [] then upd_relay (\<lambda>r. r\<lparr>rr_certificates := certificates\<rparr>) raw else raw)
     in and_then (override m ''udp-relay-mode'' UdpRelayMode_from_str id (\<lambda>v. upd_relay (\<lambda>r. r\<lparr>rr_mode := v\<rparr>)) raw) (\<lambda>raw.
     and_then (override m ''congestion-controller'' ClientCongestion_from_str id (\<lambda>v. upd_relay (\<lambda>r. r\<lparr>rr_congestion := v\<rparr>)) raw) (\<lambda>raw.
     and_then (override m ''heartbeat-interval'' parse_u64 ClientParseInt (\<lambda>v. upd_relay (\<lambda>r. r\<lparr>rr_heartbeat := v\<rparr>)) raw) (\<lambda>raw.
     let alpn = opt_strs m ''alpn'';
         raw = (if alpn \<noteq> [] then upd_relay (\<lambda>r. r\<lparr>rr_alpn := alpn\<rparr>) raw else raw);
         raw = upd_relay (\<lambda>r. r\<lparr>rr_disable_sni := rr_disable_sni r \<or> opt_present m ''disable-sni'',
           rr_reduce_rtt := rr_reduce_rtt r \<or> opt_present m ''reduce-rtt''\<rparr>) raw
     in and_then (override m ''request-timeout'' parse_u64 ClientParseInt (\<lambda>v. upd_relay (\<lambda>r. r\<lparr>rr_request_timeout := v\<rparr>)) raw) (\<lambda>raw.
     and_then (override m ''max-udp-relay-packet-size'' parse_usize ClientParseInt (\<lambda>v. upd_relay (\<lambda>r. r\<lparr>rr_max_size := v\<rparr>)) raw) (\<lambda>raw.
     and_then (override m ''local-ip'' parse_IpAddr ClientParseAddr (\<lambda>v. upd_local (\<lambda>l. l\<lparr>rl_ip := v\<rparr>)) raw) (\<lambda>raw.
     let raw = upd_local (\<lambda>l. l\<lparr>rl_username := option_or (opt_str m ''local-username'') (rl_username l),
           rl_password := option_or (opt_str m ''local-password'') (rl_password l)\<rparr>) raw
     in override m ''log-level'' (client_level E) ClientParseLogLevel (\<lambda>v r. r\<lparr>rc_log_level := v\<rparr>) raw)))))))"

definition CLIENT_PKG_NAME :: string where "CLIENT_PKG_NAME = ''tuic-client''"
definition CLIENT_PKG_VERSION :: string where "CLIENT_PKG_VERSION = ''0.8.1''"

definition ClientRawConfig_parse ::
  "client_config_env \<Rightarrow> string list \<Rightarrow> (ClientConfigError, ClientRawConfig) outcome" where
  "ClientRawConfig_parse E args =
     and_then (map_err ClientParseArgument (returned (parse_args (client_cli E) client_options (drop 1 args)))) (\<lambda>m.
     if opt_present m ''help'' then Err (ClientHelp (usage (client_cli E) client_options CLIENT_PKG_NAME))
     else if opt_present m ''version'' then Err (ClientVersion CLIENT_PKG_VERSION)
     else if free m \<noteq> [] then Err (ClientUnexpectedArguments (join '', '' (free m)))
     else and_then (client_required E m) (client_optional E m))"

section \<open>Certificates\<close>

text \<open>The store has the certificates in the order in which they were added.\<close>

fun add_roots :: "(bytes \<Rightarrow> string + unit) \<Rightarrow> bytes list \<Rightarrow> bytes list \<Rightarrow> (ClientConfigError, bytes list) outcome" where
  "add_roots add [] certs = Ok certs"
| "add_roots add (cert # rest) certs =
     and_then (map_err ClientCertificate (returned (add cert))) (\<lambda>_. add_roots add rest (certs @ [cert]))"

fun add_pem_files :: "client_config_env \<Rightarrow> string list \<Rightarrow> bytes list \<Rightarrow> (ClientConfigError, bytes list) outcome" where
  "add_pem_files E [] certs = Ok certs"
| "add_pem_files E (path # paths) certs =
     and_then (map_err (ClientIo path) (returned (open_pem (client_fs E) path))) (\<lambda>items.
     and_then (add_roots (add_root E) (List.map_filter x509_of items) certs) (add_pem_files E paths))"

fun add_der_files :: "client_config_env \<Rightarrow> string list \<Rightarrow> bytes list \<Rightarrow> (ClientConfigError, bytes list) outcome" where
  "add_der_files E [] certs = Ok certs"
| "add_der_files E (path # paths) certs =
     and_then (map_err (ClientIo path) (returned (read_file (client_fs E) path))) (\<lambda>cert.
     and_then (add_roots (add_root E) [cert] certs) (add_der_files E paths))"

definition client_load_certificates :: "client_config_env \<Rightarrow> string list \<Rightarrow> (ClientConfigError, bytes list) outcome" where
  "client_load_certificates E paths =
     and_then (add_pem_files E paths []) (\<lambda>certs.
     and_then (if certs = [] then add_der_files E paths certs else Ok certs) (\<lambda>certs.
     and_then (map_err ClientNativeCertificate (returned (native_certs E))) (\<lambda>natives.
     add_roots (add_root E) natives certs)))"

section \<open>Configuration\<close>

text \<open>
  The TLS and transport settings that are handed to quinn; the \<open>unwrap\<close>s on the builder of \<open>rustls\<close>
  and on the \<open>Arc\<close> just made are the crates' business.
\<close>

record ClientTls =
  root_certs :: "bytes list"
  client_alpn_protocols :: "bytes list"
  enable_early_data :: bool
  enable_sni :: bool
  client_congestion :: ClientCongestion
  client_idle_timeout :: "u32 option"

datatype socks5_auth = NoAuth | Password bytes bytes

record ClientConfig =
  cl_tls :: ClientTls
  cl_server_addr :: ServerAddr
  cl_token_digest :: bytes
  cl_mode :: relay_mode
  cl_heartbeat :: u64
  cl_reduce_rtt :: bool
  cl_request_timeout :: u64
  cl_max_size :: usize
  cl_local_addr :: SocketAddr
  cl_auth :: socks5_auth
  cl_log_level :: LevelFilter

definition ClientConfig_parse :: "client_config_env \<Rightarrow> string list \<Rightarrow> (ClientConfigError, ClientConfig) outcome" where
  "ClientConfig_parse E args =
     and_then (ClientRawConfig_parse E args) (\<lambda>raw.
     let relay = rc_relay raw; local = rc_local raw in
     and_then (client_load_certificates E (rr_certificates relay)) (\<lambda>certs.
     let tls =
           \<lparr>root_certs = certs, client_alpn_protocols = map as_bytes (rr_alpn relay), enable_early_data = True,
            enable_sni = (\<not> rr_disable_sni relay), client_congestion = rr_congestion relay, client_idle_timeout = None\<rparr>
     in and_then (unwrap_option (rr_server relay)) (\<lambda>name.
     and_then (unwrap_option (rr_port relay)) (\<lambda>port.
     let server_addr =
           (case rr_ip relay of
              Some ip \<Rightarrow> ServerSocketAddr (SocketAddr_from ip port) name
            | None \<Rightarrow> ServerDomainAddr name port)
     in and_then (unwrap_option (rr_token relay)) (\<lambda>token.
     and_then (unwrap_option (rl_port local)) (\<lambda>local_port.
     and_then (case (rl_username local, rl_password local) of
                 (None, None) \<Rightarrow> Ok NoAuth
               | (Some username, Some password) \<Rightarrow> Ok (Password (as_bytes username) (as_bytes password))
               | _ \<Rightarrow> Err ClientLocalAuthentication) (\<lambda>auth.
     Ok \<lparr>cl_tls = tls, cl_server_addr = server_addr, cl_token_digest = client_blake3 E (as_bytes token),
         cl_mode = rr_mode relay, cl_heartbeat = rr_heartbeat relay, cl_reduce_rtt = rr_reduce_rtt relay,
         cl_request_timeout = rr_request_timeout relay, cl_max_size = rr_max_size relay,
         cl_local_addr = SocketAddr_from (rl_ip local) local_port, cl_auth = auth,
         cl_log_level = rc_log_level raw\<rparr>)))))))"

section \<open>Which setting wins\<close>

text \<open>Where the settings come from that the command line does not give.\<close>

definition client_base :: "client_config_env \<Rightarrow> opt_matches \<Rightarrow> ClientRawConfig \<Rightarrow> bool" where
  "client_base E m base \<longleftrightarrow>
     (case opt_str m ''config'' of
        None \<Rightarrow> base = ClientRawConfig_default
      | Some path \<Rightarrow> client_from_file E path = Ok base)"

definition port_setting :: "opt_matches \<Rightarrow> string \<Rightarrow> u16 option \<Rightarrow> u16 \<Rightarrow> bool" where
  "port_setting m name base p \<longleftrightarrow>
     (case opt_str m name of Some s \<Rightarrow> parse_u16 s = Inr p | None \<Rightarrow> base = Some p)"

lemma port_from_file:
  assumes "and_then (transpose_port (map_option parse_u16 (opt_str m name))) (\<lambda>p. ok_or e (option_or p base)) = Ok p"
  shows "port_setting m name base p"
  using assms by (auto simp: port_setting_def transpose_port_def outcome_simps split: option.splits)

definition client_required_ok :: "opt_matches \<Rightarrow> ClientRawConfig \<Rightarrow> ClientRawConfig \<Rightarrow> bool" where
  "client_required_ok m base raw \<longleftrightarrow>
     (\<exists>server port token local_port.
        raw = base\<lparr>rc_relay := (rc_relay base)\<lparr>rr_server := Some server, rr_port := Some port, rr_token := Some token\<rparr>,
          rc_local := (rc_local base)\<lparr>rl_port := Some local_port\<rparr>\<rparr> \<and>
        option_or (opt_str m ''server'') (rr_server (rc_relay base)) = Some server \<and>
        port_setting m ''server-port'' (rr_port (rc_relay base)) port \<and>
        option_or (opt_str m ''token'') (rr_token (rc_relay base)) = Some token \<and>
        port_setting m ''local-port'' (rl_port (rc_local base)) local_port)"

lemma client_required_ok:
  assumes "client_required E m = Ok raw"
  shows "\<exists>base. client_base E m base \<and> client_required_ok m base raw"
proof (cases "opt_str m ''config''")
  case None
  with assms show ?thesis
    by (intro exI [of _ ClientRawConfig_default])
      (auto simp: client_required_def client_base_def client_required_ok_def Let_def outcome_simps port_setting_def
        ClientRawConfig_default_def RawRelayConfig_default_def RawLocalConfig_default_def)
next
  case (Some path)
  with assms obtain base where base: "client_from_file E path = Ok base"
    by (auto simp: client_required_def Let_def outcome_simps)
  with assms Some obtain server sp port token lp local_port where
    raw: "raw = base\<lparr>rc_relay := (rc_relay base)\<lparr>rr_server := Some server, rr_port := Some port, rr_token := Some token\<rparr>,
          rc_local := (rc_local base)\<lparr>rl_port := Some local_port\<rparr>\<rparr>"
    and "option_or (opt_str m ''server'') (rr_server (rc_relay base)) = Some server"
      "option_or (opt_str m ''token'') (rr_token (rc_relay base)) = Some token"
    and ports: "transpose_port (map_option parse_u16 (opt_str m ''server-port'')) = Ok sp"
      "option_or sp (rr_port (rc_relay base)) = Some port"
      "transpose_port (map_option parse_u16 (opt_str m ''local-port'')) = Ok lp"
      "option_or lp (rl_port (rc_local base)) = Some local_port"
    by (auto simp: client_required_def Let_def outcome_simps)
  moreover have "port_setting m ''server-port'' (rr_port (rc_relay base)) port"
    and "port_setting m ''local-port'' (rl_port (rc_local base)) local_port"
    using ports by (auto intro!: port_from_file [where e = ClientLocalAuthentication])
  ultimately show ?thesis
    using base Some by (intro exI [of _ base]) (auto simp: client_base_def client_required_ok_def)
qed

definition strs_setting :: "opt_matches \<Rightarrow> string \<Rightarrow> string list \<Rightarrow> string list" where
  "strs_setting m name base = (if opt_strs m name \<noteq> [] then opt_strs m name else base)"

definition client_relay_ok :: "opt_matches \<Rightarrow> RawRelayConfig \<Rightarrow> RawRelayConfig \<Rightarrow> bool" where
  "client_relay_ok m r r' \<longleftrightarrow>
     rr_server r' = rr_server r \<and> rr_port r' = rr_port r \<and> rr_token r' = rr_token r \<and>
     setting m ''server-ip'' (\<lambda>s. map_sum id Some (parse_IpAddr s)) (rr_ip r) (rr_ip r') \<and>
     rr_certificates r' = strs_setting m ''certificate'' (rr_certificates r) \<and>
     setting m ''udp-relay-mode'' UdpRelayMode_from_str (rr_mode r) (rr_mode r') \<and>
     setting m ''congestion-controller'' ClientCongestion_from_str (rr_congestion r) (rr_congestion r') \<and>
     setting m ''heartbeat-interval'' parse_u64 (rr_heartbeat r) (rr_heartbeat r') \<and>
     rr_alpn r' = strs_setting m ''alpn'' (rr_alpn r) \<and>
     rr_disable_sni r' = (rr_disable_sni r \<or> opt_present m ''disable-sni'') \<and>
     rr_reduce_rtt r' = (rr_reduce_rtt r \<or> opt_present m ''reduce-rtt'') \<and>
     setting m ''request-timeout'' parse_u64 (rr_request_timeout r) (rr_request_timeout r') \<and>
     setting m ''max-udp-relay-packet-size'' parse_usize (rr_max_size r) (rr_max_size r')"

definition client_local_ok :: "opt_matches \<Rightarrow> RawLocalConfig \<Rightarrow> RawLocalConfig \<Rightarrow> bool" where
  "client_local_ok m l l' \<longleftrightarrow>
     rl_port l' = rl_port l \<and> setting m ''local-ip'' parse_IpAddr (rl_ip l) (rl_ip l') \<and>
     rl_username l' = option_or (opt_str m ''local-username'') (rl_username l) \<and>
     rl_password l' = option_or (opt_str m ''local-password'') (rl_password l)"

lemma override_ip:
  assumes "override m name parse_IpAddr err (\<lambda>v. upd_relay (\<lambda>r. r\<lparr>rr_ip := Some v\<rparr>)) raw = Ok raw'"
  shows "\<exists>v. raw' = upd_relay (\<lambda>r. r\<lparr>rr_ip := v\<rparr>) raw \<and>
    setting m name (\<lambda>s. map_sum id Some (parse_IpAddr s)) (rr_ip (rc_relay raw)) v"
  using assms by (auto simp: override_Ok setting_def upd_relay_def split: option.splits)

text \<open>The settings that may be overridden, one after the other.\<close>

lemma client_optional_steps:
  assumes "client_optional E m raw = Ok raw'"
  obtains r1 r2 r3 r4 r5 r6 r7 where
    "override m ''server-ip'' parse_IpAddr ClientParseAddr (\<lambda>v. upd_relay (\<lambda>r. r\<lparr>rr_ip := Some v\<rparr>)) raw = Ok r1"
    "override m ''udp-relay-mode'' UdpRelayMode_from_str id (\<lambda>v. upd_relay (\<lambda>r. r\<lparr>rr_mode := v\<rparr>))
      (upd_relay (\<lambda>r. r\<lparr>rr_certificates := strs_setting m ''certificate'' (rr_certificates r)\<rparr>) r1) = Ok r2"
    "override m ''congestion-controller'' ClientCongestion_from_str id (\<lambda>v. upd_relay (\<lambda>r. r\<lparr>rr_congestion := v\<rparr>)) r2 = Ok r3"
    "override m ''heartbeat-interval'' parse_u64 ClientParseInt (\<lambda>v. upd_relay (\<lambda>r. r\<lparr>rr_heartbeat := v\<rparr>)) r3 = Ok r4"
    "override m ''request-timeout'' parse_u64 ClientParseInt (\<lambda>v. upd_relay (\<lambda>r. r\<lparr>rr_request_timeout := v\<rparr>))
      (upd_relay (\<lambda>r. r\<lparr>rr_disable_sni := rr_disable_sni r \<or> opt_present m ''disable-sni'',
          rr_reduce_rtt := rr_reduce_rtt r \<or> opt_present m ''reduce-rtt''\<rparr>)
        (upd_relay (\<lambda>r. r\<lparr>rr_alpn := strs_setting m ''alpn'' (rr_alpn r)\<rparr>) r4)) = Ok r5"
    "override m ''max-udp-relay-packet-size'' parse_usize ClientParseInt (\<lambda>v. upd_relay (\<lambda>r. r\<lparr>rr_max_size := v\<rparr>)) r5 = Ok r6"
    "override m ''local-ip'' parse_IpAddr ClientParseAddr (\<lambda>v. upd_local (\<lambda>l. l\<lparr>rl_ip := v\<rparr>)) r6 = Ok r7"
    "override m ''log-level'' (client_level E) ClientParseLogLevel (\<lambda>v r. r\<lparr>rc_log_level := v\<rparr>)
      (upd_local (\<lambda>l. l\<lparr>rl_username := option_or (opt_str m ''local-username'') (rl_username l),
          rl_password := option_or (opt_str m ''local-password'') (rl_password l)\<rparr>) r7) = Ok raw'"
proof -
  have certs: "(if opt_strs m ''certificate'' \<noteq> [] then upd_relay (\<lambda>r. r\<lparr>rr_certificates := opt_strs m ''certificate''\<rparr>) x else x) =
      upd_relay (\<lambda>r. r\<lparr>rr_certificates := strs_setting m ''certificate'' (rr_certificates r)\<rparr>) x"
    and alpn: "(if opt_strs m ''alpn'' \<noteq> [] then upd_relay (\<lambda>r. r\<lparr>rr_alpn := opt_strs m ''alpn''\<rparr>) x else x) =
      upd_relay (\<lambda>r. r\<lparr>rr_alpn := strs_setting m ''alpn'' (rr_alpn r)\<rparr>) x" for x
    by (simp_all add: strs_setting_def upd_relay_def)
  from assms that show thesis unfolding client_optional_def Let_def and_then_eq_Ok certs alpn by blast
qed

lemma client_optional_ok:
  assumes "client_optional E m raw = Ok raw'"
  shows "client_relay_ok m (rc_relay raw) (rc_relay raw') \<and> client_local_ok m (rc_local raw) (rc_local raw') \<and>
    setting m ''log-level'' (client_level E) (rc_log_level raw) (rc_log_level raw')"
  using assms
proof (cases rule: client_optional_steps)
  case (1 r1 r2 r3 r4 r5 r6 r7)
  note o = 1
  let ?flags = "upd_relay (\<lambda>r. r\<lparr>rr_disable_sni := rr_disable_sni r \<or> opt_present m ''disable-sni'',
           rr_reduce_rtt := rr_reduce_rtt r \<or> opt_present m ''reduce-rtt''\<rparr>)"
  let ?auth = "upd_local (\<lambda>l. l\<lparr>rl_username := option_or (opt_str m ''local-username'') (rl_username l),
           rl_password := option_or (opt_str m ''local-password'') (rl_password l)\<rparr>)"
  note upd = upd_relay_def upd_local_def
  from override_ip [OF o(1)] obtain v1 where 1: "r1 = upd_relay (\<lambda>r. r\<lparr>rr_ip := v1\<rparr>) raw"
    "setting m ''server-ip'' (\<lambda>s. map_sum id Some (parse_IpAddr s)) (rr_ip (rc_relay raw)) v1" by blast
  from override_setting [OF o(2), of "rr_mode (rc_relay raw)"] 1(1) obtain v2 where
    2: "r2 = upd_relay (\<lambda>r. r\<lparr>rr_certificates := strs_setting m ''certificate'' (rr_certificates r), rr_mode := v2\<rparr>) r1"
    "setting m ''udp-relay-mode'' UdpRelayMode_from_str (rr_mode (rc_relay raw)) v2" by (auto simp: upd)
  from override_setting [OF o(3), of "rr_congestion (rc_relay raw)"] 1(1) 2(1) obtain v3 where
    3: "r3 = upd_relay (\<lambda>r. r\<lparr>rr_congestion := v3\<rparr>) r2"
    "setting m ''congestion-controller'' ClientCongestion_from_str (rr_congestion (rc_relay raw)) v3" by (auto simp: upd)
  from override_setting [OF o(4), of "rr_heartbeat (rc_relay raw)"] 1(1) 2(1) 3(1) obtain v4 where
    4: "r4 = upd_relay (\<lambda>r. r\<lparr>rr_heartbeat := v4\<rparr>) r3"
    "setting m ''heartbeat-interval'' parse_u64 (rr_heartbeat (rc_relay raw)) v4" by (auto simp: upd)
  from override_setting [OF o(5), of "rr_request_timeout (rc_relay raw)"] 1(1) 2(1) 3(1) 4(1) obtain v5 where
    5: "r5 = upd_relay (\<lambda>r. r\<lparr>rr_request_timeout := v5\<rparr>) (?flags (upd_relay (\<lambda>r. r\<lparr>rr_alpn := strs_setting m ''alpn'' (rr_alpn r)\<rparr>) r4))"
    "setting m ''request-timeout'' parse_u64 (rr_request_timeout (rc_relay raw)) v5" by (auto simp: upd)
  from override_setting [OF o(6), of "rr_max_size (rc_relay raw)"] 1(1) 2(1) 3(1) 4(1) 5(1) obtain v6 where
    6: "r6 = upd_relay (\<lambda>r. r\<lparr>rr_max_size := v6\<rparr>) r5"
    "setting m ''max-udp-relay-packet-size'' parse_usize (rr_max_size (rc_relay raw)) v6" by (auto simp: upd)
  note relay = 1(1) 2(1) 3(1) 4(1) 5(1) 6(1)
  from override_setting [OF o(7), of "rl_ip (rc_local raw)"] relay obtain v7 where
    7: "r7 = upd_local (\<lambda>l. l\<lparr>rl_ip := v7\<rparr>) r6" "setting m ''local-ip'' parse_IpAddr (rl_ip (rc_local raw)) v7"
    by (auto simp: upd)
  from override_setting [OF o(8), of "rc_log_level raw"] relay 7(1) obtain v8 where
    8: "raw' = (?auth r7)\<lparr>rc_log_level := v8\<rparr>" "setting m ''log-level'' (client_level E) (rc_log_level raw) v8"
    by (auto simp: upd)
  show ?thesis
    unfolding client_relay_ok_def client_local_ok_def
    using 1(2) 2(2) 3(2) 4(2) 5(2) 6(2) 7(2) 8(2) by (simp add: relay 7(1) 8(1) upd)
qed

lemma client_required_total: "client_required E m \<noteq> Panic"
  by (auto simp: client_required_def client_from_file_def transpose_port_def ClientRawConfig_deserialize_def
      RawRelayConfig_deserialize_def deserialize_from_str_def Let_def outcome_simps split: option.splits)

lemma client_optional_total: "client_optional E m raw \<noteq> Panic"
  by (auto simp: client_optional_def override_total Let_def outcome_simps)

lemma ClientRawConfig_parse_total: "ClientRawConfig_parse E args \<noteq> Panic"
  by (auto simp: ClientRawConfig_parse_def outcome_simps client_required_total client_optional_total)

lemma ClientRawConfig_parse_Ok:
  assumes "ClientRawConfig_parse E args = Ok raw"
  shows "\<exists>m base mid. parse_args (client_cli E) client_options (drop 1 args) = Inr m \<and> client_base E m base \<and>
    client_required_ok m base mid \<and> client_relay_ok m (rc_relay mid) (rc_relay raw) \<and>
    client_local_ok m (rc_local mid) (rc_local raw) \<and>
    setting m ''log-level'' (client_level E) (rc_log_level mid) (rc_log_level raw)"
  using assms client_required_ok client_optional_ok
  by (fastforce simp: ClientRawConfig_parse_def outcome_simps split: if_splits)

lemma ClientRawConfig_parse_complete:
  assumes "ClientRawConfig_parse E args = Ok raw"
  shows "rr_server (rc_relay raw) \<noteq> None \<and> rr_port (rc_relay raw) \<noteq> None \<and> rr_token (rc_relay raw) \<noteq> None \<and>
    rl_port (rc_local raw) \<noteq> None"
  using ClientRawConfig_parse_Ok [OF assms]
  by (auto simp: client_required_ok_def client_relay_ok_def client_local_ok_def)

lemma add_roots_total: "add_roots add certs store \<noteq> Panic"
  by (induction add certs store rule: add_roots.induct) (auto simp: outcome_simps)

lemma add_files_total: "add_pem_files E paths certs \<noteq> Panic" "add_der_files E paths certs \<noteq> Panic"
  by (induction paths arbitrary: certs) (auto simp: outcome_simps add_roots_total simp del: add_roots.simps)

lemma client_load_total: "client_load_certificates E paths \<noteq> Panic"
  by (auto simp: client_load_certificates_def outcome_simps add_roots_total add_files_total split: if_splits)

section \<open>A command line\<close>

definition demo_client_env :: client_config_env where
  "demo_client_env =
     \<lparr>client_cli = long_getopts, client_open = \<lambda>path. Inl (IoError NotFound path),
      client_json = \<lambda>content. Inl ''no json'', de_custom = \<lambda>e. ''custom'', client_level = \<lambda>s. Inl s,
      client_fs = \<lparr>open_pem = \<lambda>path. Inr [], read_file = \<lambda>path. Inr []\<rparr>,
      add_root = \<lambda>cert. Inr (), native_certs = Inr [[1, 2]], client_blake3 = \<lambda>bs. take 32 (bs @ replicate 32 0)\<rparr>"

definition demo_client_args :: "string list" where
  "demo_client_args =
     [''tuic-client'', ''--server'', ''relay.example'', ''--server-port'', ''443'', ''--token'', ''secret'',
      ''--local-port'', ''443'', ''--local-username'', ''user'']"

definition demo_client_matches :: opt_matches where
  "demo_client_matches = matches_of [(''server'', Some ''relay.example''), (''server-port'', Some ''443''),
     (''token'', Some ''secret''), (''local-port'', Some ''443''), (''local-username'', Some ''user'')] []"

definition demo_client_raw :: ClientRawConfig where
  "demo_client_raw = ClientRawConfig_default
     \<lparr>rc_relay := RawRelayConfig_default\<lparr>rr_server := Some ''relay.example'', rr_port := Some 443, rr_token := Some ''secret''\<rparr>,
      rc_local := RawLocalConfig_default\<lparr>rl_port := Some 443, rl_username := Some ''user''\<rparr>\<rparr>"

lemma demo_client_matches:
  "parse_args (client_cli demo_client_env) client_options (drop 1 demo_client_args) = Inr demo_client_matches"
  by (simp add: demo_client_env_def long_getopts_def long_parse_def demo_client_args_def
      client_options_def demo_client_matches_def)

lemma parse_port_443: "parse_u16 ''443'' = Inr 443"
  by (simp add: parse_u16_def parse_uint_def to_digit_def)

lemma demo_client_parse: "ClientRawConfig_parse demo_client_env demo_client_args = Ok demo_client_raw"
  unfolding ClientRawConfig_parse_def demo_client_matches
  by (simp add: demo_client_matches_def matches_of_def values_of_def client_required_def client_optional_def
      override_def parse_port_443 demo_client_raw_def upd_relay_def upd_local_def RawRelayConfig_default_def
      RawLocalConfig_default_def ClientRawConfig_default_def client_default_disable_sni_def client_default_reduce_rtt_def)

lemma demo_client_certs: "client_load_certificates demo_client_env [] = Ok [[1, 2]]"
  by (simp add: client_load_certificates_def demo_client_env_def)

section \<open>Properties\<close>

text \<open>
  Starting the client does not panic on its configuration. Whatever the command line and the
  file hold, \<open>Config::parse\<close> returns a configuration or an error: the \<open>unwrap\<close>s of server, port, token
  and local port come after \<open>RawConfig::parse\<close> made sure they are there.
\<close>

lemma client_Config_parse_total: "ClientConfig_parse E args \<noteq> Panic"
proof
  assume p: "ClientConfig_parse E args = Panic"
  then obtain raw where raw: "ClientRawConfig_parse E args = Ok raw"
    using ClientRawConfig_parse_total [of E args] by (auto simp: ClientConfig_parse_def outcome_simps)
  from ClientRawConfig_parse_complete [OF raw] p raw show False
    by (auto simp: ClientConfig_parse_def outcome_simps client_load_total Let_def split: option.splits)
qed

text \<open>
  C38: Command line over file over default, for every setting of the client: a setting given on the
  command line is used (and was parsed), any other comes from the file, and from the defaults where
  there is no file; the two flags are set if either says so; and server, port, token and local
  port are there.
\<close>

theorem client_settings_precedence:
  assumes "ClientRawConfig_parse E args = Ok raw"
  shows "\<exists>m base port local_port. parse_args (client_cli E) client_options (drop 1 args) = Inr m \<and> client_base E m base \<and>
    rr_server (rc_relay raw) = option_or (opt_str m ''server'') (rr_server (rc_relay base)) \<and>
    rr_server (rc_relay raw) \<noteq> None \<and>
    rr_token (rc_relay raw) = option_or (opt_str m ''token'') (rr_token (rc_relay base)) \<and>
    rr_token (rc_relay raw) \<noteq> None \<and>
    rr_port (rc_relay raw) = Some port \<and> port_setting m ''server-port'' (rr_port (rc_relay base)) port \<and>
    rl_port (rc_local raw) = Some local_port \<and> port_setting m ''local-port'' (rl_port (rc_local base)) local_port \<and>
    client_relay_ok m ((rc_relay base)\<lparr>rr_server := rr_server (rc_relay raw), rr_port := rr_port (rc_relay raw),
      rr_token := rr_token (rc_relay raw)\<rparr>) (rc_relay raw) \<and>
    client_local_ok m ((rc_local base)\<lparr>rl_port := rl_port (rc_local raw)\<rparr>) (rc_local raw) \<and>
    setting m ''log-level'' (client_level E) (rc_log_level base) (rc_log_level raw)"
proof -
  obtain m base mid where m: "parse_args (client_cli E) client_options (drop 1 args) = Inr m" "client_base E m base"
    and mid: "client_required_ok m base mid" and ok: "client_relay_ok m (rc_relay mid) (rc_relay raw)"
      "client_local_ok m (rc_local mid) (rc_local raw)"
      "setting m ''log-level'' (client_level E) (rc_log_level mid) (rc_log_level raw)"
    using ClientRawConfig_parse_Ok [OF assms] by blast
  from mid obtain server port token local_port where
    mid_eq: "mid = base\<lparr>rc_relay := (rc_relay base)\<lparr>rr_server := Some server, rr_port := Some port, rr_token := Some token\<rparr>,
      rc_local := (rc_local base)\<lparr>rl_port := Some local_port\<rparr>\<rparr>"
    and req: "option_or (opt_str m ''server'') (rr_server (rc_relay base)) = Some server"
      "port_setting m ''server-port'' (rr_port (rc_relay base)) port"
      "option_or (opt_str m ''token'') (rr_token (rc_relay base)) = Some token"
      "port_setting m ''local-port'' (rl_port (rc_local base)) local_port"
    by (auto simp: client_required_ok_def)
  have same: "rr_server (rc_relay raw) = Some server" "rr_port (rc_relay raw) = Some port"
    "rr_token (rc_relay raw) = Some token" "rl_port (rc_local raw) = Some local_port"
    using ok(1,2) by (simp_all add: client_relay_ok_def client_local_ok_def mid_eq)
  show ?thesis
    by (rule exI [of _ m], rule exI [of _ base], rule exI [of _ port], rule exI [of _ local_port])
      (use m req ok in \<open>simp add: same mid_eq\<close>)
qed

theorem client_settings_precedence_witness:
  "rr_server (rc_relay demo_client_raw) \<noteq> None \<and> rr_token (rc_relay demo_client_raw) \<noteq> None"
  using client_settings_precedence [OF demo_client_parse] by blast

text \<open>
  User name and password go together. A configuration is accepted only if both or neither of
  them are set, and then the SOCKS5 server asks for exactly these, or for none; with one of them
  alone, and everything else in order, the program stops with \<open>LocalAuthentication\<close>.
\<close>

lemma local_authentication_paired:
  assumes raw: "ClientRawConfig_parse E args = Ok raw"
    and certs: "client_load_certificates E (rr_certificates (rc_relay raw)) = Ok certs"
  shows "((rl_username (rc_local raw) = None) \<noteq> (rl_password (rc_local raw) = None) \<longrightarrow>
      ClientConfig_parse E args = Err ClientLocalAuthentication) \<and>
    ((rl_username (rc_local raw) = None) = (rl_password (rc_local raw) = None) \<longrightarrow>
      (\<exists>cfg. ClientConfig_parse E args = Ok cfg \<and>
        cl_auth cfg = (case (rl_username (rc_local raw), rl_password (rc_local raw)) of
          (Some u, Some p) \<Rightarrow> Password (as_bytes u) (as_bytes p) | _ \<Rightarrow> NoAuth)))"
proof -
  obtain server port token local_port where "rr_server (rc_relay raw) = Some server" "rr_port (rc_relay raw) = Some port"
    "rr_token (rc_relay raw) = Some token" "rl_port (rc_local raw) = Some local_port"
    using ClientRawConfig_parse_complete [OF raw] by auto
  with raw certs show ?thesis
    by (cases "rl_username (rc_local raw)"; cases "rl_password (rc_local raw)")
      (simp_all add: ClientConfig_parse_def Let_def)
qed

lemma local_authentication_paired_witness:
  "ClientConfig_parse demo_client_env demo_client_args = Err ClientLocalAuthentication"
proof -
  have "rr_certificates (rc_relay demo_client_raw) = []" and "rl_username (rc_local demo_client_raw) = Some ''user''"
    and "rl_password (rc_local demo_client_raw) = None"
    by (simp_all add: demo_client_raw_def RawRelayConfig_default_def RawLocalConfig_default_def client_default_certificates_def)
  with local_authentication_paired [OF demo_client_parse] demo_client_certs show ?thesis by simp
qed

end
