(* ===== verification/Client_Socks5.thy ===== *)
theory Client_Socks5
  imports Client_Task Client_Request
begin

text \<open>
  The local SOCKS5 server, \<open>client/src/socks5/\<close>: how a connection of a local program becomes a
  request to the relay. The SOCKS5 protocol itself is in the crates \<open>socks5_proto\<close> and
  \<open>socks5_server\<close>; what their operations return is in the environment.
\<close>

section \<open>Effects\<close>

datatype Reply = Succeeded | GeneralFailure | NetworkUnreachable | CommandNotSupported

datatype 'sock socks5_event =
  SentRequest Request
| Replied Reply Socks5Address
| CopiedBidirectional
| AssociatedSocket 'sock usize
| ShutDown

text \<open>
  A handler gives its result together with what it did before: \<open>socks5_then\<close> is the sequence of two
  steps with the \<open>?\<close> operator between them.
\<close>

type_synonym ('sock, 'a) socks5_io = "(io_error, 'a) outcome \<times> 'sock socks5_event list"

definition socks5_then :: "('sock, 'a) socks5_io \<Rightarrow> ('a \<Rightarrow> ('sock, 'b) socks5_io) \<Rightarrow> ('sock, 'b) socks5_io" where
  "socks5_then m f =
     (case fst m of
        Ok a \<Rightarrow> (fst (f a), snd m @ snd (f a))
      | Err e \<Rightarrow> (Err e, snd m)
      | Panic \<Rightarrow> (Panic, snd m))"

definition emit :: "'sock socks5_event \<Rightarrow> ('sock, unit) socks5_io" where
  "emit e = (Ok (), [e])"

definition lift_io :: "(io_error, 'a) outcome \<Rightarrow> ('sock, 'a) socks5_io" where
  "lift_io r = (r, [])"

text \<open>
  The environment of one SOCKS5 connection. \<open>peer_addr\<close> gives the answer to the n-th question;
  \<open>log_info\<close> tells whether \<open>log::info!\<close> is enabled, and so evaluates its arguments.
\<close>

record 'sock socks5_env =
  log_info :: bool
  peer_addr :: "nat \<Rightarrow> io_error + SocketAddr"
  conn_local_addr :: "io_error + SocketAddr"
  unspecified :: Socks5Address
  reply_result :: "Reply \<Rightarrow> Socks5Address \<Rightarrow> io_error + unit"
  udp_bind :: "SocketAddr \<Rightarrow> io_error + 'sock"
  udp_local_addr :: "'sock \<Rightarrow> io_error + SocketAddr"
  udp_header_max_len :: usize
  overflow_checks :: bool

definition log_peer :: "'sock socks5_env \<Rightarrow> nat \<Rightarrow> ('sock, unit) socks5_io" where
  "log_peer E n = lift_io (if log_info E then and_then (returned (peer_addr E n)) (\<lambda>_. Ok ()) else Ok ())"

definition reply :: "'sock socks5_env \<Rightarrow> Reply \<Rightarrow> Socks5Address \<Rightarrow> ('sock, unit) socks5_io" where
  "reply E r addr = (returned (reply_result E r addr), [Replied r addr])"

text \<open>The \<open>match\<close> on the address that the three handlers share, and its inverse.\<close>

fun relay_address :: "Socks5Address \<Rightarrow> RelayAddress" where
  "relay_address (Socks5Domain domain port) = RelayDomain domain port"
| "relay_address (Socks5Socket addr) = RelaySocket addr"

fun socks5_address :: "RelayAddress \<Rightarrow> Socks5Address" where
  "socks5_address (RelayDomain domain port) = Socks5Domain domain port"
| "socks5_address (RelaySocket addr) = Socks5Socket addr"

section \<open>Connect and bind\<close>

text \<open>
  \<open>connect::handle\<close>: \<open>ch\<close> is the new oneshot channel, \<open>response\<close> what comes out of it, \<open>copy\<close> the
  result of \<open>copy_bidirectional\<close>.
\<close>

definition connect_handle ::
  "'sock socks5_env \<Rightarrow> nat \<Rightarrow> Socks5Address \<Rightarrow> 'bs option \<Rightarrow> io_error + unit \<Rightarrow> ('sock, unit) socks5_io" where
  "connect_handle E ch target_addr response copy =
     socks5_then (log_peer E 0) (\<lambda>_.
     let relay_req = fst (Request_new_connect (relay_address target_addr) ch) in
     socks5_then (emit (SentRequest relay_req)) (\<lambda>_.
     case response of
       Some relay \<Rightarrow>
         socks5_then (reply E Succeeded (unspecified E)) (\<lambda>_.
         socks5_then (emit CopiedBidirectional) (\<lambda>_.
         lift_io (returned copy)))
     | None \<Rightarrow>
         socks5_then (reply E NetworkUnreachable (unspecified E)) (\<lambda>_.
         emit ShutDown)))"

definition bind_handle :: "'sock socks5_env \<Rightarrow> ('sock, unit) socks5_io" where
  "bind_handle E =
     socks5_then (log_peer E 0) (\<lambda>_.
     socks5_then (reply E CommandNotSupported (unspecified E)) (\<lambda>_.
     socks5_then (emit ShutDown) (\<lambda>_.
     lift_io (Err (IoError Unsupported ''BIND command is not supported'')))))"

section \<open>Associate\<close>

fun SocketAddr_ip :: "SocketAddr \<Rightarrow> IpAddr" where
  "SocketAddr_ip (V4 ip _) = IpV4 ip"
| "SocketAddr_ip (V6 ip _ _ _) = IpV6 ip"

definition bind_udp_socket :: "'sock socks5_env \<Rightarrow> (io_error, 'sock) outcome" where
  "bind_udp_socket E =
     and_then (returned (conn_local_addr E)) (\<lambda>addr.
     returned (udp_bind E (SocketAddr_from (SocketAddr_ip addr) 0)))"

text \<open>The size of the receive buffer, from the current value of \<open>MAX_UDP_RELAY_PACKET_SIZE\<close>.\<close>

definition buf_size :: "'sock socks5_env \<Rightarrow> usize \<Rightarrow> (io_error, usize) outcome" where
  "buf_size E max_size =
     and_then (usize_sub (overflow_checks E) Command_max_serialized_len (udp_header_max_len E)) (\<lambda>extra.
     usize_sub (overflow_checks E) max_size extra)"

text \<open>
  One round of a receive loop: the value of the global size at its beginning, what the socket
  received (payload, fragment number, destination, source), and the result of connecting the
  socket to the source, which only the first loop does.
\<close>

record udp_round =
  round_max :: usize
  round_recv :: "io_error + bytes \<times> u8 \<times> Socks5Address \<times> SocketAddr"
  round_connect :: "io_error + unit"

text \<open>
  \<open>socks5_to_relay\<close> on the rounds so far: the packets passed to the relay, and the result, if it has
  returned. The first loop ends with the first packet that is not a fragment.
\<close>

fun to_relay_connected ::
  "'sock socks5_env \<Rightarrow> udp_round list \<Rightarrow> (bytes \<times> RelayAddress) list \<times> (io_error, unit) outcome option" where
  "to_relay_connected E [] = ([], None)"
| "to_relay_connected E (r # rs) =
     (case and_then (buf_size E (round_max r)) (\<lambda>_. returned (round_recv r)) of
        Err e \<Rightarrow> ([], Some (Err e))
      | Panic \<Rightarrow> ([], Some Panic)
      | Ok (pkt, frag, dst_addr, _) \<Rightarrow>
          if frag = 0 then apfst (Cons (pkt, relay_address dst_addr)) (to_relay_connected E rs)
          else to_relay_connected E rs)"

fun socks5_to_relay ::
  "'sock socks5_env \<Rightarrow> udp_round list \<Rightarrow> (bytes \<times> RelayAddress) list \<times> (io_error, unit) outcome option" where
  "socks5_to_relay E [] = ([], None)"
| "socks5_to_relay E (r # rs) =
     (case and_then (buf_size E (round_max r)) (\<lambda>_. returned (round_recv r)) of
        Err e \<Rightarrow> ([], Some (Err e))
      | Panic \<Rightarrow> ([], Some Panic)
      | Ok (pkt, frag, dst_addr, src_addr) \<Rightarrow>
          if frag = 0 then
            apfst (Cons (pkt, relay_address dst_addr))
              (case round_connect r of
                 Inl e \<Rightarrow> ([], Some (Err e))
               | Inr _ \<Rightarrow> to_relay_connected E rs)
          else socks5_to_relay E rs)"

text \<open>
  \<open>relay_to_socks5\<close> on the packets that came from the relay, each with the result of sending it;
  \<open>closed\<close> tells that the channel has ended. The result has what was sent: payload, fragment
  number, source.
\<close>

fun relay_to_socks5 ::
  "((bytes \<times> RelayAddress) \<times> (io_error + unit)) list \<Rightarrow> bool
   \<Rightarrow> (bytes \<times> u8 \<times> Socks5Address) list \<times> (io_error, unit) outcome option" where
  "relay_to_socks5 [] closed = ([], if closed then Some (Ok ()) else None)"
| "relay_to_socks5 (((pkt, src_addr), send) # rest) closed =
     apfst (Cons (pkt, 0, socks5_address src_addr))
       (case send of
          Inl e \<Rightarrow> ([], Some (Err e))
        | Inr _ \<Rightarrow> relay_to_socks5 rest closed)"

text \<open>
  \<open>associate::handle\<close>: \<open>res\<close> is the result of the branch of \<open>select!\<close> that ended: \<open>Ok ()\<close> when the
  control connection was closed, else the result of one of the two loops.
\<close>

definition associate_handle ::
  "'sock socks5_env \<Rightarrow> u32 \<Rightarrow> nat \<Rightarrow> nat \<Rightarrow> usize \<Rightarrow> (io_error, unit) outcome \<Rightarrow> ('sock, unit) socks5_io" where
  "associate_handle E random send recv max_size res =
     socks5_then (log_peer E 0) (\<lambda>_.
     case and_then (bind_udp_socket E) (\<lambda>socket.
          and_then (returned (udp_local_addr E socket)) (\<lambda>addr. Ok (socket, addr))) of
       Ok (socket, socket_addr) \<Rightarrow>
         (let relay_req = fst (Request_new_associate random send recv) in
          socks5_then (emit (SentRequest relay_req)) (\<lambda>_.
          socks5_then (reply E Succeeded (Socks5Socket socket_addr)) (\<lambda>_.
          socks5_then (lift_io (buf_size E max_size)) (\<lambda>sz.
          socks5_then (emit (AssociatedSocket socket sz)) (\<lambda>_.
          socks5_then (lift_io (returned (peer_addr E 1))) (\<lambda>ctrl_addr.
          socks5_then (if res = Panic then lift_io Panic else emit ShutDown) (\<lambda>_.
          socks5_then (log_peer E 2) (\<lambda>_.
          lift_io res))))))))
     | Err err \<Rightarrow>
         socks5_then (reply E GeneralFailure (unspecified E)) (\<lambda>_.
         socks5_then (emit ShutDown) (\<lambda>_.
         lift_io (Err err)))
     | Panic \<Rightarrow> lift_io Panic)"

section \<open>The server\<close>

record 'l socks5_net =
  tcp_bind_v4 :: "SocketAddr \<Rightarrow> io_error + 'l"
  tcp_bind_v6 :: "SocketAddr \<Rightarrow> io_error + 'l"

definition Socks5_init :: "'l socks5_net \<Rightarrow> SocketAddr \<Rightarrow> (io_error, 'l) outcome" where
  "Socks5_init net local =
     returned (case local of V4 _ _ \<Rightarrow> tcp_bind_v4 net local | V6 _ _ _ _ \<Rightarrow> tcp_bind_v6 net local)"

text \<open>
  The loop of \<open>Socks5::run\<close> on what \<open>accept\<close> returned so far: the connections that got a task of
  their own, each with its peer.
\<close>

definition Socks5_run :: "io_error + SocketAddr \<Rightarrow> (io_error + 'c \<times> SocketAddr) list \<Rightarrow> ('c \<times> SocketAddr) list" where
  "Socks5_run local accepted =
     (case local of
        Inl _ \<Rightarrow> []
      | Inr _ \<Rightarrow> concat (map (\<lambda>a. case a of Inl _ \<Rightarrow> [] | Inr conn \<Rightarrow> [conn]) accepted))"

text \<open>What the handshake of a connection yields, and \<open>handle_connection\<close>.\<close>

datatype 'bs socks5_command =
  CmdConnect Socks5Address nat "'bs option" "io_error + unit"
| CmdBind Socks5Address
| CmdAssociate Socks5Address u32 nat nat usize "(io_error, unit) outcome"

fun handle_connection :: "'sock socks5_env \<Rightarrow> io_error + 'bs socks5_command \<Rightarrow> ('sock, unit) socks5_io" where
  "handle_connection E (Inl e) = lift_io (Err e)"
| "handle_connection E (Inr (CmdConnect addr ch response copy)) = connect_handle E ch addr response copy"
| "handle_connection E (Inr (CmdBind addr)) = bind_handle E"
| "handle_connection E (Inr (CmdAssociate addr random send recv max_size res)) =
     associate_handle E random send recv max_size res"

section \<open>What is relayed\<close>

lemma socks5_then_simps [simp]:
  "socks5_then (Ok a, es) f = (fst (f a), es @ snd (f a))"
  "socks5_then (Err e, es) f = (Err e, es)"
  "socks5_then (Panic, es) f = (Panic, es)"
  by (simp_all add: socks5_then_def)

lemma relay_address_inverse [simp]: "relay_address (socks5_address a) = a" "socks5_address (relay_address b) = b"
  by (cases a; simp) (cases b; simp)

text \<open>Whether a round received something, and the packets of a list of rounds that are not fragments.\<close>

definition round_ok :: "'sock socks5_env \<Rightarrow> udp_round \<Rightarrow> bool" where
  "round_ok E r \<longleftrightarrow> (\<exists>sz p. buf_size E (round_max r) = Ok sz \<and> round_recv r = Inr p)"

definition relayed :: "udp_round list \<Rightarrow> (bytes \<times> RelayAddress) list" where
  "relayed rs = concat (map (\<lambda>r. case round_recv r of
     Inr (pkt, frag, dst, src) \<Rightarrow> if frag = 0 then [(pkt, relay_address dst)] else []
   | Inl _ \<Rightarrow> []) rs)"

lemma relayed_simps [simp]:
  "relayed [] = []"
  "relayed (r # rs) = (case round_recv r of
     Inr (pkt, frag, dst, src) \<Rightarrow> if frag = 0 then [(pkt, relay_address dst)] else [] | Inl _ \<Rightarrow> []) @ relayed rs"
  by (simp_all add: relayed_def)

text \<open>A round that received nothing ends the loop.\<close>

lemma round_cases:
  obtains (received) pkt frag dst src where "round_ok E r" "round_recv r = Inr (pkt, frag, dst, src)"
      "and_then (buf_size E (round_max r)) (\<lambda>_. returned (round_recv r)) = Ok (pkt, frag, dst, src)"
  | (error) e where "\<not> round_ok E r" "and_then (buf_size E (round_max r)) (\<lambda>_. returned (round_recv r)) = Err e"
  | (panic) "\<not> round_ok E r" "and_then (buf_size E (round_max r)) (\<lambda>_. returned (round_recv r)) = Panic"
proof (cases "and_then (buf_size E (round_max r)) (\<lambda>_. returned (round_recv r))")
  case (Ok p)
  then show thesis using that(1) by (cases p) (auto simp: outcome_simps round_ok_def)
next
  case (Err e)
  then show thesis using that(2) [OF _ Err] by (auto simp: outcome_simps round_ok_def)
next
  case Panic
  then show thesis using that(3) [OF _ Panic] by (auto simp: outcome_simps round_ok_def)
qed

lemma to_relay_connected_relayed:
  "fst (to_relay_connected E rs) = relayed (takeWhile (round_ok E) rs) \<and>
   (snd (to_relay_connected E rs) = None \<longleftrightarrow> list_all (round_ok E) rs)"
proof (induction rs)
  case (Cons r rs)
  show ?case
    by (cases rule: round_cases [of E r]) (use Cons in auto)
qed simp

section \<open>Properties\<close>

text \<open>An environment in which everything works.\<close>

definition demo_socks5 :: "nat socks5_env" where
  "demo_socks5 =
     \<lparr>log_info = True, peer_addr = \<lambda>_. Inr (V4 (Ipv4Addr 127 0 0 1) 40000),
      conn_local_addr = Inr (V4 (Ipv4Addr 127 0 0 1) 1080), unspecified = Socks5Socket (V4 (Ipv4Addr 0 0 0 0) 0),
      reply_result = \<lambda>_ _. Inr (), udp_bind = \<lambda>_. Inr 3, udp_local_addr = \<lambda>_. Inr (V4 (Ipv4Addr 127 0 0 1) 50000),
      udp_header_max_len = 262, overflow_checks = True\<rparr>"

fun is_reply :: "'sock socks5_event \<Rightarrow> bool" where
  "is_reply (Replied _ _) = True"
| "is_reply _ = False"

text \<open>
  C33: What a program that asks for a connection is told. The handler first sends the request with
  the address the program named, then replies exactly once; with the relay's side of that request,
  the reply says success exactly if the server's answer to the \<open>Connect\<close> command starts with a
  positive response.
\<close>

theorem socks5_connect_reply:
  assumes env: "client_env L bi_in bi_out uni_out uni_in"
    and w: "Command_write_to (c_vec L) (bi_write L) (Connect (TuicAddress_from (relay_address target_addr))) bi = Ok bi1"
    and h: "handle_connect L (Inr bi) (relay_address target_addr) c = (Ok response, c')"
    and log: "log_info E \<Longrightarrow> \<exists>a. peer_addr E 0 = Inr a"
  shows "\<exists>r later. snd (connect_handle E ch target_addr response copy) =
      SentRequest (RequestConnect (relay_address target_addr) ch) # Replied r (unspecified E) # later \<and>
      filter is_reply later = [] \<and>
      (r = Succeeded \<longleftrightarrow> (\<exists>rest. bi_in bi1 = encode_Command (Response True) @ rest))"
proof -
  have lp: "log_peer E 0 = (Ok (), [])"
    using log by (cases "log_info E") (auto simp: log_peer_def lift_io_def)
  have resp: "response \<noteq> None \<longleftrightarrow> (\<exists>rest. bi_in bi1 = encode_Command (Response True) @ rest)"
  proof (cases "\<exists>rest. bi_in bi1 = encode_Command (Response True) @ rest")
    case True
    then obtain rest where "bi_in bi1 = encode_Command (Response True) @ rest" by blast
    with env w obtain bi2 where "fst (handle_connect L (Inr bi) (relay_address target_addr) c) = Ok (Some bi2)"
      by (rule client_env.handle_connect_accepted [where c = c]) simp
    with h True show ?thesis by simp
  next
    case False
    with client_env.handle_connect_refused [OF env w] h show ?thesis by simp
  qed
  show ?thesis
  proof (cases response)
    case None
    with resp show ?thesis
      by (cases "reply_result E NetworkUnreachable (unspecified E)")
        (simp_all add: connect_handle_def lp Request_new_connect_def emit_def reply_def lift_io_def)
  next
    case (Some relay)
    with resp show ?thesis
      by (cases "reply_result E Succeeded (unspecified E)")
        (simp_all add: connect_handle_def lp Request_new_connect_def emit_def reply_def lift_io_def)
  qed
qed

lemma mem_connect_refused:
  "handle_connect mem_client (Inr ([], [])) addr c = (Ok None, c)"
  by (rule memc.handle_connect_refused [OF mem_write_Connect]) simp

theorem socks5_connect_reply_witness:
  "\<exists>r later. snd (connect_handle demo_socks5 5 (Socks5Domain ''a.b'' 80) (None :: (bytes \<times> bytes) option) (Inr ())) =
     SentRequest (RequestConnect (RelayDomain ''a.b'' 80) 5) # Replied r (unspecified demo_socks5) # later \<and> r \<noteq> Succeeded"
  using socks5_connect_reply [OF memc.client_env_axioms mem_write_Connect mem_connect_refused,
      where target_addr = "Socks5Domain ''a.b'' 80" and E = demo_socks5 and ch = 5 and copy = "Inr ()"]
  by (auto simp: demo_socks5_def)

text \<open>
  C34: The two receive loops of an association together pass on exactly the packets that are not
  fragments, each once, in the order received, with the destination the SOCKS5 client named, up to
  the first round in which the socket failed; and as long as no round failed, they go on.
\<close>

theorem associate_relays_unfragmented:
  assumes "list_all (\<lambda>r. round_connect r = Inr ()) rs"
  shows "fst (socks5_to_relay E rs) = relayed (takeWhile (round_ok E) rs) \<and>
    (snd (socks5_to_relay E rs) = None \<longleftrightarrow> list_all (round_ok E) rs)"
  using assms
proof (induction rs)
  case (Cons r rs)
  show ?case
    by (cases rule: round_cases [of E r])
      (use Cons to_relay_connected_relayed [of E rs] in \<open>auto\<close>)
qed simp

text \<open>A round that receives a packet.\<close>

definition demo_round :: "u8 \<Rightarrow> bytes \<Rightarrow> udp_round" where
  "demo_round frag pkt =
     \<lparr>round_max = 1200,
      round_recv = Inr (pkt, frag, Socks5Domain ''a.b'' 53, V4 (Ipv4Addr 127 0 0 1) 40001),
      round_connect = Inr ()\<rparr>"

lemma demo_buf_size: "buf_size demo_socks5 1200 = Ok 1195"
  by (simp add: buf_size_def demo_socks5_def usize_sub_def Command_max_serialized_len_def Address_max_serialized_len_def)

theorem associate_relays_unfragmented_witness:
  "fst (socks5_to_relay demo_socks5 [demo_round 1 [9], demo_round 0 [1], demo_round 0 [2]]) =
     [([1], RelayDomain ''a.b'' 53), ([2], RelayDomain ''a.b'' 53)]"
proof -
  let ?rs = "[demo_round 1 [9], demo_round 0 [1], demo_round 0 [2]]"
  have "list_all (\<lambda>r. round_connect r = Inr ()) ?rs" and "takeWhile (round_ok demo_socks5) ?rs = ?rs"
    by (simp_all add: demo_round_def round_ok_def demo_buf_size)
  with associate_relays_unfragmented [of ?rs demo_socks5] show ?thesis by (simp add: demo_round_def)
qed

text \<open>
  C35: A packet that fits the receive buffer fits a datagram. The buffer of an association is the
  largest datagram less the difference between the two headers. A SOCKS5 UDP packet, header
  included, that fits it can be relayed in \<open>native\<close> mode: with the header of the protocol in place
  of the SOCKS5 one, it is no longer than the largest datagram, so that quinn accepts it.
\<close>

theorem associate_packet_fits:
  assumes env: "client_env L bi_in bi_out uni_out uni_in"
    and size: "buf_size E max_size = Ok sz" "overflow_checks E \<or> 5 \<le> max_size"
    and header_max: "udp_header_max_len E = 3 + Address_max_serialized_len"
    and header: "header_len dst = 3 + Address_serialized_len (TuicAddress_from (relay_address dst))"
    and fits: "header_len dst + length pkt \<le> sz"
    and quinn: "\<And>d. length d \<le> max_size \<Longrightarrow> q_send_datagram d = Inr ()"
  shows "send_packet_native L q_send_datagram assoc_id pkt (relay_address dst) = Ok ()"
proof -
  have sz: "sz + 5 = max_size"
    using size header_max by (auto simp: buf_size_def usize_sub_def Command_max_serialized_len_def split: if_splits)
  have "length (encode_Command (Packet assoc_id (of_nat (length pkt)) (TuicAddress_from (relay_address dst))) @ pkt)
    = 8 + Address_serialized_len (TuicAddress_from (relay_address dst)) + length pkt"
    by (simp add: length_encode_Address)
  also have "\<dots> \<le> max_size" using sz header fits by simp
  finally show ?thesis
    using quinn client_env.send_packet_native_Ok [OF env] by blast
qed

theorem associate_packet_fits_witness:
  "send_packet_native mem_client (\<lambda>d. if length d \<le> 1200 then Inr () else Inl ''too large'') 7 (replicate 1185 0)
     (relay_address (Socks5Socket (V4 (Ipv4Addr 10 0 0 1) 53))) = Ok ()"
  by (rule associate_packet_fits [OF memc.client_env_axioms demo_buf_size,
        where header_len = "\<lambda>a. 3 + Address_serialized_len (TuicAddress_from (relay_address a))"])
    (simp_all add: demo_socks5_def Address_max_serialized_len_def)

text \<open>
  Packet sizes below the difference of the headers. When the global packet size is less than
  five, the size of the buffer underflows: a build with overflow checks panics when a program asks
  for an association, and a build without gets a buffer of almost \<open>2 ^ 64\<close> bytes.
\<close>

lemma small_packet_size_underflows:
  assumes "udp_header_max_len E = 3 + Address_max_serialized_len" and "max_size < 5"
  shows "buf_size E max_size = (if overflow_checks E then Panic else Ok (2 ^ 64 - 5 + max_size))"
  using assms by (simp add: buf_size_def usize_sub_def Command_max_serialized_len_def)

lemma small_packet_size_underflows_witness:
  "buf_size demo_socks5 4 = Panic \<and> buf_size (demo_socks5\<lparr>overflow_checks := False\<rparr>) 0 = Ok 18446744073709551611"
  using small_packet_size_underflows [of demo_socks5 4]
    small_packet_size_underflows [of "demo_socks5\<lparr>overflow_checks := False\<rparr>" 0]
  by (simp add: demo_socks5_def Address_max_serialized_len_def)

end
