(* ===== verification/Client_Wakeup.thy ===== *)
theory Client_Wakeup
  imports Client_Safety
begin

text \<open>
  How the connection manager is woken: by the register of requests, and by the closed flag of a
  connection. Both futures read their condition first and store the waker afterwards. When nothing
  runs in between, no wake-up is lost; when something does, one can be.
\<close>

section \<open>Undisturbed polls\<close>

fun mid_poll :: "manager_pc \<Rightarrow> bool" where
  "mid_poll WaitReqUnset = True"
| "mid_poll (CloseUnset _) = True"
| "mid_poll _ = False"

fun manager_poll :: "('bs, 'ss, 'rs, 'ep, 'hs, 'qc) rlabel \<Rightarrow> bool" where
  "manager_poll ManagerPollsReq = True"
| "manager_poll ManagerPollsClose = True"
| "manager_poll _ = False"

text \<open>The states that are reachable when a poll, once begun, is finished before anything else runs.\<close>

inductive rquiet ::
  "('bs, 'ss, 'rs) client_lib \<Rightarrow> ConnectionConfig \<Rightarrow> ('ep \<times> 'hs \<times> 'qc) itself \<Rightarrow> ('bs, 'rs) relay \<Rightarrow> bool"
  for L config T where
  start: "rquiet L config T relay_init"
| step: "rquiet L config T s \<Longrightarrow>
    rstep L config (l :: ('bs, 'ss, 'rs, 'ep, 'hs, 'qc) rlabel) s = Some s' \<Longrightarrow>
    mid_poll (r_manager s) \<longrightarrow> manager_poll l \<Longrightarrow> rquiet L config T s'"

lemma rquiet_reachable: "rquiet L config T s \<Longrightarrow> rreachable L config T s"
  by (induction rule: rquiet.induct) (auto intro: rreachable.intros)

definition wake_ok :: "('bs, 'rs) relay \<Rightarrow> bool" where
  "wake_ok s \<longleftrightarrow>
     (cloning s \<longrightarrow> r_accepting s) \<and>
     (case r_manager s of
        WaitReqUnset \<Rightarrow> strong_count (r_register s) \<le> 1
      | WaitReqParked \<Rightarrow> (r_accepting s \<longrightarrow> req_waker (r_register s)) \<and> (cloning s \<or> strong_count (r_register s) \<le> 1)
      | CloseUnset k \<Rightarrow> \<not> closed_flag (cc_closed (r_conns s ! k))
      | CloseParked k \<Rightarrow> \<not> closed_flag (cc_closed (r_conns s ! k)) \<and> 0 \<in> set (closed_wakers (cc_closed (r_conns s ! k)))
      | _ \<Rightarrow> True)"

lemma wake_ok_init: "wake_ok relay_init"
  by (simp add: wake_ok_def relay_init_def cloning_def)

text \<open>Steps of other tasks that leave the manager, the register and the flags alone.\<close>

lemma cloning_update:
  assumes "i < length (r_requests s)" and "snd (r_requests s ! i) \<noteq> ReqCloning" and "pc \<noteq> ReqCloning"
    and "r_requests s' = (r_requests s)[i := (req, pc)]"
  shows "cloning s' \<longleftrightarrow> cloning s"
  using assms by (auto simp: cloning_def last_conv_nth nth_list_update split: if_splits)

lemma wake_ok_frame:
  assumes ok: "wake_ok s" and quiet: "\<not> mid_poll (r_manager s)" and m: "r_manager s' = r_manager s"
    and reg: "r_register s' = r_register s \<or> r_register s' = RequestRegister_drop (r_register s)"
    and acc: "r_accepting s' = r_accepting s" and clone: "cloning s' \<longleftrightarrow> cloning s"
    and closed: "\<And>k. manager_conn (r_manager s) = Some k \<Longrightarrow> cc_closed (r_conns s' ! k) = cc_closed (r_conns s ! k)"
  shows "wake_ok s'"
proof (cases "r_manager s")
  case WaitReqParked
  from reg have "strong_count (r_register s') \<le> strong_count (r_register s)" "req_waker (r_register s') = req_waker (r_register s)"
    by (auto simp: RequestRegister_drop_def)
  with WaitReqParked ok acc clone m show ?thesis by (auto simp: wake_ok_def)
next
  case (CloseParked k)
  with ok m acc clone closed [of k] show ?thesis by (simp add: wake_ok_def)
qed (use quiet m ok acc clone in \<open>auto simp: wake_ok_def\<close>)

lemma wake_ok_same:
  assumes "wake_ok s" and "\<not> mid_poll (r_manager s)" and "r_manager s' = r_manager s"
    and "r_register s' = r_register s" and "r_accepting s' = r_accepting s" and "r_requests s' = r_requests s"
    and "\<And>k. manager_conn (r_manager s) = Some k \<Longrightarrow> cc_closed (r_conns s' ! k) = cc_closed (r_conns s ! k)"
  shows "wake_ok s'"
  using assms by (intro wake_ok_frame [OF assms(1,2)]) (simp_all add: cloning_def)

lemma wake_ok_update:
  assumes "wake_ok s" and "\<not> mid_poll (r_manager s)" and "i < length (r_requests s)" and "r_requests s ! i = (req, pc)"
    and "pc \<noteq> ReqCloning" and "pc' \<noteq> ReqCloning" and "r_requests s' = (r_requests s)[i := (req, pc')]"
    and "r_manager s' = r_manager s"
    and "r_register s' = r_register s \<or> r_register s' = RequestRegister_drop (r_register s)"
    and "r_accepting s' = r_accepting s"
    and "\<And>k. manager_conn (r_manager s) = Some k \<Longrightarrow> cc_closed (r_conns s' ! k) = cc_closed (r_conns s ! k)"
  shows "wake_ok s'"
  using assms cloning_update [of i s pc' s' req] by (intro wake_ok_frame [OF assms(1,2)]) simp_all

lemma conn_update_cc_closed:
  "cc_closed c = cc_closed (cs ! k) \<Longrightarrow> cc_closed (cs[k := c] ! j) = cc_closed (cs ! j)"
  by (cases "j = k"; cases "k < length cs") (auto simp: list_update_beyond)

lemma wake_ok_requests:
  assumes ok: "wake_ok s" and quiet: "\<not> mid_poll (r_manager s)"
  shows "request_arrives req s = Some s' \<Longrightarrow> wake_ok s'"
    and "request_spawned s = Some s' \<Longrightarrow> wake_ok s'"
    and "requests_end s = Some s' \<Longrightarrow> wake_ok s'"
proof -
  assume "request_arrives req s = Some s'"
  then show "wake_ok s'"
    using ok quiet by (cases rule: request_arrivesE)
      (cases "r_manager s"; simp add: wake_ok_def cloning_def RequestRegister_clone_arc_def)
next
  assume "request_spawned s = Some s'"
  then show "wake_ok s'"
    using ok quiet by (cases rule: request_spawnedE)
      (cases "r_manager s"; simp add: wake_ok_def cloning_def RequestRegister_clone_wake_def)
next
  assume "requests_end s = Some s'"
  then show "wake_ok s'"
    using ok quiet by (cases rule: requests_endE)
      (cases "r_manager s"; auto simp: wake_ok_def cloning_def RequestRegister_drop_def)
qed

lemma wake_ok_manager:
  assumes ok: "wake_ok s" and inv: "relay_ok config s"
  shows "manager_polls_req s = Some s' \<Longrightarrow> wake_ok s'"
    and "manager_polls_close s = Some s' \<Longrightarrow> wake_ok s'"
proof -
  assume "manager_polls_req s = Some s'"
  then show "wake_ok s'"
  proof (cases rule: manager_polls_reqE)
    case 3
    have "r_accepting s \<Longrightarrow> strong_count (r_register s) > 0"
      using relay_okD(4) [OF inv] by (simp add: count_ok_def)
    with ok 3 show ?thesis by (auto simp: wake_ok_def Wait_poll_register_def cloning_def)
  qed (use ok in \<open>auto simp: wake_ok_def cloning_def\<close>)
next
  assume "manager_polls_close s = Some s'"
  then show "wake_ok s'"
  proof (cases rule: manager_polls_closeE)
    case (3 k)
    then have "k < length (r_conns s)" using relay_okD(1) [OF inv] by (auto simp: lock_ok_def)
    with ok 3 show ?thesis by (auto simp: wake_ok_def ClosedFlag_poll_register_def cloning_def)
  qed (use ok in \<open>auto simp: wake_ok_def cloning_def\<close>)
qed

lemma wake_ok_item:
  assumes ok: "wake_ok s" and quiet: "\<not> mid_poll (r_manager s)" and chain: "chain_ok s"
    and step: "incoming_item config item s = Some s'"
  shows "wake_ok s'"
  using step chain_ok_bound [OF chain]
proof (cases rule: incoming_itemE)
  case (1 k next_rx pkt)
  with ok quiet show ?thesis by (intro wake_ok_same [OF ok quiet]) auto
next
  case (2 k next_rx recv c)
  with ok quiet show ?thesis
    by (intro wake_ok_same [OF ok quiet]) (auto simp: conn_update_cc_closed streams_change_fields)
next
  case (3 k next_rx c)
  show ?thesis
  proof (cases "r_manager s")
    case (CloseParked k')
    with ok quiet 3 show ?thesis by (cases "k' = k") (auto simp: wake_ok_def cloning_def)
  qed (use ok quiet 3 in \<open>auto simp: wake_ok_def cloning_def\<close>)
qed

lemma wake_ok_turn:
  fixes L :: "('bs, 'ss, 'rs) client_lib"
  assumes ok: "wake_ok s" and quiet: "\<not> mid_poll (r_manager s)"
  shows "request_locks i s = Some s' \<Longrightarrow> wake_ok s'" "request_times_out i s = Some s' \<Longrightarrow> wake_ok s'"
    "request_takes i s = Some s' \<Longrightarrow> wake_ok s'" "request_connects L i open_bi s = Some s' \<Longrightarrow> wake_ok s'"
    "request_associates i s = Some s' \<Longrightarrow> wake_ok s'" "request_dissociates L i open_uni s = Some s' \<Longrightarrow> wake_ok s'"
proof -
  note same = wake_ok_same [OF ok quiet] and upd = wake_ok_update [OF ok quiet]
  show "wake_ok s'" if "request_locks i s = Some s'"
    using that by (cases rule: request_locksE) (rule upd, auto)
  show "wake_ok s'" if "request_times_out i s = Some s'"
    using that by (cases rule: request_times_outE) (rule upd, auto)
  show "wake_ok s'" if "request_takes i s = Some s'"
    using that
  proof (cases rule: request_takesE)
    case 1
    then show ?thesis by (intro upd) auto
  qed (auto intro!: same simp: rpanic_def)
  show "wake_ok s'" if "request_connects L i open_bi s = Some s'"
    using that
    by (cases rule: request_connectsE) (rule upd, auto simp: conn_update_cc_closed dest: handle_connect_closed)+
  show "wake_ok s'" if "request_associates i s = Some s'"
    using that by (cases rule: request_associatesE) (rule upd, auto simp: conn_update_cc_closed)
  show "wake_ok s'" if "request_dissociates L i open_uni s = Some s'"
    using that by (cases rule: request_dissociatesE) (rule upd, auto simp: conn_update_cc_closed)
qed

lemma wake_ok_step:
  assumes ok: "wake_ok s" and inv: "relay_ok config s" and step: "rstep L config l s = Some s'"
    and quiet: "mid_poll (r_manager s) \<longrightarrow> manager_poll l"
  shows "wake_ok s'"
proof (cases "manager_poll l")
  case True
  with step wake_ok_manager [OF ok inv] show ?thesis by (cases l) auto
next
  case False
  with quiet have q: "\<not> mid_poll (r_manager s)" by blast
  show ?thesis
    using step
  proof (cases rule: rstep_cases)
    case (IncomingItem item)
    with step wake_ok_item [OF ok q relay_okD(2) [OF inv]] show ?thesis by simp
  next
    case RequestLocks
    from wake_ok_turn(1) [OF ok q this(2)] show ?thesis .
  next
    case RequestTimesOut
    from wake_ok_turn(2) [OF ok q this(2)] show ?thesis .
  next
    case RequestTakes
    from wake_ok_turn(3) [OF ok q this(2)] show ?thesis .
  next
    case RequestConnects
    from wake_ok_turn(4) [OF ok q this(2)] show ?thesis .
  next
    case RequestAssociates
    from wake_ok_turn(5) [OF ok q this(2)] show ?thesis .
  next
    case RequestDissociates
    from wake_ok_turn(6) [OF ok q this(2)] show ?thesis .
  next
    case (ManagerConnects q lookup m)
    from ManagerConnects(2) show ?thesis
      using ok by (cases rule: manager_connectsE) (auto simp: wake_ok_def cloning_def rpanic_def)
  next
    case ManagerWakes
    with step ok show ?thesis by (auto elim!: manager_wakesE simp: wake_ok_def cloning_def)
  next
    case ManagerLocks
    with step ok show ?thesis by (auto elim!: manager_locksE simp: wake_ok_def cloning_def)
  qed (use step False wake_ok_requests [OF ok q] ok in
    \<open>auto elim!: request_packetE incoming_receivesE run_spawnedE heartbeat_stepE stream_droppedE
      intro!: wake_ok_same [OF ok q] simp: conn_update_cc_closed streams_change_fields rpanic_def\<close>)
qed

lemma rquiet_wake_ok: "rquiet L config T s \<Longrightarrow> wake_ok s"
proof (induction rule: rquiet.induct)
  case (step s l s')
  with rreachable_ok [OF rquiet_reachable] show ?case by (blast intro: wake_ok_step)
qed (rule wake_ok_init)

lemma no_live_request:
  assumes "count_ok s" and "r_accepting s" and "strong_count (r_register s) \<le> 1" and "r \<in> set (r_requests s)"
  shows "snd r = ReqDone"
proof -
  from assms(1-3) have "filter live (r_requests s) = []" by (simp add: count_ok_def)
  with assms(4) show ?thesis by (auto simp: filter_empty_conv live_def)
qed

section \<open>Lost wake-ups\<close>

text \<open>A parked manager only moves when a new request arrives, or when its connection closes.\<close>

fun arrival :: "('bs, 'ss, 'rs, 'ep, 'hs, 'qc) rlabel \<Rightarrow> bool" where
  "arrival (RequestArrives _) = True"
| "arrival _ = False"

lemma parked_step:
  assumes "r_manager s = WaitReqParked" and "\<not> cloning s" and "chain_ok s" and "\<not> arrival l"
    and step: "rstep L config l s = Some s'"
  shows "r_manager s' = WaitReqParked \<and> \<not> cloning s'"
  using step
proof (cases rule: rstep_cases)
  case (IncomingItem item)
  from IncomingItem(2) chain_ok_bound [OF assms(3)] show ?thesis
    using assms(1,2) by (cases rule: incoming_itemE) (auto simp: cloning_def)
next
  case RequestSpawned
  with step assms(2) show ?thesis by (simp add: request_spawned_def)
qed (use assms in \<open>auto elim!: rstep_elims simp: rpanic_def cloning_def last_conv_nth nth_list_update split: if_splits\<close>)

lemma parked_run:
  assumes "r_manager s = WaitReqParked" and "\<not> cloning s" and "relay_ok config s" and "list_all (\<lambda>l. \<not> arrival l) ls"
    and "rrun L config ls s = Some s'"
  shows "r_manager s' = WaitReqParked"
  using assms
proof (induction ls arbitrary: s)
  case (Cons l ls)
  then obtain s1 where s1: "rstep L config l s = Some s1" "rrun L config ls s1 = Some s'" by (auto split: option.splits)
  with Cons.prems parked_step [of s l L config s1] relay_okD(2) relay_ok_step [of config s L l s1] show ?case
    by (intro Cons.IH [of s1]) auto
qed simp

text \<open>The manager waits for a connection that is closed already, and the listener for a new one.\<close>

definition close_missed :: "nat \<Rightarrow> ('bs, 'rs) relay \<Rightarrow> bool" where
  "close_missed k s \<longleftrightarrow>
     r_manager s = CloseParked k \<and> Suc k = length (r_conns s) \<and> closed_flag (cc_closed (r_conns s ! k)) \<and>
     r_incoming s = AwaitChannel (Suc k)"

lemma close_missed_step:
  assumes m: "close_missed k s" and chain: "chain_ok s" and step: "rstep L config l s = Some s'"
  shows "close_missed k s'"
  using step
proof (cases rule: rstep_cases)
  case IncomingReceives
  from IncomingReceives(2) show ?thesis
    using m chain_next [OF chain] by (cases rule: incoming_receivesE) (auto simp: close_missed_def)
next
  case (IncomingItem item)
  with step m show ?thesis by (auto simp: incoming_item_def close_missed_def)
next
  case (RequestConnects i open_bi)
  with step m show ?thesis
    by (auto elim!: request_connectsE simp: close_missed_def conn_update_cc_closed dest: handle_connect_closed)
next
  case (ManagerConnects q lookup mx)
  with step m show ?thesis by (auto elim!: manager_connectsE simp: close_missed_def)
qed (use step m in \<open>auto elim!: rstep_elims simp: close_missed_def conn_update_cc_closed streams_change_fields rpanic_def\<close>)

lemma close_missed_run:
  assumes "close_missed k s" and "relay_ok config s" and "rrun L config ls s = Some s'"
  shows "close_missed k s'"
  using assms
proof (induction ls arbitrary: s)
  case (Cons l ls)
  then obtain s1 where "rstep L config l s = Some s1" "rrun L config ls s1 = Some s'" by (auto split: option.splits)
  with Cons.prems close_missed_step [of k s L config l s1] relay_okD(2) relay_ok_step [of config s L l s1] show ?case
    by (intro Cons.IH [of s1]) auto
qed simp

section \<open>Runs\<close>

definition demo_race :: "demo_label list" where
  "demo_race = [ManagerPollsReq, RequestArrives (RequestConnect (RelayDomain ''a.b'' 80) 0), RequestSpawned, ManagerPollsReq]"

definition demo_parked :: "(bytes \<times> bytes, bytes) relay" where
  "demo_parked = relay_init\<lparr>r_manager := WaitReqParked, r_register := \<lparr>strong_count = 2, req_waker = True\<rparr>,
     r_requests := [(RequestConnect (RelayDomain ''a.b'' 80) 0, ReqLocking)]\<rparr>"

lemma demo_race: "rrun mem_client demo_config demo_race relay_init = Some demo_parked"
  by (simp add: demo_race_def demo_parked_def rstep_defs relay_init_def RequestRegister_new_def)

definition demo_closing :: "demo_label list" where
  "demo_closing = [ManagerPollsClose, IncomingItem ItemEnd, ManagerPollsClose]"

definition demo_missed :: "(bytes \<times> bytes, bytes) relay" where
  "demo_missed = demo_associated\<lparr>r_manager := CloseParked 0, r_incoming := AwaitChannel 1,
     r_conns := [(hd (r_conns demo_associated))\<lparr>cc_closed := \<lparr>closed_flag = True, closed_wakers = [0]\<rparr>\<rparr>]\<rparr>"

lemma demo_closing: "rrun mem_client demo_config demo_closing demo_associated = Some demo_missed"
  by (simp add: demo_closing_def demo_missed_def demo_associated_def demo_conn demo_mode rstep_defs conn_set_closed_def
      ClosedFlag_set_def ClosedFlag_new_def ClosedFlag_poll_read_def ClosedFlag_poll_register_def)

section \<open>Properties\<close>

text \<open>
  C19: No wake-up is lost when polls are not disturbed. As long as every poll of the manager runs to
  its end before another task runs: if the manager sleeps waiting for requests, then there is no
  request whose task has not ended, except one that is just being registered, and that one will
  wake the manager; and if it sleeps waiting for its connection to close, the connection is open
  and its flag has the manager's waker.
\<close>

theorem quiet_polls_wake:
  assumes "rquiet L config T s"
  shows "(r_manager s = WaitReqParked \<and> r_accepting s \<and> \<not> cloning s \<and> r \<in> set (r_requests s) \<longrightarrow> snd r = ReqDone) \<and>
    (r_manager s = WaitReqParked \<and> cloning s \<longrightarrow> map_option r_manager (request_spawned s) = Some WaitReq) \<and>
    (r_manager s = CloseParked k \<longrightarrow> \<not> closed_flag (cc_closed (r_conns s ! k)) \<and>
      0 \<in> set (closed_wakers (cc_closed (r_conns s ! k))))"
proof -
  have ok: "wake_ok s" using assms by (rule rquiet_wake_ok)
  have count: "count_ok s" using relay_okD(4) [OF rreachable_ok [OF rquiet_reachable [OF assms]]] .
  have "snd r = ReqDone" if "r_manager s = WaitReqParked" "r_accepting s" "\<not> cloning s" "r \<in> set (r_requests s)"
    using no_live_request [OF count] that ok by (simp add: wake_ok_def)
  moreover have "map_option r_manager (request_spawned s) = Some WaitReq" if "r_manager s = WaitReqParked" "cloning s"
    using that ok by (simp add: wake_ok_def request_spawned_def set_request_def RequestRegister_clone_wake_def)
  moreover have "\<not> closed_flag (cc_closed (r_conns s ! k)) \<and> 0 \<in> set (closed_wakers (cc_closed (r_conns s ! k)))"
    if "r_manager s = CloseParked k"
    using that ok by (simp add: wake_ok_def)
  ultimately show ?thesis by blast
qed

theorem quiet_polls_wake_witness:
  "\<exists>s. rquiet mem_client demo_config TYPE(SocketAddr \<times> SocketAddr \<times> SocketAddr) s \<and>
     map_option r_manager (request_spawned s) = Some WaitReq"
proof -
  let ?T = "TYPE(SocketAddr \<times> SocketAddr \<times> SocketAddr)" and ?req = "RequestConnect (RelayDomain ''a.b'' 80) 0"
  let ?s1 = "relay_init\<lparr>r_manager := WaitReqUnset\<rparr> :: (bytes \<times> bytes, bytes) relay"
  let ?s2 = "relay_init\<lparr>r_manager := WaitReqParked, r_register := \<lparr>strong_count = 1, req_waker = True\<rparr>\<rparr> :: (bytes \<times> bytes, bytes) relay"
  let ?s3 = "?s2\<lparr>r_register := \<lparr>strong_count = 2, req_waker = True\<rparr>, r_requests := [(?req, ReqCloning)]\<rparr>"
  have 1: "rquiet mem_client demo_config ?T ?s1"
    by (rule rquiet.step [OF rquiet.start, of _ _ ManagerPollsReq])
      (simp_all add: manager_polls_req_def relay_init_def Wait_poll_count_def RequestRegister_new_def)
  have 2: "rquiet mem_client demo_config ?T ?s2"
    by (rule rquiet.step [OF 1, of ManagerPollsReq])
      (simp_all add: manager_polls_req_def relay_init_def Wait_poll_register_def RequestRegister_new_def)
  have 3: "rquiet mem_client demo_config ?T ?s3"
    by (rule rquiet.step [OF 2, of "RequestArrives ?req"])
      (simp_all add: request_arrives_def cloning_def relay_init_def RequestRegister_clone_arc_def)
  show ?thesis
    using 3 quiet_polls_wake [OF 3] by (auto simp: cloning_def)
qed

text \<open>
  C24: A request can be forgotten. \<open>Wait::poll\<close> may read the count just before a request registers and
  store its waker just after; then the manager sleeps, holding the mutex, while the request waits
  for it, and no step of any task except the arrival of another request wakes the manager.
\<close>

theorem request_wake_lost:
  "\<exists>s. rreachable mem_client demo_config TYPE(SocketAddr \<times> SocketAddr \<times> SocketAddr) s \<and>
     r_manager s = WaitReqParked \<and> r_holder s = ManagerHolds \<and>
     request_at s 0 = Some (RequestConnect (RelayDomain ''a.b'' 80) 0, ReqLocking) \<and>
     (\<nexists>(ls :: demo_label list) s'. list_all (\<lambda>l. \<not> arrival l) ls \<and> rrun mem_client demo_config ls s = Some s' \<and>
        r_manager s' \<noteq> WaitReqParked)"
proof (intro exI [of _ demo_parked] conjI)
  show reach: "rreachable mem_client demo_config TYPE(SocketAddr \<times> SocketAddr \<times> SocketAddr) demo_parked"
    using rrun_reachable [OF rreachable.start demo_race] .
  show "\<nexists>(ls :: demo_label list) s'. list_all (\<lambda>l. \<not> arrival l) ls \<and>
    rrun mem_client demo_config ls demo_parked = Some s' \<and> r_manager s' \<noteq> WaitReqParked"
    using parked_run [OF _ _ rreachable_ok [OF reach]] by (auto simp: demo_parked_def cloning_def)
qed (simp_all add: demo_parked_def relay_init_def request_at_def)

text \<open>
  C25: A closed connection can be kept for ever. The poll of the closed flag may read the flag just
  before it is set and store the waker just after; then the manager never learns that the
  connection is closed: whatever happens, no new connection is made, and every request is served
  on the closed one.
\<close>

theorem close_wake_lost:
  "\<exists>s. rreachable mem_client demo_config TYPE(SocketAddr \<times> SocketAddr \<times> SocketAddr) s \<and>
     closed_flag (cc_closed (r_conns s ! 0)) \<and> r_slot s = Some 0 \<and>
     (\<nexists>(ls :: demo_label list) s'. rrun mem_client demo_config ls s = Some s' \<and>
        \<not> (r_manager s' = CloseParked 0 \<and> length (r_conns s') = 1))"
proof (intro exI [of _ demo_missed] conjI)
  show reach: "rreachable mem_client demo_config TYPE(SocketAddr \<times> SocketAddr \<times> SocketAddr) demo_missed"
    using rrun_reachable [OF demo_associated_reachable demo_closing] .
  have "close_missed 0 demo_missed"
    by (simp add: close_missed_def demo_missed_def)
  from close_missed_run [OF this rreachable_ok [OF reach]]
  show "\<nexists>(ls :: demo_label list) s'. rrun mem_client demo_config ls demo_missed = Some s' \<and>
    \<not> (r_manager s' = CloseParked 0 \<and> length (r_conns s') = 1)"
    by (fastforce simp: close_missed_def)
qed (simp_all add: demo_missed_def demo_associated_def)

text \<open>
  A new connection may be made without a request that waits for it. An association keeps its
  register as long as the SOCKS5 side keeps it, also after its connection was closed, so the count
  that the manager polls stays above one.
\<close>

lemma reconnects_without_waiter:
  "\<exists>s. rreachable mem_client demo_config TYPE(SocketAddr \<times> SocketAddr \<times> SocketAddr) s \<and>
     r_manager s = Establishing \<and> r_requests s = [(RequestAssociate 7 0 1, ReqAssociated 0)] \<and>
     closed_flag (cc_closed (r_conns s ! 0))"
proof -
  let ?ls = "[IncomingItem ItemEnd, ManagerPollsClose, ManagerLocks, ManagerPollsReq] :: demo_label list"
  let ?s = "demo_associated\<lparr>r_manager := Establishing, r_holder := ManagerHolds, r_guard := True, r_incoming := AwaitChannel 1,
     r_conns := [(hd (r_conns demo_associated))\<lparr>cc_closed := \<lparr>closed_flag = True, closed_wakers = []\<rparr>\<rparr>]\<rparr>"
  have "rrun mem_client demo_config ?ls demo_associated = Some ?s"
    by (simp add: demo_associated_def demo_conn demo_mode rstep_defs conn_set_closed_def
      ClosedFlag_set_def ClosedFlag_new_def ClosedFlag_poll_read_def)
  from rrun_reachable [OF demo_associated_reachable this] show ?thesis
    by (intro exI [of _ ?s]) (simp add: demo_associated_def)
qed

end
