(* ===== verification/Client_Main.thy ===== *)
theory Client_Main
  imports Client_Config Client_Socks5 Client_Wakeup
begin

text \<open>
  \<open>client/src/main.rs\<close>: the client is made from its configuration, a relay and a SOCKS5 server that
  sends it requests.
\<close>

section \<open>Program\<close>

text \<open>The arguments of \<open>relay::init\<close>, from which it makes its \<open>ConnectionConfig\<close>.\<close>

definition relay_config :: "ClientConfig \<Rightarrow> ConnectionConfig" where
  "relay_config cfg =
     ConnectionConfig_new (cl_server_addr cfg) (cl_token_digest cfg) (cl_mode cfg) (cl_heartbeat cfg)
       (cl_reduce_rtt cfg) (cl_max_size cfg)"

fun ClientConfigError_to_string :: "ClientConfigError \<Rightarrow> string" where
  "ClientConfigError_to_string (ClientHelp s) = s"
| "ClientConfigError_to_string (ClientVersion s) = s"
| "ClientConfigError_to_string (ClientIo path e) =
     ''Failed to read '' @ [CHR 0x27] @ path @ [CHR 0x27] @ '': '' @ error_message e"
| "ClientConfigError_to_string (ClientParseConfigJson e) = ''Failed to parse the config file: '' @ e"
| "ClientConfigError_to_string (ClientParseArgument e) = e"
| "ClientConfigError_to_string (ClientUnexpectedArguments s) = ''Unexpected arguments: '' @ s"
| "ClientConfigError_to_string (ClientMissingOption s) = ''Missing option: '' @ s"
| "ClientConfigError_to_string (ClientParseInt e) = ParseIntError_to_string e"
| "ClientConfigError_to_string (ClientParseAddr e) = ''invalid IP address syntax''"
| "ClientConfigError_to_string ClientInvalidCongestion = ''Invalid congestion controller''"
| "ClientConfigError_to_string ClientInvalidUdpRelayMode = ''Invalid udp relay mode''"
| "ClientConfigError_to_string (ClientCertificate e) = ''Failed to load the certificate: '' @ e"
| "ClientConfigError_to_string (ClientNativeCertificate e) = ''Could not load platform certs: '' @ error_message e"
| "ClientConfigError_to_string ClientLocalAuthentication =
     ''Username and password must be set together for the local socks5 server''"
| "ClientConfigError_to_string (ClientParseLogLevel e) = e"

text \<open>
  What the program does: print and return, or run the relay (with the timeout of its requests) and
  the SOCKS5 server until one of them ends, and then exit with status 1.
\<close>

datatype 'l client_program =
  ClientPrint string
| ClientEPrint string
| ClientRun ConnectionConfig u64 'l socks5_auth

definition client_main ::
  "client_config_env \<Rightarrow> 'l socks5_net \<Rightarrow> string list \<Rightarrow> (unit, 'l client_program) outcome" where
  "client_main E net args =
     (case ClientConfig_parse E args of
        Err err \<Rightarrow>
          Ok (case err of
                ClientHelp help \<Rightarrow> ClientPrint help
              | ClientVersion version \<Rightarrow> ClientPrint version
              | err \<Rightarrow> ClientEPrint (ClientConfigError_to_string err))
      | Panic \<Rightarrow> Panic
      | Ok config \<Rightarrow>
          (case Socks5_init net (cl_local_addr config) of
             Ok socks5 \<Rightarrow> Ok (ClientRun (relay_config config) (cl_request_timeout config) socks5 (cl_auth config))
           | Err err \<Rightarrow> Ok (ClientEPrint (error_message err))
           | Panic \<Rightarrow> Panic))"

lemma client_main_Run:
  assumes "client_main E net args = Ok (ClientRun config timeout l auth)"
  obtains raw cfg token where "ClientRawConfig_parse E args = Ok raw" "ClientConfig_parse E args = Ok cfg"
    "rr_token (rc_relay raw) = Some token" "config = relay_config cfg"
    "token_digest config = client_blake3 E (as_bytes token)" "config_mode config = rr_mode (rc_relay raw)"
    "heartbeat_interval config = rr_heartbeat (rc_relay raw)"
proof -
  from assms obtain cfg where cfg: "ClientConfig_parse E args = Ok cfg" and config: "config = relay_config cfg"
    by (auto simp: client_main_def split: outcome.splits ClientConfigError.splits)
  then show thesis
    by (auto intro!: that simp: ClientConfig_parse_def outcome_simps Let_def relay_config_def ConnectionConfig_new_def)
qed

section \<open>A program that runs\<close>

definition demo_run_args :: "string list" where
  "demo_run_args =
     [''tuic-client'', ''--server'', ''relay.example'', ''--server-port'', ''443'', ''--token'', ''secret'',
      ''--local-port'', ''443'']"

definition demo_run_matches :: opt_matches where
  "demo_run_matches = matches_of [(''server'', Some ''relay.example''), (''server-port'', Some ''443''),
     (''token'', Some ''secret''), (''local-port'', Some ''443'')] []"

definition demo_run_raw :: ClientRawConfig where
  "demo_run_raw = ClientRawConfig_default
     \<lparr>rc_relay := RawRelayConfig_default\<lparr>rr_server := Some ''relay.example'', rr_port := Some 443, rr_token := Some ''secret''\<rparr>,
      rc_local := RawLocalConfig_default\<lparr>rl_port := Some 443\<rparr>\<rparr>"

lemma demo_run_matches:
  "parse_args (client_cli demo_client_env) client_options (drop 1 demo_run_args) = Inr demo_run_matches"
  by (simp add: demo_client_env_def long_getopts_def long_parse_def demo_run_args_def
      client_options_def demo_run_matches_def)

lemma demo_run_parse: "ClientRawConfig_parse demo_client_env demo_run_args = Ok demo_run_raw"
  unfolding ClientRawConfig_parse_def demo_run_matches
  by (simp add: demo_run_matches_def matches_of_def values_of_def client_required_def client_optional_def
      override_def parse_port_443 demo_run_raw_def upd_relay_def upd_local_def RawRelayConfig_default_def
      RawLocalConfig_default_def ClientRawConfig_default_def client_default_disable_sni_def client_default_reduce_rtt_def)

definition demo_socks5_net :: "unit socks5_net" where
  "demo_socks5_net = \<lparr>tcp_bind_v4 = \<lambda>a. Inr (), tcp_bind_v6 = \<lambda>a. Inr ()\<rparr>"

lemma demo_runs:
  "\<exists>config timeout login. client_main demo_client_env demo_socks5_net demo_run_args = Ok (ClientRun config timeout () login)"
proof -
  have "client_load_certificates demo_client_env (rr_certificates (rc_relay demo_run_raw)) = Ok [[1, 2]]"
    using demo_client_certs
    by (simp add: demo_run_raw_def RawRelayConfig_default_def client_default_certificates_def)
  moreover have "rr_server (rc_relay demo_run_raw) = Some ''relay.example''" "rr_port (rc_relay demo_run_raw) = Some 443"
    "rr_token (rc_relay demo_run_raw) = Some ''secret''" "rl_port (rc_local demo_run_raw) = Some 443"
    "rl_username (rc_local demo_run_raw) = None" "rl_password (rc_local demo_run_raw) = None"
    by (simp_all add: demo_run_raw_def RawLocalConfig_default_def)
  ultimately obtain cfg where "ClientConfig_parse demo_client_env demo_run_args = Ok cfg"
    by (simp add: ClientConfig_parse_def demo_run_parse Let_def)
  then show ?thesis
    by (simp add: client_main_def Socks5_init_def demo_socks5_net_def split: SocketAddr.split)
qed

end
