(* ===== verification/Server_Flow.thy ===== *)
theory Server_Flow
  imports Server_Spec
begin

text \<open>
  What goes through a server connection, counted: the packets that the accepted datagrams and
  streams carry bound the packets that come from the client (\<open>PacketFrom\<close>), and the datagrams and
  streams that are handed to quinn are exactly those of the packets that go back (\<open>PacketTo\<close>).
  Together with the specification this leads from what arrives on the connection to what the
  sockets send.
\<close>

section \<open>Packets from the client\<close>

fun datagram_packet :: "Command \<Rightarrow> usize \<Rightarrow> bytes \<Rightarrow> parcel multiset" where
  "datagram_packet (Packet a len addr) n dgram = {#(a, drop n dgram, addr)#}"
| "datagram_packet _ n dgram = {#}"

definition datagram_offer :: "('rs, 'ss) server_lib \<Rightarrow> bytes \<Rightarrow> parcel multiset" where
  "datagram_offer L dgram =
     (case Command_read_from (dgram_read L) (order L) dgram of
        Ok (cmd, _) \<Rightarrow> datagram_packet cmd (Command_serialized_len cmd) dgram
      | _ \<Rightarrow> {#})"

fun stream_packet :: "('rs, 'ss) server_lib \<Rightarrow> Command \<Rightarrow> 'rs \<Rightarrow> parcel multiset" where
  "stream_packet L (Packet a len addr) stream =
     (case q_read_exact (recv_quinn L) (unat len) stream of Ok (pkt, _) \<Rightarrow> {#(a, pkt, addr)#} | _ \<Rightarrow> {#})"
| "stream_packet L _ stream = {#}"

definition stream_offer :: "('rs, 'ss) server_lib \<Rightarrow> 'rs \<Rightarrow> parcel multiset" where
  "stream_offer L stream =
     (case Command_read_from (recv_read L) (order L) stream of
        Ok (cmd, stream) \<Rightarrow> stream_packet L cmd stream
      | _ \<Rightarrow> {#})"

text \<open>What a label brings in, and what a task may still make of it.\<close>

fun label_offer :: "('rs, 'ss) server_lib \<Rightarrow> UdpPacketSource \<Rightarrow> ('rs, 'ss) label \<Rightarrow> parcel multiset" where
  "label_offer L Datagram (AcceptDatagram dgram) = datagram_offer L dgram"
| "label_offer L UniStream (AcceptUni stream) = stream_offer L stream"
| "label_offer L k _ = {#}"

fun task_offer :: "('rs, 'ss) server_lib \<Rightarrow> UdpPacketSource \<Rightarrow> ('rs, 'ss) task \<Rightarrow> parcel multiset" where
  "task_offer L Datagram (DatagramRead dgram) = datagram_offer L dgram"
| "task_offer L Datagram (DatagramAwait w cmd n dgram) = datagram_packet cmd n dgram"
| "task_offer L UniStream (UniRead stream) = stream_offer L stream"
| "task_offer L UniStream (UniAwait w cmd stream) = stream_packet L cmd stream"
| "task_offer L k _ = {#}"

fun event_from :: "UdpPacketSource \<Rightarrow> event \<Rightarrow> parcel multiset" where
  "event_from k (PacketFrom k' a pkt addr) = (if k' = k then {#(a, pkt, addr)#} else {#})"
| "event_from k _ = {#}"

fun event_to :: "UdpPacketSource \<Rightarrow> event \<Rightarrow> parcel multiset" where
  "event_to k (PacketTo k' a pkt addr) = (if k' = k then {#(a, pkt, addr)#} else {#})"
| "event_to k _ = {#}"

definition parcels :: "(event \<Rightarrow> parcel multiset) \<Rightarrow> event list \<Rightarrow> parcel multiset" where
  "parcels f h = sum_list (map f h)"

lemma parcels_simps [simp]: "parcels f [] = {#}" "parcels f (e # h) = f e + parcels f h"
  by (simp_all add: parcels_def)

text \<open>A turn turns what the task offers into at most that.\<close>

definition turn_offers :: "('rs, 'ss) server_lib \<Rightarrow> UdpPacketSource \<Rightarrow> conn \<Rightarrow> ('rs, 'ss) task \<Rightarrow> ('rs, 'ss) turn \<Rightarrow> bool" where
  "turn_offers L k c t r \<longleftrightarrow>
     (case r of (t', woken, c') \<Rightarrow>
        parcels (event_from k) (history c') + task_offer L k t' \<subseteq># parcels (event_from k) (history c) + task_offer L k t)"

lemma task_offer_simps [simp]:
  "task_offer L k (Finished r) = {#}" "task_offer L k (UdpLookup a pkt addr) = {#}" "task_offer L k (UdpBind a pkt addr) = {#}"
  "task_offer L k (UdpInsert a tx pkt addr) = {#}" "task_offer L k (UdpPush a tx pkt addr) = {#}"
  "task_offer L k (Connecting send recv addr) = {#}" "task_offer L k (Received a pkt addr) = {#}"
  "task_offer L k (BiRead send recv) = {#}" "task_offer L k (BiAwait w cmd send recv) = {#}"
  by (cases k; simp)+

lemma task_offer_wait:
  "task_offer L k (UniAwait w cmd stream) = task_offer L k (UniAwait w' cmd stream)"
  "task_offer L k (DatagramAwait w cmd n dgram) = task_offer L k (DatagramAwait w' cmd n dgram)"
  by (cases k; simp)+

lemma task_offer_unpark [simp]: "task_offer L k (unpark t) = task_offer L k t"
  by (cases t rule: unpark.cases; cases k) simp_all

lemma held_offer_wake [simp]: "held (task_offer L k) n (wake_tasks woken ts) = held (task_offer L k) n ts"
  by (rule held_cong) (simp add: wake_tasks_def split: option.split)

lemma offers_uni_stream: "turn_offers L k c (UniRead stream) (process_uni_stream L stream c)"
  by (cases k) (auto simp: turn_offers_def process_uni_stream_def stream_offer_def wake_def Let_def
      set_authenticated_def controller_close_def log_event_def split: outcome.split Command.split)

lemma offers_datagram: "turn_offers L k c (DatagramRead dgram) (process_datagram L dgram c)"
  by (cases k) (auto simp: turn_offers_def process_datagram_def datagram_offer_def Let_def split: outcome.split)

lemma offers_bi_stream:
  "turn_offers L k c (BiRead send recv) (process_bi_stream L send recv c)"
  "turn_offers L k c (BiAwait w cmd send recv) (process_bi_stream_authed b cmd send recv c)"
  by (auto simp: turn_offers_def process_bi_stream_def process_bi_stream_authed_def log_event_def
      split: outcome.split Command.split)

lemma offers_uni_stream_authed:
  "turn_offers L k c (UniAwait w cmd stream) (process_uni_stream_authed L b cmd stream c)"
  by (cases k) (auto simp: turn_offers_def process_uni_stream_authed_def task_dissociate_def log_event_def Let_def
      split: Command.split outcome.split prod.split)

lemma offers_datagram_authed:
  "turn_offers L k c (DatagramAwait w cmd n dgram) (process_datagram_authed L b cmd n dgram c)"
  by (cases k) (auto simp: turn_offers_def process_datagram_authed_def log_event_def Let_def slice_from_def
      split: Command.split outcome.split prod.split)

lemma offers_await:
  assumes "await_authenticated i w waiting resume c = Some r"
    and "\<And>b. turn_offers L k c (waiting w) (resume b c)"
    and "\<And>w'. task_offer L k (waiting w') = task_offer L k (waiting w)"
  shows "turn_offers L k c (waiting w) r"
proof (cases w)
  case Polling
  show ?thesis
  proof (cases "poll_flags (auth c)")
    case (Ready b)
    with Polling assms(1) assms(2) [of b] show ?thesis by (simp add: await_authenticated_def)
  next
    case Pending
    with Polling assms(1) assms(3) [of Registering] show ?thesis by (auto simp: await_authenticated_def turn_offers_def)
  qed
next
  case Registering
  with assms(1) assms(3) [of Parked] show ?thesis by (auto simp: await_authenticated_def turn_offers_def)
qed (use assms(1) in \<open>simp add: await_authenticated_def\<close>)

lemma offers_task_turn:
  assumes r: "task_turn L i t c = Some r"
  shows "turn_offers L k c t r"
proof (cases t)
  case (UniAwait w cmd stream)
  from r [unfolded UniAwait task_turn.simps] show ?thesis
    unfolding UniAwait by (rule offers_await [OF _ offers_uni_stream_authed task_offer_wait(1)])
next
  case (BiAwait w cmd send recv)
  from r [unfolded BiAwait task_turn.simps] show ?thesis
    unfolding BiAwait by (rule offers_await [OF _ offers_bi_stream(2)]) simp
next
  case (DatagramAwait w cmd n dgram)
  from r [unfolded DatagramAwait task_turn.simps] show ?thesis
    unfolding DatagramAwait by (rule offers_await [OF _ offers_datagram_authed task_offer_wait(2)])
next
  case (UniRead stream)
  with r show ?thesis by (auto simp: offers_uni_stream)
next
  case (BiRead send recv)
  with r show ?thesis by (auto simp: offers_bi_stream)
next
  case (DatagramRead dgram)
  with r show ?thesis by (auto simp: offers_datagram)
qed (use r in \<open>auto simp: turn_offers_def split: option.splits if_splits\<close>)

lemma offers_received: "turn_offers L k c (Received a pkt addr) (process_received_udp_packet L open_uni send_datagram a pkt addr c)"
proof (cases "udp_packet_from c")
  case (Some m)
  then show ?thesis
    by (cases m) (auto simp: turn_offers_def process_received_udp_packet_def UdpPacketFrom_check_def log_event_def split: outcome.split)
qed (simp add: turn_offers_def process_received_udp_packet_def UdpPacketFrom_check_def)

lemma offers_bind_turn: "bind_turn bound t c = Some r \<Longrightarrow> turn_offers L k c t r"
  by (cases t) (auto simp: turn_offers_def bind_turn_def split: outcome.splits)

lemma offers_relay_turn: "relay_turn L lookup_host tcp_connect copy t c = Some r \<Longrightarrow> turn_offers L k c t r"
  by (cases t) (auto simp: turn_offers_def relay_turn_def split: outcome.splits)

lemma offers_send_back_turn: "send_back_turn L open_uni send_datagram t c = Some r \<Longrightarrow> turn_offers L k c t r"
  by (cases t) (auto simp: send_back_turn_def offers_received)

lemmas offers_other_turns = offers_bind_turn offers_relay_turn offers_send_back_turn

section \<open>What comes in bounds what is relayed\<close>

definition offered :: "('rs, 'ss) server_lib \<Rightarrow> UdpPacketSource \<Rightarrow> ('rs, 'ss) server \<Rightarrow> parcel multiset" where
  "offered L k s = parcels (event_from k) (history (shared s)) + held (task_offer L k) (next_task s) (tasks s)"

lemma history_result [simp]: "history (spawned_result t c) = history c"
  by (simp add: spawned_result_def controller_close_def split: task.split outcome.split)

lemma offered_end_turn:
  assumes t: "tasks s i = Some t" and i: "i < next_task s" and r: "turn_offers L k (shared s) t r"
  shows "offered L k (end_turn i r s) \<subseteq># offered L k s"
proof -
  obtain t' woken c where r': "r = (t', woken, c)" by (cases r)
  let ?rest = "held (task_offer L k) (next_task s) ((tasks s)(i := None))"
  have "offered L k (end_turn i r s) = parcels (event_from k) (history c) + task_offer L k t' + ?rest"
    by (simp add: offered_def end_turn_def r' held_update [OF i])
  also have "\<dots> \<subseteq># parcels (event_from k) (history (shared s)) + task_offer L k t + ?rest"
    using r by (simp add: turn_offers_def r')
  also have "\<dots> = offered L k s" using t held_split [OF i, of "task_offer L k" "tasks s"] by (simp add: offered_def)
  finally show ?thesis .
qed

lemma offered_take_turn:
  assumes ok: "server_ok T s" and s': "take_turn i turn s = Some s'"
    and turn: "\<And>t r. turn t (shared s) = Some r \<Longrightarrow> turn_offers L k (shared s) t r"
  shows "offered L k s' \<subseteq># offered L k s"
proof -
  from s' obtain t r where t: "tasks s i = Some t" and r: "turn t (shared s) = Some r" and s1: "s' = end_turn i r s"
    by (auto simp: take_turn_def split: option.splits)
  have "i < next_task s" using ok t by (auto simp: server_ok_def tasks_ok_def)
  from offered_end_turn [OF t this turn [OF r]] show ?thesis by (simp add: s1)
qed

lemma offered_spawn: "offered L k (spawn t s) = offered L k s + task_offer L k t"
  by (simp add: offered_def spawn_def held_Suc)

lemma offered_same:
  "parcels (event_from k) (history (shared s')) = parcels (event_from k) (history (shared s)) \<Longrightarrow> next_task s' = next_task s \<Longrightarrow>
    tasks s' = tasks s \<or> tasks s' = wake_tasks woken (tasks s) \<Longrightarrow> offered L k s' = offered L k s"
  by (auto simp: offered_def)

lemma label_offer_simps [simp]:
  "label_offer L k (AcceptBi send recv) = {#}" "label_offer L k AcceptReceived = {#}" "label_offer L k (Run i) = {#}"
  "label_offer L k (Bound i bound) = {#}" "label_offer L k (Relay i lookup_host tcp_connect copy) = {#}"
  "label_offer L k (SendBack i open_uni send_datagram) = {#}" "label_offer L k (SocketSend tx answer) = {#}"
  "label_offer L k (SocketReceive tx received) = {#}" "label_offer L k (SocketFails tx) = {#}"
  "label_offer L k (SessionOver tx) = {#}" "label_offer L k TimerPoll = {#}" "label_offer L k TimerElapsed = {#}"
  "label_offer L k ListenerFails = {#}" "label_offer L k SetClosed = {#}"
  by (cases k; simp)+

lemma offered_accept:
  "listen_uni_streams stream s = Some s' \<Longrightarrow> offered L k s' = offered L k s + label_offer L k (AcceptUni stream)"
  "listen_bi_streams send recv s = Some s' \<Longrightarrow> offered L k s' = offered L k s"
  "listen_datagrams dgram s = Some s' \<Longrightarrow> offered L k s' = offered L k s + label_offer L k (AcceptDatagram dgram)"
  by (cases k; auto simp: listen_uni_streams_def listen_bi_streams_def listen_datagrams_def offered_spawn split: if_splits)+

lemma offered_accept_received:
  assumes "listen_received_udp_packet s = Some s'"
  shows "offered L k s' = offered L k s"
proof -
  from assms obtain t rest where "s' = spawn t (s\<lparr>recv_pkts := rest\<rparr>)" "task_offer L k t = {#}"
    by (auto simp: listen_received_udp_packet_def split: list.splits if_splits)
  then show ?thesis by (simp add: offered_spawn) (simp add: offered_def)
qed

lemma offered_timer:
  "timer_poll s = Some s' \<Longrightarrow> offered L k s' = offered L k s"
  "timer_elapsed s = Some s' \<Longrightarrow> offered L k s' = offered L k s"
  "listener_fails s = Some s' \<Longrightarrow> offered L k s' = offered L k s"
  "handle_closed s = Some s' \<Longrightarrow> offered L k s' = offered L k s"
  by (auto simp: timer_poll_def timer_elapsed_def listener_fails_def handle_closed_def Let_def controller_close_def
      intro!: offered_same split: if_splits poll.splits prod.splits)

lemma offered_sessions:
  "session_send tx answer s = Some s' \<Longrightarrow> offered L k s' = offered L k s"
  "session_receive tx received s = Some s' \<Longrightarrow> offered L k s' = offered L k s"
  "offered L k (session_returns tx s) = offered L k s"
  by (auto simp: session_send_def session_receive_def session_returns_def set_sessions_def log_server_def log_event_def
      listen_send_packet_def listen_receive_packet_def intro!: offered_same split: option.splits if_splits prod.splits list.splits sum.splits)

lemma offered_step:
  assumes ok: "server_ok T s" and l: "step L l s = Some s'"
  shows "offered L k s' \<subseteq># offered L k s + label_offer L k l"
proof (cases l)
  case (Run i)
  with l show ?thesis by (auto intro: offered_take_turn [OF ok] offers_task_turn)
next
  case (Bound i bound)
  with l show ?thesis by (auto intro: offered_take_turn [OF ok] offers_other_turns)
next
  case (Relay i lookup_host tcp_connect copy)
  with l show ?thesis by (auto intro: offered_take_turn [OF ok] offers_other_turns)
next
  case (SendBack i open_uni send_datagram)
  with l show ?thesis by (auto intro: offered_take_turn [OF ok] offers_other_turns)
qed (use l in \<open>auto simp: offered_accept offered_accept_received offered_timer offered_sessions split: if_splits option.splits\<close>)

section \<open>Packets to the client\<close>

text \<open>
  What is handed to quinn in a run: datagrams, or what is written to streams unless an error cuts
  it short.
\<close>

fun label_return ::
  "('rs, 'ss) server_lib \<Rightarrow> UdpPacketSource \<Rightarrow> ('rs, 'ss) label \<Rightarrow> ('rs, 'ss) server \<Rightarrow> bytes list" where
  "label_return L k (SendBack i open_uni send_datagram) s =
     (case tasks s i of
        Some (Received a pkt addr) \<Rightarrow>
          if udp_packet_from (shared s) = Some k then
            (case k of
               Datagram \<Rightarrow> (case packet_to_datagram (vec L) Inr a pkt addr of Ok d \<Rightarrow> [d] | _ \<Rightarrow> [])
             | UniStream \<Rightarrow> [packet_bytes (a, pkt, addr)])
          else []
      | _ \<Rightarrow> [])"
| "label_return L k _ s = []"

fun sent_packets ::
  "('rs, 'ss) server_lib \<Rightarrow> UdpPacketSource \<Rightarrow> ('rs, 'ss) label list \<Rightarrow> ('rs, 'ss) server \<Rightarrow> bytes list" where
  "sent_packets L k [] s = []"
| "sent_packets L k (l # ls) s =
     label_return L k l s @ (case step L l s of None \<Rightarrow> [] | Some s' \<Rightarrow> sent_packets L k ls s')"

abbreviation noted :: "(event \<Rightarrow> parcel multiset) \<Rightarrow> conn \<Rightarrow> parcel multiset" where
  "noted f c \<equiv> parcels f (history c)"

abbreviation sent_back :: "UdpPacketSource \<Rightarrow> conn \<Rightarrow> parcel multiset" where
  "sent_back k \<equiv> noted (event_to k)"

text \<open>Events that the turns of tasks do not add, other than the one that sends a packet back.\<close>

definition task_silent :: "(event \<Rightarrow> parcel multiset) \<Rightarrow> bool" where
  "task_silent f \<longleftrightarrow>
     (\<forall>d. f (Authenticated d) = {#}) \<and> (\<forall>k a pkt addr. f (PacketFrom k a pkt addr) = {#}) \<and>
     (\<forall>a. f (Dissociated a) = {#}) \<and> (\<forall>addr. f (ConnectTo addr) = {#})"

lemma task_silent_to: "task_silent (event_to k)"
  by (simp add: task_silent_def)

lemma noted_task_turn:
  assumes f: "task_silent f" and turn: "task_turn L i t c = Some (t', woken, c')"
  shows "noted f c' = noted f c"
proof -
  have await: "noted f c' = noted f c"
    if "await_authenticated i w waiting resume c = Some (t', woken, c')"
      "\<And>b. noted f (snd (snd (resume b c))) = noted f c" for w waiting resume
    using that(1) that(2) by (cases w; cases "poll_flags (auth c)")
      (auto simp: await_authenticated_def poll_register_def dest: arg_cong [where f = "\<lambda>r. noted f (snd (snd r))"])
  have uni: "noted f (snd (snd (process_uni_stream_authed L b cmd stream c))) = noted f c" for b cmd stream
    using f by (auto simp: task_silent_def process_uni_stream_authed_def task_dissociate_def log_event_def Let_def
        split: Command.split outcome.split prod.split)
  have bi: "noted f (snd (snd (process_bi_stream_authed b cmd send recv c))) = noted f c" for b cmd and send :: 'b and recv :: 'a
    using f by (auto simp: task_silent_def process_bi_stream_authed_def log_event_def split: Command.split)
  have dgram: "noted f (snd (snd (process_datagram_authed L b cmd n d c))) = noted f c" for b cmd n d
    using f by (auto simp: task_silent_def process_datagram_authed_def log_event_def Let_def slice_from_def split: Command.split prod.split)
  show ?thesis
  proof (cases t)
    case (UniRead stream)
    with turn f show ?thesis
      by (auto simp: task_silent_def process_uni_stream_def wake_def Let_def set_authenticated_def controller_close_def log_event_def
          split: outcome.splits Command.splits if_splits)
  next
    case (BiRead send recv)
    with turn show ?thesis by (auto simp: process_bi_stream_def split: outcome.splits)
  next
    case (DatagramRead d)
    with turn show ?thesis by (auto simp: process_datagram_def Let_def split: outcome.splits)
  qed (use turn await uni bi dgram in \<open>auto split: option.splits if_splits\<close>)
qed

lemma noted_bind_turn: "bind_turn bound t c = Some (t', woken, c') \<Longrightarrow> noted f c' = noted f c"
  by (cases t) (auto simp: bind_turn_def split: outcome.splits)

lemma noted_relay_turn: "relay_turn L lookup_host tcp_connect copy t c = Some (t', woken, c') \<Longrightarrow> noted f c' = noted f c"
  by (cases t) (auto simp: relay_turn_def split: outcome.splits)

lemma noted_take_turn:
  assumes "take_turn i turn s = Some s'" and "\<And>t t' woken c'. turn t (shared s) = Some (t', woken, c') \<Longrightarrow> noted f c' = noted f (shared s)"
  shows "noted f (shared s') = noted f (shared s)"
  using assms by (auto simp: take_turn_def end_turn_def split: option.splits prod.splits)

lemma noted_other:
  "listen_uni_streams stream s = Some s' \<Longrightarrow> noted f (shared s') = noted f (shared s)"
  "listen_bi_streams send recv s = Some s' \<Longrightarrow> noted f (shared s') = noted f (shared s)"
  "listen_datagrams dgram s = Some s' \<Longrightarrow> noted f (shared s') = noted f (shared s)"
  "listen_received_udp_packet s = Some s' \<Longrightarrow> noted f (shared s') = noted f (shared s)"
  "timer_poll s = Some s' \<Longrightarrow> noted f (shared s') = noted f (shared s)"
  "timer_elapsed s = Some s' \<Longrightarrow> noted f (shared s') = noted f (shared s)"
  "listener_fails s = Some s' \<Longrightarrow> noted f (shared s') = noted f (shared s)"
  "handle_closed s = Some s' \<Longrightarrow> noted f (shared s') = noted f (shared s)"
  by (auto simp: listen_uni_streams_def listen_bi_streams_def listen_datagrams_def listen_received_udp_packet_def spawn_def
      timer_poll_def timer_elapsed_def listener_fails_def handle_closed_def Let_def controller_close_def
      split: if_splits poll.splits prod.splits list.splits)

lemma noted_session_returns: "noted f (shared (session_returns tx s)) = noted f (shared s)"
  by (simp add: session_returns_def set_sessions_def)

lemma noted_session_send:
  assumes "session_send tx answer s = Some s'" and "\<And>a pkt addr. f (SocketSent a pkt addr) = {#}"
  shows "noted f (shared s') = noted f (shared s)"
  using assms by (auto simp: session_send_def set_sessions_def log_server_def log_event_def split: option.splits if_splits prod.splits)

lemma sent_back_receive: "session_receive tx received s = Some s' \<Longrightarrow> sent_back k (shared s') = sent_back k (shared s)"
  by (auto simp: session_receive_def log_server_def log_event_def split: option.splits if_splits prod.splits)

context server_env
begin

lemma packet_to_datagram_eq: "packet_to_datagram (vec L) q a pkt addr = map_err SendDatagram (returned (q (packet_bytes (a, pkt, addr))))"
  using byte_buffer.extend_from_slice [OF vec_contract] byte_buffer.write_Command [OF vec_contract, of _ "[]"]
  by (simp add: packet_to_datagram_def Let_def del: encode_Command.simps Command_write_to_buf.simps)

lemma sent_back_send_back:
  assumes "step L (SendBack i open_uni send_datagram) s = Some s'"
  shows "image_mset packet_bytes (sent_back k (shared s')) =
    mset (label_return L k (SendBack i open_uni send_datagram) s) + image_mset packet_bytes (sent_back k (shared s))"
proof -
  from assms obtain a pkt addr where t: "tasks s i = Some (Received a pkt addr)"
    and s': "s' = end_turn i (process_received_udp_packet L open_uni send_datagram a pkt addr (shared s)) s"
    by (auto simp: take_turn_def send_back_turn_def split: option.splits task.splits)
  show ?thesis
  proof (cases "udp_packet_from (shared s)")
    case (Some src)
    then show ?thesis
      by (cases k; cases src; cases "send_datagram (packet_bytes (a, pkt, addr))")
        (auto simp: t s' end_turn_def process_received_udp_packet_def UdpPacketFrom_check_def log_event_def
          packet_to_datagram_eq packet_to_uni_stream_total simp del: packet_bytes.simps split: outcome.split)
  qed (simp add: t s' end_turn_def process_received_udp_packet_def UdpPacketFrom_check_def)
qed

lemma sent_back_step:
  assumes "step L l s = Some s'"
  shows "image_mset packet_bytes (sent_back k (shared s')) = mset (label_return L k l s) + image_mset packet_bytes (sent_back k (shared s))"
proof (cases l)
  case (SendBack i open_uni send_datagram)
  with assms sent_back_send_back show ?thesis by blast
next
  case (Run i)
  with assms have "sent_back k (shared s') = sent_back k (shared s)" by (auto elim: noted_take_turn intro: noted_task_turn [OF task_silent_to])
  with Run show ?thesis by simp
next
  case (Bound i bound)
  with assms have "sent_back k (shared s') = sent_back k (shared s)" by (auto elim: noted_take_turn intro: noted_bind_turn)
  with Bound show ?thesis by simp
next
  case (Relay i lookup_host tcp_connect copy)
  with assms have "sent_back k (shared s') = sent_back k (shared s)" by (auto elim: noted_take_turn intro: noted_relay_turn)
  with Relay show ?thesis by simp
qed (use assms in \<open>auto simp: noted_other noted_session_returns noted_session_send sent_back_receive split: if_splits option.splits\<close>)

lemma sent_back_run:
  "run L ls s = Some s' \<Longrightarrow>
    image_mset packet_bytes (sent_back k (shared s')) = mset (sent_packets L k ls s) + image_mset packet_bytes (sent_back k (shared s))"
proof (induction ls arbitrary: s)
  case (Cons l ls)
  then obtain s1 where 1: "step L l s = Some s1" and 2: "run L ls s1 = Some s'" by (auto split: option.splits)
  from Cons.IH [OF 2] sent_back_step [OF 1] 1 show ?case by simp
qed simp

lemma offered_run:
  assumes "server_ok T s" and "run L ls s = Some s'"
  shows "offered L k s' \<subseteq># offered L k s + sum_list (map (label_offer L k) ls)"
  using assms
proof (induction ls arbitrary: s)
  case (Cons l ls)
  then obtain s1 where 1: "step L l s = Some s1" and 2: "run L ls s1 = Some s'" by (auto split: option.splits)
  have "server_ok T s1" using good_step [OF Cons.prems(1) 1] by (simp add: good_step_def)
  from Cons.IH [OF this 2] have "offered L k s' \<subseteq># offered L k s1 + sum_list (map (label_offer L k) ls)" .
  also have "\<dots> \<subseteq># offered L k s + label_offer L k l + sum_list (map (label_offer L k) ls)"
    using offered_step [OF Cons.prems(1) 1] by simp
  finally show ?case by (simp add: add.assoc)
qed simp

text \<open>From the start of the connection on.\<close>

lemma received_bound:
  assumes "run L ls (handle_init T n) = Some s"
  shows "parcels (event_from k) (history (shared s)) \<subseteq># sum_list (map (label_offer L k) ls)"
proof -
  from offered_run [OF reachable_ok [OF reachable.init] assms, of k] have "offered L k s \<subseteq># sum_list (map (label_offer L k) ls)"
    by (simp add: offered_def handle_init_def)
  then show ?thesis unfolding offered_def by (rule subset_mset.order_trans [rotated]) simp
qed

lemma returned_exact:
  assumes "run L ls (handle_init T n) = Some s"
  shows "mset (sent_packets L k ls (handle_init T n)) = image_mset packet_bytes (sent_back k (shared s))"
  using sent_back_run [OF assms] by (simp add: handle_init_def)

end

section \<open>Between the sockets and the client\<close>

fun event_out :: "event \<Rightarrow> parcel multiset" where
  "event_out (SocketSent a pkt addr) = {#(a, pkt, addr)#}"
| "event_out _ = {#}"

fun event_in :: "event \<Rightarrow> parcel multiset" where
  "event_in (SocketReceived a pkt addr) = {#(a, pkt, addr)#}"
| "event_in _ = {#}"

lemma count_out: "count (parcels event_out h) (a, pkt, addr) = length (filter ((=) (SocketSent a pkt addr)) h)"
proof (induction h)
  case (Cons e h)
  then show ?case by (cases e) auto
qed simp

lemma count_in: "count (parcels event_in h) (a, pkt, addr) = length (filter ((=) (SocketReceived a pkt addr)) h)"
proof (induction h)
  case (Cons e h)
  then show ?case by (cases e) auto
qed simp

lemma count_from: "count (parcels (event_from UniStream) h + parcels (event_from Datagram) h) p = from_client_count h p"
proof (induction h)
  case (Cons e h)
  then show ?case
  proof (cases e)
    case (PacketFrom k a pkt addr)
    with Cons show ?thesis by (cases k; cases p) (auto simp: from_client_count_def)
  qed (auto simp: from_client_count_def)
qed (simp add: from_client_count_def)

lemma count_to: "count (parcels (event_to UniStream) h + parcels (event_to Datagram) h) p = to_client_count h p"
proof (induction h)
  case (Cons e h)
  then show ?case
  proof (cases e)
    case (PacketTo k a pkt addr)
    with Cons show ?thesis by (cases k; cases p) (auto simp: to_client_count_def)
  qed (auto simp: to_client_count_def)
qed (simp add: to_client_count_def)

text \<open>What sockets receive has a socket address and is no longer than what the label says.\<close>

fun label_received_below :: "nat \<Rightarrow> ('rs, 'ss) label \<Rightarrow> bool" where
  "label_received_below n (SocketReceive tx received) \<longleftrightarrow> fst (snd received) < n"
| "label_received_below n _ \<longleftrightarrow> True"

definition received_below :: "nat \<Rightarrow> conn \<Rightarrow> bool" where
  "received_below n c \<longleftrightarrow> (\<forall>(a, pkt, addr) \<in># noted event_in c. length pkt < n \<and> (\<exists>sa. addr = SocketAddress sa))"

lemma task_silent_in: "task_silent event_in"
  by (simp add: task_silent_def)

lemma noted_in_send_back:
  "send_back_turn L open_uni send_datagram t c = Some (t', woken, c') \<Longrightarrow> noted event_in c' = noted event_in c"
proof (cases t)
  case (Received a pkt addr)
  assume "send_back_turn L open_uni send_datagram t c = Some (t', woken, c')"
  with Received show ?thesis
    by (cases "udp_packet_from c"; cases "the (udp_packet_from c)")
      (auto simp: send_back_turn_def process_received_udp_packet_def UdpPacketFrom_check_def log_event_def split: outcome.splits)
qed (simp_all add: send_back_turn_def)

lemma received_below_step:
  assumes c: "received_below n (shared s)" and l: "step L l s = Some s'" and n: "label_received_below n l"
  shows "received_below n (shared s')"
proof -
  have same: ?thesis if "noted event_in (shared s') = noted event_in (shared s)"
    using c that by (simp add: received_below_def)
  show ?thesis
  proof (cases l)
    case (SocketReceive tx received)
    with l n c show ?thesis
      by (cases received) (auto simp: received_below_def session_receive_def listen_receive_packet_def log_server_def
          log_event_def split: option.splits if_splits)
  next
    case (Run i)
    with l show ?thesis by (intro same) (auto elim: noted_take_turn intro: noted_task_turn [OF task_silent_in])
  next
    case (Bound i bound)
    with l show ?thesis by (intro same) (auto elim: noted_take_turn intro: noted_bind_turn)
  next
    case (Relay i lookup_host tcp_connect copy)
    with l show ?thesis by (intro same) (auto elim: noted_take_turn intro: noted_relay_turn)
  next
    case (SendBack i open_uni send_datagram)
    with l show ?thesis by (intro same) (auto elim: noted_take_turn intro: noted_in_send_back)
  qed (rule same; use l in \<open>auto simp: noted_other noted_session_returns noted_session_send split: if_splits option.splits\<close>)+
qed

lemma received_below_run:
  assumes "received_below n (shared s)" and "run L ls s = Some s'" and "list_all (label_received_below n) ls"
  shows "received_below n (shared s')"
  using assms
proof (induction ls arbitrary: s)
  case (Cons l ls)
  then obtain s1 where 1: "step L l s = Some s1" and 2: "run L ls s1 = Some s'" by (auto split: option.splits)
  from Cons.IH [OF received_below_step [OF Cons.prems(1) 1] 2] Cons.prems(3) show ?case by simp
qed simp

context server_env
begin

lemma sockets_bounded:
  assumes "reachable L T n s"
  shows "noted event_out (shared s) \<subseteq># noted (event_from UniStream) (shared s) + noted (event_from Datagram) (shared s)"
    and "sent_back UniStream (shared s) + sent_back Datagram (shared s) \<subseteq># noted event_in (shared s)"
proof -
  obtain sp where run: "spec_run T (rev (history (shared s))) spec_init = Some sp"
    using reachable_implements [OF assms] by blast
  have rev: "from_client_count (rev h) p = from_client_count h p" "to_client_count (rev h) p = to_client_count h p" for h p
    by (simp_all add: from_client_count_def to_client_count_def flip: rev_filter)
  have empty: "sp_out spec_init = {#}" "sp_in spec_init = {#}" by (simp_all add: spec_init_def)
  show "noted event_out (shared s) \<subseteq># noted (event_from UniStream) (shared s) + noted (event_from Datagram) (shared s)"
  proof (rule mset_subset_eqI)
    fix p show "count (noted event_out (shared s)) p \<le>
        count (noted (event_from UniStream) (shared s) + noted (event_from Datagram) (shared s)) p"
      unfolding count_from using spec_run_count [OF run, of "fst p" "fst (snd p)" "snd (snd p)"]
      by (cases p) (simp add: rev empty count_out flip: rev_filter)
  qed
  show "sent_back UniStream (shared s) + sent_back Datagram (shared s) \<subseteq># noted event_in (shared s)"
  proof (rule mset_subset_eqI)
    fix p show "count (sent_back UniStream (shared s) + sent_back Datagram (shared s)) p \<le> count (noted event_in (shared s)) p"
      unfolding count_to using spec_run_count [OF run, of "fst p" "fst (snd p)" "snd (snd p)"]
      by (cases p) (simp add: rev empty count_in flip: rev_filter)
  qed
qed

end

end
