(* ===== verification/Client_Flow.thy ===== *)
theory Client_Flow
  imports Client_Safety
begin

text \<open>
  What goes through the client's relay, counted per connection: the datagrams (in \<open>native\<close> mode) or
  streams (in \<open>quic\<close> mode) that are handed to quinn carry packets that associations were given, each
  at most once; and the packets that are delivered to associations were in datagrams or streams
  that came from the connection, each at most once.
\<close>

type_synonym client_parcel = "u32 \<times> bytes \<times> RelayAddress"

section \<open>Packets to the server\<close>

fun tuic_parcel :: "client_parcel \<Rightarrow> u32 \<times> bytes \<times> Address" where
  "tuic_parcel (a, pkt, addr) = (a, pkt, TuicAddress_from addr)"

text \<open>
  What the association's side hands over in a step, and what is handed to quinn: a datagram, or what
  is written to a stream unless an error cuts it short.
\<close>

fun label_given :: "nat \<Rightarrow> ('bs, 'ss, 'rs, 'ep, 'hs, 'qc) rlabel \<Rightarrow> ('bs, 'rs) relay \<Rightarrow> client_parcel list" where
  "label_given k (RequestPacket i pkt addr) s =
     (case request_at s i of
        Some (RequestAssociate a _ _, ReqAssociated c) \<Rightarrow> if c = k then [(a, pkt, addr)] else []
      | _ \<Rightarrow> [])"
| "label_given k _ s = []"

fun label_sent ::
  "('bs, 'ss, 'rs) client_lib \<Rightarrow> relay_mode \<Rightarrow> nat \<Rightarrow> ('bs, 'ss, 'rs, 'ep, 'hs, 'qc) rlabel \<Rightarrow> ('bs, 'rs) relay \<Rightarrow> bytes list" where
  "label_sent L mode k (RunSpawned j m q_send open_uni) s =
     (if j < length (r_spawned s) then
        (case r_spawned s ! j of
           SendPacket c a pkt addr \<Rightarrow>
             if c = k \<and> cc_mode (r_conns s ! k) = mode then
               (case mode of
                  Native _ \<Rightarrow> (case send_packet_native L Inr a pkt addr of Ok d \<Rightarrow> [d] | _ \<Rightarrow> [])
                | Quic _ \<Rightarrow> [packet_bytes (tuic_parcel (a, pkt, addr))])
             else []
         | _ \<Rightarrow> [])
      else [])"
| "label_sent L mode k _ s = []"

text \<open>The same along a run.\<close>

fun along ::
  "('bs, 'ss, 'rs) client_lib \<Rightarrow> ConnectionConfig
   \<Rightarrow> (('bs, 'ss, 'rs, 'ep, 'hs, 'qc) rlabel \<Rightarrow> ('bs, 'rs) relay \<Rightarrow> 'x list)
   \<Rightarrow> ('bs, 'ss, 'rs, 'ep, 'hs, 'qc) rlabel list \<Rightarrow> ('bs, 'rs) relay \<Rightarrow> 'x list" where
  "along L config f [] s = []"
| "along L config f (l # ls) s = f l s @ (case rstep L config l s of None \<Rightarrow> [] | Some s' \<Rightarrow> along L config f ls s')"

fun spawned_packet :: "nat \<Rightarrow> 'rs spawned \<Rightarrow> client_parcel list" where
  "spawned_packet k (SendPacket c a pkt addr) = (if c = k then [(a, pkt, addr)] else [])"
| "spawned_packet k _ = []"

definition waiting :: "('rs spawned \<Rightarrow> 'x list) \<Rightarrow> ('bs, 'rs) relay \<Rightarrow> 'x multiset" where
  "waiting f s = mset (concat (map f (r_spawned s)))"

lemma waiting_append: "r_spawned s' = r_spawned s @ ts \<Longrightarrow> waiting f s' = waiting f s + mset (concat (map f ts))"
  by (simp add: waiting_def)

lemma waiting_remove:
  assumes "j < length (r_spawned s)" and "r_spawned s' = take j (r_spawned s) @ drop (Suc j) (r_spawned s)"
  shows "waiting f s = waiting f s' + mset (f (r_spawned s ! j))"
proof -
  have "r_spawned s = take j (r_spawned s) @ r_spawned s ! j # drop (Suc j) (r_spawned s)"
    using assms(1) by (rule id_take_nth_drop)
  then have "mset (concat (map f (r_spawned s))) =
      mset (concat (map f (take j (r_spawned s) @ r_spawned s ! j # drop (Suc j) (r_spawned s))))" by simp
  then show ?thesis by (simp add: waiting_def assms(2))
qed

lemma flow_trans:
  fixes X :: "'x multiset"
  assumes "Y + A \<subseteq># X + B" and "Z + C \<subseteq># Y + D"
  shows "Z + (A + C) \<subseteq># X + (B + D)"
proof -
  have "Z + C + A \<subseteq># Y + A + D" using assms(2) by (simp add: ac_simps)
  also have "\<dots> \<subseteq># X + B + D" using assms(1) by simp
  finally show ?thesis by (simp add: ac_simps)
qed

lemma flow_bound: "Z + A \<subseteq># X + B \<Longrightarrow> X = {#} \<Longrightarrow> A \<subseteq># B"
  by (rule subset_mset.order_trans [OF mset_subset_eq_add_right [of A Z]]) simp

text \<open>The list of spawned tasks changes in three kinds of steps only.\<close>

fun spawns :: "('bs, 'ss, 'rs, 'ep, 'hs, 'qc) rlabel \<Rightarrow> bool" where
  "spawns (RequestPacket i pkt addr) \<longleftrightarrow> True"
| "spawns (IncomingItem item) \<longleftrightarrow> True"
| "spawns (RunSpawned j m q_send open_uni) \<longleftrightarrow> True"
| "spawns _ \<longleftrightarrow> False"

lemma spawned_same:
  assumes "rstep L config l s = Some s'" and "\<not> spawns l"
  shows "r_spawned s' = r_spawned s"
  using assms(1)
proof (cases rule: rstep_cases)
  case (RequestConnects i open_bi)
  from RequestConnects(2) show ?thesis by (cases rule: request_connectsE) auto
qed (use assms(2) in \<open>auto elim!: rstep_elims simp: rpanic_def\<close>)

lemma spawned_item:
  assumes "incoming_item config item s = Some s'"
  obtains k next_rx d where "item = ItemDatagram d" "r_incoming s = Listening k next_rx"
      "r_spawned s' = r_spawned s @ [IncomingDatagram k d]"
  | k next_rx recv where "item = ItemUni recv" "r_incoming s = Listening k next_rx"
      "r_spawned s' = r_spawned s @ [IncomingUni k recv]"
  | "\<forall>d. item \<noteq> ItemDatagram d" "r_spawned s' = r_spawned s"
  using assms
  by (cases item; cases "config_mode config")
    (auto simp: incoming_item_def incoming_ends_def set_conn_def split: incoming_pc.splits prod.splits poll_next.splits)

lemma deliver_spawned [simp]: "r_spawned (deliver site res a s) = r_spawned s"
  by (auto simp: deliver_def relay_log_def rpanic_def split: outcome.split option.split)

lemma spawned_run:
  assumes "run_spawned L j m q_send open_uni s = Some s'"
  shows "j < length (r_spawned s)" "r_spawned s' = take j (r_spawned s) @ drop (Suc j) (r_spawned s)"
proof -
  show j: "j < length (r_spawned s)" using assms by (auto simp: run_spawned_def split: if_splits)
  show "r_spawned s' = take j (r_spawned s) @ drop (Suc j) (r_spawned s)"
    using assms j
    by (cases "r_spawned s ! j")
      (auto simp: run_spawned_def Let_def set_conn_def rpanic_def split: prod.splits outcome.splits)
qed

context client_env
begin

lemma send_packet_native_eq:
  "send_packet_native L q a pkt addr = conn_send_datagram q (packet_bytes (tuic_parcel (a, pkt, addr)))"
  using byte_buffer.extend_from_slice [OF vec_contract]
  by (simp add: send_packet_native_def write_command_buf Let_def del: encode_Command.simps Command_write_to_buf.simps)

abbreviation outgoing :: "nat \<Rightarrow> ('bs, 'rs) relay \<Rightarrow> bytes multiset" where
  "outgoing k s \<equiv> image_mset (packet_bytes \<circ> tuic_parcel) (waiting (spawned_packet k) s)"

text \<open>A packet goes out as a datagram or on a stream, not both.\<close>

abbreviation both_sent :: "nat \<Rightarrow> ('bs, 'ss, 'rs, 'ep, 'hs, 'qc) rlabel \<Rightarrow> ('bs, 'rs) relay \<Rightarrow> bytes multiset" where
  "both_sent k l s \<equiv> mset (label_sent L (Native ()) k l s) + mset (label_sent L (Quic ()) k l s)"

lemma sent_step:
  assumes "rstep L config l s = Some s'"
  shows "outgoing k s' + both_sent k l s \<subseteq># outgoing k s + image_mset (packet_bytes \<circ> tuic_parcel) (mset (label_given k l s))"
  using assms
proof (cases rule: rstep_cases)
  case (RequestPacket i pkt addr)
  from RequestPacket(2) show ?thesis
    by (cases rule: request_packetE)
      (auto simp: RequestPacket(1) request_at_def waiting_append simp del: packet_bytes.simps)
next
  case (IncomingItem item)
  from IncomingItem(2) show ?thesis
    by (cases rule: spawned_item) (auto simp: IncomingItem(1) waiting_append, auto simp: waiting_def)
next
  case (RunSpawned j m q_send open_uni)
  note run = spawned_run [OF RunSpawned(2)]
  from waiting_remove [OF run, of "spawned_packet k"] run(1) show ?thesis
    by (cases "r_spawned s ! j"; cases "cc_mode (r_conns s ! k)")
      (auto simp: RunSpawned(1) send_packet_native_eq conn_send_datagram_def simp del: packet_bytes.simps tuic_parcel.simps)
qed (use spawned_same [OF assms] in \<open>auto simp: waiting_def\<close>)

lemma sent_run:
  assumes "rrun L config ls s = Some s'"
  shows "outgoing k s' +
      (mset (along L config (label_sent L (Native ()) k) ls s) + mset (along L config (label_sent L (Quic ()) k) ls s)) \<subseteq>#
    outgoing k s + image_mset (packet_bytes \<circ> tuic_parcel) (mset (along L config (label_given k) ls s))"
  using assms
proof (induction ls arbitrary: s)
  case (Cons l ls)
  then obtain s1 where 1: "rstep L config l s = Some s1" and 2: "rrun L config ls s1 = Some s'" by (auto split: option.splits)
  have swap: "A + C + (B + D) = A + B + (C + D)" for A B C D :: "bytes multiset" by simp
  from flow_trans [OF sent_step [OF 1, of k] Cons.IH [OF 2]] show ?case
    unfolding along.simps 1 option.case mset_append image_mset_union swap .
qed simp

lemma sent_bound:
  assumes "rrun L config ls relay_init = Some s"
  shows "mset (along L config (label_sent L (Native ()) k) ls relay_init) +
      mset (along L config (label_sent L (Quic ()) k) ls relay_init) \<subseteq>#
    image_mset (packet_bytes \<circ> tuic_parcel) (mset (along L config (label_given k) ls relay_init))"
  by (rule flow_bound [OF sent_run [OF assms, of k]]) (simp add: waiting_def relay_init_def)

end

section \<open>Packets from the server\<close>

fun label_accepted :: "nat \<Rightarrow> ('bs, 'ss, 'rs, 'ep, 'hs, 'qc) rlabel \<Rightarrow> ('bs, 'rs) relay \<Rightarrow> 'rs incoming_event list" where
  "label_accepted k (IncomingItem item) s =
     (case r_incoming s of Listening c next_rx \<Rightarrow> if c = k then [item] else [] | _ \<Rightarrow> [])"
| "label_accepted k _ s = []"

fun delivered_parcel :: "'bs relay_event \<Rightarrow> client_parcel list" where
  "delivered_parcel (PacketDelivered a tx pkt addr) = [(a, pkt, addr)]"
| "delivered_parcel _ = []"

text \<open>The packets that a step delivers out of what came from connection \<open>k\<close>, read off the log.\<close>

fun incoming_of :: "'rs spawned \<Rightarrow> nat option" where
  "incoming_of (IncomingDatagram k d) = Some k"
| "incoming_of (IncomingUni k recv) = Some k"
| "incoming_of _ = None"

fun label_delivered ::
  "('bs, 'ss, 'rs) client_lib \<Rightarrow> nat \<Rightarrow> ('bs, 'ss, 'rs, 'ep, 'hs, 'qc) rlabel \<Rightarrow> ('bs, 'rs) relay \<Rightarrow> client_parcel list" where
  "label_delivered L k (RunSpawned j m q_send open_uni) s =
     (if j < length (r_spawned s) \<and> incoming_of (r_spawned s ! j) = Some k then
        (case run_spawned L j m q_send open_uni s of
           Some s' \<Rightarrow> concat (map delivered_parcel (drop (length (r_log s)) (r_log s')))
         | None \<Rightarrow> [])
      else [])"
| "label_delivered L k _ s = []"

definition parsed_parcel :: "(io_error, client_parcel) outcome \<Rightarrow> client_parcel list" where
  "parsed_parcel r = (case r of Ok p \<Rightarrow> [p] | _ \<Rightarrow> [])"

fun item_parcel :: "('bs, 'ss, 'rs) client_lib \<Rightarrow> 'rs incoming_event \<Rightarrow> client_parcel list" where
  "item_parcel L (ItemDatagram d) = parsed_parcel (parse_datagram L d)"
| "item_parcel L (ItemUni recv) = parsed_parcel (parse_uni_stream L recv)"
| "item_parcel L ItemEnd = []"

fun spawned_incoming :: "('bs, 'ss, 'rs) client_lib \<Rightarrow> nat \<Rightarrow> 'rs spawned \<Rightarrow> client_parcel list" where
  "spawned_incoming L k (IncomingDatagram c d) = (if c = k then parsed_parcel (parse_datagram L d) else [])"
| "spawned_incoming L k (IncomingUni c recv) = (if c = k then parsed_parcel (parse_uni_stream L recv) else [])"
| "spawned_incoming L k _ = []"

lemma deliver_parcels:
  assumes "r_log s0 = r_log s"
  shows "mset (concat (map delivered_parcel (drop (length (r_log s))
      (r_log (deliver site (process_incoming m parsed c) (parsed_assoc parsed) s0))))) \<subseteq># mset (parsed_parcel parsed)"
proof (cases parsed)
  case (Ok p)
  then obtain a pkt addr where "parsed = Ok (a, pkt, addr)" by (cases p) auto
  with assms show ?thesis
    by (auto simp: deliver_def process_incoming_def handle_packet_from_def parsed_assoc_def parsed_parcel_def relay_log_def
        split: option.split)
qed (simp_all add: assms deliver_def process_incoming_def rpanic_def)

lemma delivered_spawned:
  assumes run: "run_spawned L j m q_send open_uni s = Some s'" and k: "incoming_of (r_spawned s ! j) = Some k"
  shows "mset (concat (map delivered_parcel (drop (length (r_log s)) (r_log s')))) \<subseteq># mset (spawned_incoming L k (r_spawned s ! j))"
proof (cases "r_spawned s ! j")
  let ?s = "s\<lparr>r_spawned := take j (r_spawned s) @ drop (Suc j) (r_spawned s)\<rparr>"
  case (IncomingDatagram c d)
  with run k have "s' = deliver DatagramSlice (process_incoming m (parse_datagram L d) (r_conns s ! k))
      (parsed_assoc (parse_datagram L d)) ?s"
    by (auto simp: run_spawned_def process_incoming_datagram_def Let_def split: if_splits)
  with deliver_parcels [of ?s s] IncomingDatagram k show ?thesis by simp
next
  let ?s = "s\<lparr>r_spawned := take j (r_spawned s) @ drop (Suc j) (r_spawned s)\<rparr>"
  case (IncomingUni c recv)
  let ?c = "set_streams (drop_stream RecvStream (cc_streams (r_conns s ! k))) (r_conns s ! k)"
  from IncomingUni run k have "s' = deliver UniStream (process_incoming m (parse_uni_stream L recv) ?c)
      (parsed_assoc (parse_uni_stream L recv)) (set_conn k ?c ?s)"
    by (auto simp: run_spawned_def process_incoming_uni_stream_def Let_def split: if_splits)
  with deliver_parcels [of "set_conn k ?c ?s" s] IncomingUni k show ?thesis by (simp add: set_conn_def)
qed (use k in simp)

lemma delivered_step:
  assumes "rstep L config l s = Some s'"
  shows "waiting (spawned_incoming L k) s' + mset (label_delivered L k l s) \<subseteq>#
    waiting (spawned_incoming L k) s + mset (concat (map (item_parcel L) (label_accepted k l s)))"
  using assms
proof (cases rule: rstep_cases)
  case (RequestPacket i pkt addr)
  from RequestPacket(2) show ?thesis by (cases rule: request_packetE) (auto simp: RequestPacket(1) waiting_append)
next
  case (IncomingItem item)
  from IncomingItem(2) show ?thesis
  proof (cases rule: spawned_item)
    case 3
    then show ?thesis by (simp add: IncomingItem(1) waiting_def)
  qed (auto simp: IncomingItem(1) waiting_append)
next
  case (RunSpawned j m q_send open_uni)
  note run = spawned_run [OF RunSpawned(2)]
  from waiting_remove [OF run, of "spawned_incoming L k"] run(1) RunSpawned(2) delivered_spawned [OF RunSpawned(2), of k]
  show ?thesis by (auto simp: RunSpawned(1))
qed (use spawned_same [OF assms] in \<open>auto simp: waiting_def\<close>)

lemma delivered_run:
  assumes "rrun L config ls s = Some s'"
  shows "waiting (spawned_incoming L k) s' + mset (along L config (label_delivered L k) ls s) \<subseteq>#
    waiting (spawned_incoming L k) s + mset (concat (map (item_parcel L) (along L config (label_accepted k) ls s)))"
  using assms
proof (induction ls arbitrary: s)
  case (Cons l ls)
  then obtain s1 where 1: "rstep L config l s = Some s1" and 2: "rrun L config ls s1 = Some s'" by (auto split: option.splits)
  from flow_trans [OF delivered_step [OF 1, of k] Cons.IH [OF 2]] show ?case
    unfolding along.simps 1 option.case mset_append map_append concat_append .
qed simp

lemma delivered_bound:
  assumes "rrun L config ls relay_init = Some s"
  shows "mset (along L config (label_delivered L k) ls relay_init) \<subseteq>#
    mset (concat (map (item_parcel L) (along L config (label_accepted k) ls relay_init)))"
  by (rule flow_bound [OF delivered_run [OF assms, of k]]) (simp add: waiting_def relay_init_def)

end
