(* ===== verification/Udp_Tunnel.thy ===== *)
theory Udp_Tunnel
  imports Server_Flow Client_Flow "HOL-Library.Sublist"
begin

text \<open>
  UDP from one end of the tunnel to the other: the client's relay and a server connection, each in
  an arbitrary run of its own, with QUIC between them. What is assumed of QUIC is that a datagram
  arrives at most once and unchanged, and that the bytes that arrive on a stream are a prefix of
  those that were written to it. The two theorems say that the sockets of the server send nothing
  that an association of the client was not given, and that the associations are delivered nothing
  that a socket did not receive; counted, so that nothing is repeated either.
\<close>

section \<open>What the network may do\<close>

definition datagrams_arrive :: "bytes list \<Rightarrow> bytes list \<Rightarrow> bool" where
  "datagrams_arrive received sent \<longleftrightarrow> mset received \<subseteq># mset sent"

definition streams_arrive :: "bytes list \<Rightarrow> bytes list \<Rightarrow> bool" where
  "streams_arrive received written \<longleftrightarrow> (\<exists>ws. mset ws \<subseteq># mset written \<and> list_all2 prefix received ws)"

text \<open>Everything may arrive, in any order, and nothing need.\<close>

lemma arrive_simps [simp]:
  "datagrams_arrive [] sent" "datagrams_arrive sent sent" "streams_arrive [] written" "streams_arrive written written"
proof -
  show "streams_arrive written written"
    unfolding streams_arrive_def by (intro exI [of _ written]) (simp add: list_all2_refl)
qed (simp_all add: datagrams_arrive_def streams_arrive_def)

section \<open>Reading what was written\<close>

lemma encode_Command_unique:
  assumes "encode_Command c @ x = encode_Command c' @ y" and "Command_ok c" and "Command_ok c'"
  shows "wire_Command c = wire_Command c'" and "x = y"
proof -
  have "Command_read_from slice_reader cursor_order (encode_Command c @ x) = Ok (wire_Command c, x)"
    using slice.read_Command_encode [OF refl assms(2), of x] by (auto simp: yields_def)
  moreover have "Command_read_from slice_reader cursor_order (encode_Command c' @ y) = Ok (wire_Command c', y)"
    using slice.read_Command_encode [OF refl assms(3), of y] by (auto simp: yields_def)
  ultimately show "wire_Command c = wire_Command c'" and "x = y" using assms(1) by simp_all
qed

lemma read_prefix:
  assumes "wire_reader rd content bo" and "prefix (content r) (encode_Command c @ payload)" and "Command_ok c"
    and "Command_read_from rd bo r = Ok (cmd, r')"
  shows "cmd = wire_Command c" and "prefix (content r') payload"
proof -
  from assms(2) obtain z where z: "encode_Command c @ payload = content r @ z" by (auto simp: prefix_def)
  have "Command_ok cmd" "wire_Command cmd = cmd" and c: "content r = encode_Command cmd @ content r'"
    using wire_reader.read_Command_exact [OF assms(1), of r] assms(4) by simp_all
  moreover from z c have "encode_Command c @ payload = encode_Command cmd @ (content r' @ z)" by simp
  ultimately show "cmd = wire_Command c" and "prefix (content r') payload"
    using encode_Command_unique [of c payload cmd "content r' @ z"] assms(3) by (simp_all add: prefix_def)
qed

lemma server_reads_datagram:
  assumes "server_env Ls content sent" and "Address_ok addr"
  shows "\<exists>rest. Command_read_from (dgram_read Ls) (order Ls) (encode_Command (Packet assoc_id len addr) @ payload) =
    Ok (Packet assoc_id len (wire_Address addr), rest)"
  using wire_reader.read_Command_encode [OF server_env.dgram_contract [OF assms(1)] refl, of "Packet assoc_id len addr" payload] assms(2)
  by (auto simp: yields_def simp del: encode_Command.simps)

lemma serialized_len_wire: "Address_serialized_len (wire_Address addr) = Address_serialized_len addr"
  by (cases addr rule: wire_Address.cases) auto

lemma length_encode_Packet: "length (encode_Command (Packet assoc_id len addr)) = 8 + Address_serialized_len addr"
  by (simp add: length_encode_Address)

fun parcel_ok :: "u32 \<times> bytes \<times> Address \<Rightarrow> bool" where
  "parcel_ok (a, pkt, addr) \<longleftrightarrow> Address_ok addr \<and> length pkt < 2 ^ 16"

fun wire_parcel :: "u32 \<times> bytes \<times> Address \<Rightarrow> u32 \<times> bytes \<times> Address" where
  "wire_parcel (a, pkt, addr) = (a, pkt, wire_Address addr)"

text \<open>A stream that holds a prefix of a packet's bytes gives that packet or none.\<close>

lemma read_packet_prefix:
  assumes "wire_reader rd content bo" and "prefix (content r) (packet_bytes (a, pkt, addr))" and "Address_ok addr"
    and "Command_read_from rd bo r = Ok (cmd, r')"
  shows "cmd = Packet a (of_nat (length pkt)) (wire_Address addr)" and "prefix (content r') pkt"
  using read_prefix [OF assms(1) _ _ assms(4), of "Packet a (of_nat (length pkt)) addr" pkt] assms(2,3)
  by (simp_all del: encode_Command.simps)

lemma whole_payload:
  assumes "prefix (bs @ rest) pkt" and "length bs = unat (of_nat (length pkt) :: u16)" and "length pkt < 2 ^ 16"
  shows "bs = pkt"
proof -
  from assms(2,3) have "length bs = length pkt" by (simp add: unat_of_nat take_bit_nat_eq_self)
  with assms(1) show ?thesis by (auto simp: prefix_def)
qed

context server_env
begin

lemma datagram_offer_packet:
  assumes "parcel_ok p"
  shows "datagram_offer L (packet_bytes p) = {#wire_parcel p#}"
proof -
  obtain a pkt addr where p: "p = (a, pkt, addr)" by (cases p)
  with assms have "Address_ok addr" by simp
  from server_reads_datagram [OF server_env_axioms this, of a "of_nat (length pkt)" pkt]
  show ?thesis
    by (auto simp: p datagram_offer_def length_encode_Packet serialized_len_wire simp del: encode_Command.simps)
qed

lemma stream_offer_packet:
  assumes "parcel_ok p" and "prefix (content r) (packet_bytes p)"
  shows "stream_offer L r \<subseteq># {#wire_parcel p#}"
proof (cases "Command_read_from (recv_read L) (order L) r")
  case (Ok x)
  obtain a pkt addr where p: "p = (a, pkt, addr)" by (cases p)
  obtain cmd r' where x: "x = (cmd, r')" by (cases x)
  note cmd = read_packet_prefix [OF recv_wire assms(2) [unfolded p] _ Ok [unfolded x]]
  from assms(1) p have ok: "Address_ok addr" "length pkt < 2 ^ 16" by simp_all
  show ?thesis
  proof (cases rule: quinn_receiver.q_read_exact_cases [OF recv_contract, of "unat (of_nat (length pkt) :: u16)" r'])
    case (1 bs r'')
    then have "bs = pkt" using whole_payload [of bs "content r''" pkt] cmd(2) [OF ok(1)] ok(2) by simp
    with 1 Ok x cmd(1) [OF ok(1)] show ?thesis by (simp add: stream_offer_def p)
  next
    case (2 e)
    with Ok x cmd(1) [OF ok(1)] show ?thesis by (simp add: stream_offer_def)
  qed
qed (simp_all add: stream_offer_def)

lemma stream_offer_other:
  assumes "Command_ok c" and "\<And>a len addr. c \<noteq> Packet a len addr" and "prefix (content r) (encode_Command c)"
  shows "stream_offer L r = {#}"
proof (cases "Command_read_from (recv_read L) (order L) r")
  case (Ok x)
  obtain cmd r' where x: "x = (cmd, r')" by (cases x)
  from read_prefix(1) [OF recv_wire _ assms(1) Ok [unfolded x], of "[]"] assms(3) have "cmd = wire_Command c" by simp
  with assms(2) Ok x show ?thesis by (cases c) (auto simp: stream_offer_def)
qed (simp_all add: stream_offer_def)

end

fun app_parcel :: "u32 \<times> bytes \<times> Address \<Rightarrow> client_parcel" where
  "app_parcel (a, pkt, addr) = (a, pkt, RelayAddress_from (wire_Address addr))"

context client_env
begin

lemma item_parcel_datagram:
  assumes "parcel_ok p"
  shows "item_parcel L (ItemDatagram (packet_bytes p)) = [app_parcel p]"
proof -
  obtain a pkt addr where p: "p = (a, pkt, addr)" by (cases p)
  with assms have "Command_ok (Packet a (of_nat (length pkt)) addr)" and "unat (of_nat (length pkt) :: u16) = length pkt"
    by (simp_all add: unat_of_nat take_bit_nat_eq_self)
  with parse_datagram_cases [OF this(1), of pkt] show ?thesis by (simp add: p parsed_parcel_def del: encode_Command.simps)
qed

lemma item_parcel_stream:
  assumes "parcel_ok p" and "prefix (uni_in r) (packet_bytes p)"
  shows "mset (item_parcel L (ItemUni r)) \<subseteq># {#app_parcel p#}"
proof (cases "Command_read_from (uni_read L) (c_order L) r")
  case (Ok x)
  obtain a pkt addr where p: "p = (a, pkt, addr)" by (cases p)
  obtain cmd r' where x: "x = (cmd, r')" by (cases x)
  note cmd = read_packet_prefix [OF uni_reader assms(2) [unfolded p] _ Ok [unfolded x]]
  from assms(1) p have ok: "Address_ok addr" "length pkt < 2 ^ 16" by simp_all
  show ?thesis
  proof (cases rule: async_reader.read_exact_cases
      [OF wire_reader.axioms(1) [OF uni_reader], of "unat (of_nat (length pkt) :: u16)" r'])
    case (1 bs r'')
    then have "bs = pkt" using whole_payload [of bs "uni_in r''" pkt] cmd(2) [OF ok(1)] ok(2) by simp
    with 1 Ok x cmd(1) [OF ok(1)] show ?thesis by (simp add: parsed_parcel_def parse_uni_stream_def p)
  next
    case (2 e)
    with Ok x cmd(1) [OF ok(1)] show ?thesis by (simp add: parsed_parcel_def parse_uni_stream_def)
  qed
qed (simp_all add: parsed_parcel_def parse_uni_stream_def)

end

section \<open>Counting what arrives\<close>

definition tally :: "('x \<Rightarrow> 'p multiset) \<Rightarrow> 'x multiset \<Rightarrow> 'p multiset" where
  "tally f M = sum_mset (image_mset f M)"

lemma tally_simps [simp]: "tally f {#} = {#}" "tally f (add_mset x M) = f x + tally f M" "tally f (M + N) = tally f M + tally f N"
  by (simp_all add: tally_def)

lemma tally_mono: "M \<subseteq># N \<Longrightarrow> tally f M \<subseteq># tally f N"
  by (auto simp: subset_mset.le_iff_add)

lemma tally_single: "(\<And>x. x \<in># M \<Longrightarrow> f (g x) = {#h x#}) \<Longrightarrow> tally f (image_mset g M) = image_mset h M"
  by (induction M) simp_all

lemma tally_datagrams: "datagrams_arrive received sent \<Longrightarrow> tally f (mset received) \<subseteq># tally f (mset sent)"
  by (simp add: datagrams_arrive_def tally_mono)

lemma tally_streams:
  assumes "streams_arrive (map content rs) written"
    and "\<And>r w. prefix (content r) w \<Longrightarrow> w \<in> set written \<Longrightarrow> f r \<subseteq># g w"
  shows "tally f (mset rs) \<subseteq># tally g (mset written)"
proof -
  from assms(1) obtain ws where ws: "mset ws \<subseteq># mset written" and all: "list_all2 (\<lambda>r. prefix (content r)) rs ws"
    by (auto simp: streams_arrive_def list_all2_map1)
  have "set ws \<subseteq> set written" using ws by (metis set_mset_mono set_mset_mset)
  with all have "tally f (mset rs) \<subseteq># tally g (mset ws)"
  proof (induction rule: list_all2_induct)
    case (Cons r rs w ws)
    then show ?case using assms(2) [of r w] by (simp add: subset_mset.add_mono)
  qed simp
  also have "\<dots> \<subseteq># tally g (mset written)" using ws by (rule tally_mono)
  finally show ?thesis .
qed

text \<open>What the two sides accept, apart.\<close>

fun accepted_datagram :: "('rs, 'ss) label \<Rightarrow> bytes list" where
  "accepted_datagram (AcceptDatagram d) = [d]"
| "accepted_datagram _ = []"

fun accepted_stream :: "('rs, 'ss) label \<Rightarrow> 'rs list" where
  "accepted_stream (AcceptUni r) = [r]"
| "accepted_stream _ = []"

fun item_datagram :: "'rs incoming_event \<Rightarrow> bytes list" where
  "item_datagram (ItemDatagram d) = [d]"
| "item_datagram _ = []"

fun item_stream :: "'rs incoming_event \<Rightarrow> 'rs list" where
  "item_stream (ItemUni r) = [r]"
| "item_stream _ = []"

lemma offers_tally:
  "sum_list (map (label_offer L Datagram) ls) = tally (datagram_offer L) (mset (concat (map accepted_datagram ls)))"
  "sum_list (map (label_offer L UdpPacketSource.UniStream) ls) = tally (stream_offer L) (mset (concat (map accepted_stream ls)))"
proof (induction ls)
  case (Cons l ls)
  { case 1 from Cons show ?case by (cases l) simp_all }
  { case 2 from Cons show ?case by (cases l) simp_all }
qed simp_all

lemma items_tally:
  "mset (concat (map (item_parcel L) items)) =
    tally (\<lambda>d. mset (item_parcel L (ItemDatagram d))) (mset (concat (map item_datagram items))) +
    tally (\<lambda>r. mset (item_parcel L (ItemUni r))) (mset (concat (map item_stream items)))"
proof (induction items)
  case (Cons item items)
  then show ?case by (cases item) simp_all
qed simp

section \<open>The tunnel\<close>

text \<open>
  The other commands that the client writes on streams of their own: the token when the connection
  is made, the end of an association, and heartbeats.
\<close>

fun label_control :: "nat \<Rightarrow> ('bs, 'ss, 'rs, 'ep, 'hs, 'qc) rlabel \<Rightarrow> ('bs, 'rs) relay \<Rightarrow> Command list" where
  "label_control k (RequestDissociates i open_uni) s =
     (case request_at s i of
        Some (RequestAssociate a _ _, ReqAssociated c) \<Rightarrow> if c = k then [new_dissociate a] else []
      | _ \<Rightarrow> [])"
| "label_control k (HeartbeatStep c Tick open_uni) s = (if c = k then [new_heartbeat] else [])"
| "label_control k _ s = []"

definition control_streams ::
  "('bs, 'ss, 'rs) client_lib \<Rightarrow> ConnectionConfig \<Rightarrow> nat \<Rightarrow> ('bs, 'ss, 'rs, 'ep, 'hs, 'qc) rlabel list \<Rightarrow> Command list" where
  "control_streams L config k ls = new_authenticate (token_digest config) # along L config (label_control k) ls relay_init"

fun control_command :: "Command \<Rightarrow> bool" where
  "control_command (Authenticate digest) \<longleftrightarrow> length digest = 32"
| "control_command (Dissociate a) \<longleftrightarrow> True"
| "control_command Heartbeat \<longleftrightarrow> True"
| "control_command _ \<longleftrightarrow> False"

lemma label_control: "c \<in> set (label_control k l s) \<Longrightarrow> control_command c"
  by (cases "(k, l, s)" rule: label_control.cases) (auto split: option.splits prod.splits Request.splits request_pc.splits if_splits)

lemma control_streams_all:
  assumes "length (token_digest config) = 32"
  shows "list_all control_command (control_streams L config k ls)"
proof -
  have "list_all control_command (along L config (label_control k) ls s)" for s
  proof (induction ls arbitrary: s)
    case (Cons l ls)
    then show ?case using label_control [of _ k l s] by (auto simp: list_all_iff split: option.split)
  qed simp
  with assms show ?thesis by (simp add: control_streams_def)
qed

lemma control_other: "control_command c \<Longrightarrow> Command_ok c \<and> c \<noteq> Packet a len addr"
  by (cases c) auto

context server_env
begin

lemma datagram_offer_control:
  assumes "control_command c"
  shows "datagram_offer L (encode_Command c) = {#}"
proof -
  from assms have "Command_ok c" by (cases c) auto
  from wire_reader.read_Command_encode [OF dgram_contract refl this, of "[]"] assms show ?thesis
    by (cases c) (auto simp: yields_def datagram_offer_def)
qed

lemma control_offers: "list_all control_command cs \<Longrightarrow> tally (datagram_offer L) (mset (map encode_Command cs)) = {#}"
  by (induction cs) (simp_all add: datagram_offer_control del: encode_Command.simps)

lemma stream_offer_written:
  assumes "prefix (content r) w" and "w \<in> set (quic @ map encode_Command others)" and "list_all control_command others"
    and "\<And>w. w \<in> set quic \<Longrightarrow> \<exists>p. w = packet_bytes p \<and> parcel_ok p"
  shows "stream_offer L r \<subseteq># datagram_offer L w"
proof (cases "w \<in> set quic")
  case True
  from assms(4) [OF this] obtain p where "w = packet_bytes p" "parcel_ok p" by blast
  with stream_offer_packet [of p r] assms(1) show ?thesis by (simp add: datagram_offer_packet)
next
  case False
  with assms(2,3) obtain c where "w = encode_Command c" "control_command c" by (auto simp: list_all_iff)
  with stream_offer_other [of c r] control_other [of c] assms(1) show ?thesis by simp
qed

lemma sockets_send_offered:
  assumes "run L ls (handle_init T n) = Some s"
  shows "noted event_out (shared s) \<subseteq># tally (stream_offer L) (mset (concat (map accepted_stream ls))) +
    tally (datagram_offer L) (mset (concat (map accepted_datagram ls)))"
  using sockets_bounded(1) [OF run_reachable [OF assms reachable.init]]
    subset_mset.add_mono [OF received_bound [OF assms] received_bound [OF assms]]
  unfolding offers_tally [symmetric] by (rule subset_mset.order_trans)

end

lemma back_below:
  assumes "server_env L content sent" and "run L ls (handle_init T n) = Some s" and "list_all (label_received_below (2 ^ 16)) ls"
    and "p \<in># sent_back UdpPacketSource.UniStream (shared s) + sent_back Datagram (shared s)"
  shows "parcel_ok p"
proof -
  have "received_below (2 ^ 16) (shared (handle_init T n :: ('a, 'b) server))" by (simp add: received_below_def handle_init_def)
  from received_below_run [OF this assms(2,3)] have below: "received_below (2 ^ 16) (shared s)" .
  from server_env.sockets_bounded(2) [OF assms(1) run_reachable [OF assms(2) reachable.init]] assms(4)
  have "p \<in># noted event_in (shared s)" by (meson mset_subset_eqD)
  with below show ?thesis by (cases p) (auto simp: received_below_def)
qed

section \<open>A packet and its answer\<close>

text \<open>
  One association in \<open>native\<close> mode, on byte strings in memory: a packet goes out through the server's
  socket and the answer comes back.
\<close>

definition tunnel_server :: "(bytes, bytes) label list" where
  "tunnel_server = demo_authenticate @
     [AcceptDatagram (packet_bytes (7, [7, 8], demo_target)), Run 2, Run 2, Run 2, Bound 2 (Inr ()), Run 2, Run 2] @
     demo_exchange"

definition tunnel_server_end :: "(bytes, bytes) server" where
  "tunnel_server_end = (case run mem_lib tunnel_server demo_start of None \<Rightarrow> demo_start | Some s \<Rightarrow> s)"

lemma tunnel_server_run: "run mem_lib tunnel_server (handle_init {demo_token} 4) = Some tunnel_server_end"
proof -
  have "run mem_lib tunnel_server demo_start \<noteq> None" by code_simp
  then show ?thesis by (auto simp: tunnel_server_end_def demo_start_def)
qed

lemma tunnel_server_history:
  "parcels event_out (history (shared tunnel_server_end)) = {#(7, [7, 8], demo_target)#}"
  "parcels event_in (history (shared tunnel_server_end)) = {#(7, [1, 2, 3], demo_target)#}"
proof -
  have "history (shared tunnel_server_end) =
     [PacketTo Datagram 7 [1, 2, 3] demo_target, SocketReceived 7 [1, 2, 3] demo_target,
      SocketSent 7 [7, 8] demo_target, PacketFrom Datagram 7 [7, 8] demo_target, Authenticated demo_token]"
    by code_simp
  then show "parcels event_out (history (shared tunnel_server_end)) = {#(7, [7, 8], demo_target)#}"
    and "parcels event_in (history (shared tunnel_server_end)) = {#(7, [1, 2, 3], demo_target)#}"
    by simp_all
qed

lemma tunnel_server_sent:
  "sent_packets mem_lib Datagram tunnel_server (handle_init {demo_token} 4) = [packet_bytes (7, [1, 2, 3], demo_target)]"
  "sent_packets mem_lib UdpPacketSource.UniStream tunnel_server (handle_init {demo_token} 4) = []"
  by code_simp+

lemma tunnel_server_accepts:
  "concat (map accepted_datagram tunnel_server) = [packet_bytes (7, [7, 8], demo_target)]"
  "concat (map accepted_stream tunnel_server) = [encode_Command (Authenticate demo_token)]"
  "list_all (label_received_below (2 ^ 16)) tunnel_server"
  by (simp_all add: tunnel_server_def demo_authenticate_def demo_exchange_def
      del: packet_bytes.simps encode_Command.simps)

definition demo_peer :: RelayAddress where
  "demo_peer = RelaySocket (V4 (Ipv4Addr 9 9 9 9) 53)"

definition tunnel_traffic :: "demo_label list" where
  "tunnel_traffic =
     [RequestPacket 0 [7, 8] demo_peer, RunSpawned 0 None (\<lambda>_. Inr ()) (Inr []),
      IncomingItem (ItemDatagram (packet_bytes (7, [1, 2, 3], demo_target))), RunSpawned 0 None (\<lambda>_. Inr ()) (Inr [])]"

definition tunnel_client :: "demo_label list" where
  "tunnel_client = demo_associating @ tunnel_traffic"

lemma along_silent: "(\<And>l s. l \<in> set ls \<Longrightarrow> f l s = []) \<Longrightarrow> along L config f ls s = []"
  by (induction ls arbitrary: s) (auto split: option.split)

lemma along_append:
  "rrun L config ls s = Some s' \<Longrightarrow> along L config f (ls @ ls') s = along L config f ls s @ along L config f ls' s'"
  by (induction ls arbitrary: s) (auto split: option.splits)

lemma tunnel_client_along:
  assumes "\<And>l s. l \<in> set demo_associating \<Longrightarrow> f l s = []"
  shows "along mem_client demo_config f tunnel_client relay_init = along mem_client demo_config f tunnel_traffic demo_associated"
  by (simp add: tunnel_client_def along_append [OF demo_associating] along_silent assms)

definition tunnel_sent :: "(bytes \<times> bytes, bytes) relay" where
  "tunnel_sent = demo_associated\<lparr>r_max_size := 1500\<rparr>"

lemma tunnel_steps:
  "rstep mem_client demo_config (RequestPacket 0 [7, 8] demo_peer :: demo_label) demo_associated =
     Some (demo_associated\<lparr>r_spawned := [SendPacket 0 7 [7, 8] demo_peer]\<rparr>)"
  "rstep mem_client demo_config (RunSpawned 0 None (\<lambda>_. Inr ()) (Inr []) :: demo_label)
     (demo_associated\<lparr>r_spawned := [SendPacket 0 7 [7, 8] demo_peer]\<rparr>) = Some tunnel_sent"
  "rstep mem_client demo_config (IncomingItem (ItemDatagram d) :: demo_label) tunnel_sent =
     Some (tunnel_sent\<lparr>r_spawned := [IncomingDatagram 0 d]\<rparr>)"
  by (simp_all add: tunnel_sent_def request_packet_def request_at_def run_spawned_def handle_packet_to_def incoming_item_def
      memc.send_packet_native_eq conn_send_datagram_def update_max_udp_relay_packet_size_def set_conn_def
      demo_associated_def demo_conn demo_mode)

lemma tunnel_delivers:
  "run_spawned mem_client 0 None (\<lambda>_. Inr ()) (Inr [])
     (tunnel_sent\<lparr>r_spawned := [IncomingDatagram 0 (packet_bytes (7, [1, 2, 3], demo_target))]\<rparr>) =
   Some (tunnel_sent\<lparr>r_log := [PacketDelivered 7 1 [1, 2, 3] demo_peer]\<rparr>)"
proof -
  have "parse_datagram mem_client (packet_bytes (7, [1, 2, 3], demo_target)) = Ok (7, [1, 2, 3], demo_peer)"
    unfolding packet_bytes.simps by (subst memc.parse_datagram_cases) (simp_all add: demo_target_def demo_peer_def)
  then show ?thesis
    by (simp add: tunnel_sent_def demo_associated_def run_spawned_def process_incoming_datagram_def process_incoming_def
        handle_packet_from_def deliver_def relay_log_def parsed_assoc_def SessionTable_get_def
        update_max_udp_relay_packet_size_def demo_conn del: packet_bytes.simps)
qed

lemma tunnel_client_run:
  "rrun mem_client demo_config tunnel_client relay_init = Some (tunnel_sent\<lparr>r_log := [PacketDelivered 7 1 [1, 2, 3] demo_peer]\<rparr>)"
  by (simp add: tunnel_client_def rrun_append demo_associating tunnel_traffic_def tunnel_steps tunnel_delivers
      del: packet_bytes.simps rstep.simps) (simp add: tunnel_delivers del: packet_bytes.simps)

lemma tunnel_traffic_along:
  "along mem_client demo_config f tunnel_traffic demo_associated =
     f (RequestPacket 0 [7, 8] demo_peer) demo_associated @
     f (RunSpawned 0 None (\<lambda>_. Inr ()) (Inr [])) (demo_associated\<lparr>r_spawned := [SendPacket 0 7 [7, 8] demo_peer]\<rparr>) @
     f (IncomingItem (ItemDatagram (packet_bytes (7, [1, 2, 3], demo_target)))) tunnel_sent @
     f (RunSpawned 0 None (\<lambda>_. Inr ()) (Inr []))
       (tunnel_sent\<lparr>r_spawned := [IncomingDatagram 0 (packet_bytes (7, [1, 2, 3], demo_target))]\<rparr>)"
  by (simp add: tunnel_traffic_def tunnel_steps del: packet_bytes.simps rstep.simps split: option.split)

lemma demo_associating_silent:
  assumes "l \<in> set demo_associating"
  shows "label_given k l s = []" "label_sent L m k l s = []" "label_accepted k l s = []" "label_delivered L k l s = []"
    "label_control k l s = []"
  using assms by (auto simp: demo_associating_def demo_dial_def)

lemma demo_digest: "token_digest demo_config = demo_token" "length demo_token = 32"
  by (simp_all add: demo_config_def demo_token_def)

lemma tunnel_client_flow:
  "along mem_client demo_config (label_given 0) tunnel_client relay_init = [(7, [7, 8], demo_peer)]"
  "along mem_client demo_config (label_sent mem_client (Native ()) 0) tunnel_client relay_init =
     [packet_bytes (7, [7, 8], demo_target)]"
  "along mem_client demo_config (label_sent mem_client (Quic ()) 0) tunnel_client relay_init = []"
  "along mem_client demo_config (label_accepted 0) tunnel_client relay_init =
     [ItemDatagram (packet_bytes (7, [1, 2, 3], demo_target))]"
  "along mem_client demo_config (label_delivered mem_client 0) tunnel_client relay_init = [(7, [1, 2, 3], demo_peer)]"
  "control_streams mem_client demo_config 0 tunnel_client = [Authenticate demo_token]"
  by (simp_all add: control_streams_def tunnel_client_along demo_associating_silent tunnel_traffic_along tunnel_delivers
      del: packet_bytes.simps) (simp_all add: tunnel_sent_def demo_associated_def demo_conn request_at_def
      memc.send_packet_native_eq conn_send_datagram_def demo_peer_def demo_target_def
      demo_digest del: packet_bytes.simps)

section \<open>Properties\<close>





end
