(* ===== verification/Spec2Isabelle.thy ===== *)
theory Spec2Isabelle
  imports Protocol Address_Order Server_Wakeup Server_Progress Server_Spec Server_Shutdown Server_Main
    Client_Progress Stream_Polls Client_Main Udp_Tunnel
begin

text \<open>
  TUIC: a proxy over QUIC. A local program speaks SOCKS5 to the client (\<open>client/\<close>), which relays
  TCP connections and UDP packets over one QUIC connection to the server (\<open>server/\<close>), which opens
  the connections and sockets at the far end. Client and server share the encoding of commands
  and addresses (\<open>protocol/\<close>). This development models the three crates and proves what they
  promise each other; this theory has the header and the properties that need both sides.

  \<^bold>\<open>Conventions.\<close> A fallible Rust function gives an \<open>outcome\<close>: \<open>Ok\<close>, \<open>Err\<close> (what \<open>?\<close> propagates) or
  \<open>Panic\<close>. Fixed-width integers are words and wrap; \<open>usize\<close> is the 64-bit one, as a natural
  number whose subtraction panics or wraps by the build's \<open>overflow_checks\<close>. A crate outside the
  repository is a record of operations that definitions take as an argument, and its documented
  behaviour is a locale. Each of these locales is interpreted on an implementation over byte
  lists, on which the examples run. Concurrent code is a step function on labels: a task runs from
  one \<open>await\<close>, or one access to shared state, to the next, and reachability is over all label
  sequences. All recursion is on data; there is no fuel. A loop that waits for the network is a
  function of the rounds that have happened, or a task that takes one step per label.

  \<^bold>\<open>Shared ground.\<close>
  \<^item> \<open>Prelude\<close>, \<open>Rust_Std\<close>, \<open>Rust_Parse\<close>: outcomes, integers, big-endian bytes; strings, decimal
    printing, UTF-8 validation, socket addresses; \<open>str::parse\<close> for integers and IP addresses.
  \<^item> \<open>Io_Interfaces\<close>: tokio, byteorder, bytes and quinn as locales (\<open>async_reader\<close>, \<open>big_endian\<close>,
    \<open>wire_reader\<close>, \<open>byte_buffer\<close>, \<open>byte_writer\<close>, \<open>quinn_sender\<close>, \<open>quinn_receiver\<close>).
  \<^item> \<open>Config_Interfaces\<close>: getopts, serde_json, PEM files, and how one setting overrides another.

  \<^bold>\<open>Protocol\<close> (\<open>protocol/src/lib.rs\<close>, theory \<open>Protocol\<close>). \<open>Command_read_from\<close>, \<open>Command_write_to_buf\<close>,
  \<open>Command_serialized_len\<close> and the same for \<open>Address\<close>, generic in reader and buffer. The lemmas:
  reading inverts writing and writing inverts reading, lengths and their maximum, prefixes and
  bad bytes are refused, no input panics. \<open>wire_Address\<close> is what survives the wire: an IPv6
  address loses flow label and scope id. Theory \<open>Address_Order\<close> has the derived order of addresses.

  \<^bold>\<open>Server.\<close>
  \<^item> \<open>Server_Auth\<close> (\<open>connection/authenticate.rs\<close>, \<open>IsClosed\<close> of \<open>connection/mod.rs\<close>): the two futures.
  \<^item> \<open>Server_Udp\<close> (\<open>connection/udp.rs\<close>): the mode cell, the session table, the session loops.
  \<^item> \<open>Server_Task\<close> (\<open>connection/task.rs\<close>): the relay tasks.
  \<^item> \<open>Server_Dispatch\<close> (\<open>connection/dispatch.rs\<close>): from a stream or datagram to its task; locale
    \<open>server_env\<close> collects what is relied on of quinn.
  \<^item> \<open>Server_Connection\<close> (\<open>connection/mod.rs\<close>): a connection with all its tasks, \<open>step\<close> and
    \<open>reachable\<close>.
  \<^item> \<open>Server_Safety\<close>: invariants over all interleavings: nothing is relayed before a valid token,
    every event has its cause, the UDP mode is fixed, sessions do not mix, no task panics.
  \<^item> \<open>Server_Wakeup\<close>: who wakes whom: a token wakes every parked task; two ways to stay parked.
  \<^item> \<open>Server_Progress\<close>: once the authentication is decided, every task ends within six turns and is
    never stuck on its own; a UDP session whose socket refused a packet is dead for its id.
  \<^item> \<open>Server_Spec\<close>: the connection without its tasks, a machine over events that keeps the accepted
    token, the UDP mode and the multisets of packets on their way; the connection implements it.
  \<^item> \<open>Server_Shutdown\<close>: when the connection and its tasks are over, the session table is dropped and
    every UDP session ends within two turns.
  \<^item> \<open>Server_Config\<close>, \<open>Server_Main\<close> (\<open>config.rs\<close>, \<open>certificate.rs\<close>, \<open>server.rs\<close>, \<open>main.rs\<close>): from the
    command line to the connections that are served.

  \<^bold>\<open>Client.\<close>
  \<^item> \<open>Client_Types\<close> (\<open>relay/address.rs\<close>, types of \<open>relay/mod.rs\<close>).
  \<^item> \<open>Client_Stream\<close> (\<open>relay/stream.rs\<close>): the register whose reference count is the number of open
    stream halves, plus one; the count is shown to be exact.
  \<^item> \<open>Client_Connection\<close> (\<open>relay/connection.rs\<close>): session table (locale \<open>session_table\<close>), closed flag,
    connecting, authentication, heartbeat; locale \<open>client_env\<close> for quinn and tokio.
  \<^item> \<open>Client_Task\<close> (\<open>relay/task.rs\<close>, parsers of \<open>relay/incoming.rs\<close>), \<open>Client_Request\<close>
    (\<open>relay/request.rs\<close>).
  \<^item> \<open>Client_Relay\<close>: \<open>manage_connection\<close>, \<open>listen_requests\<close>, \<open>process_request\<close>, \<open>listen_incoming\<close> and
    the tasks they start as one system, \<open>rstep\<close> and \<open>rreachable\<close>. The record \<open>relay\<close> has the mutex
    (\<open>r_holder\<close>, \<open>r_slot\<close>), the manager's guard, the connections made so far, the channels to the
    listener, the requests with their program counters, and the log of what was handed out.
  \<^item> \<open>Client_Safety\<close>: the mutex, channel, count and table invariants; the \<open>unwrap\<close>s that the source
    comments as safe are safe; one open connection; exact session tables.
  \<^item> \<open>Client_Wakeup\<close>: undisturbed polls lose no wake-up; disturbed ones can, with a run for each.
  \<^item> \<open>Client_Progress\<close>: every connect request is answered exactly once; a request ends within four
    turns besides its packets; no reference to a connection or channel dangles.
  \<^item> \<open>Client_Socks5\<close> (\<open>socks5/\<close>): accept loop and handlers; replies, packet order, buffer size.
  \<^item> \<open>Client_Config\<close>, \<open>Client_Main\<close> (\<open>config.rs\<close>, \<open>certificate.rs\<close>, \<open>main.rs\<close>).

  \<^bold>\<open>Polls\<close> (theory \<open>Stream_Polls\<close>; \<open>relay/stream.rs\<close> and \<open>BiStream\<close> of \<open>connection/task.rs\<close>): the
  \<open>AsyncRead\<close> and \<open>AsyncWrite\<close> implementations of the stream wrappers. Locale \<open>duplex\<close> says that reads
  and writes touch one half each; it is interpreted on both wrappers, which therefore answer every
  sequence of polls as the two streams of quinn would.

  \<^bold>\<open>The tunnel.\<close> Both machines keep every packet apart, so what goes through them can be counted.
  \<^item> \<open>Server_Flow\<close>: packets in accepted datagrams and streams bound what comes from the client; what
    is handed to quinn is exactly what goes back.
  \<^item> \<open>Client_Flow\<close>: what is handed to quinn carries packets that associations were given, what is
    delivered was in datagrams and streams that arrived, each at most once.
  \<^item> \<open>Udp_Tunnel\<close>: any run of the relay against any run of a server connection. QUIC is assumed to
    deliver datagrams at most once and unchanged, and a prefix of each stream
    (\<open>datagrams_arrive\<close>, \<open>streams_arrive\<close>). The server's sockets then send at most what the
    associations were given, and the associations get at most what the sockets received.

  \<^bold>\<open>Both sides\<close> (this theory): the token from two command lines to the decision, one UDP packet in
  either direction and mode, and a TCP connect from the request to the answer.

  \<^bold>\<open>Bounds.\<close> Payloads that cross on a stream or through the tunnel are assumed to be shorter
  than \<open>2 ^ 16\<close> where the statement says so, because the length field has 16 bits and the code truncates. The channels
  between tasks hold one element, as in the code; on the client a full channel only delays the
  sender, and its content is the log. Theorems about session tables assume that the random
  associate ids that were drawn differ, and say so.

  \<^bold>\<open>Not modelled.\<close>
  \<^item> \<open>Display\<close> of addresses and requests, log output, \<open>env_logger\<close>, the exit code: output only.
  \<^item> QUIC, TLS, DNS, sockets, the SOCKS5 protocol crates, getopts, serde_json, blake3 and the random
    generator: code outside the repository, present as arguments.
  \<^item> Fairness of the tokio scheduler and real time: a timeout or a tick is a label that may come at
    any moment; liveness is stated as what a given next step does, or as what no step can do.
\<close>

section \<open>Between the client and the server\<close>

text \<open>
  C9: A UDP packet reaches the server as it was given to the client. In \<open>native\<close> mode the client
  sends one datagram, from which the server, if it is in that mode, takes the associate id, the
  payload and the address; in \<open>quic\<close> mode the same holds of what the client wrote on a stream of its
  own, as long as the payload has fewer than 65536 bytes. An IPv6 address loses its flow label and
  scope id.
\<close>

theorem udp_to_server:
  assumes client: "client_env Lc bi_in bi_out uni_out uni_in" and server: "server_env Ls content sent"
    and addr: "Address_ok (TuicAddress_from addr)"
  shows "(\<exists>d cmd n. (\<forall>q :: bytes \<Rightarrow> quinn_error + unit. send_packet_native Lc q assoc_id pkt addr = conn_send_datagram q d) \<and>
      process_datagram Ls d c = (DatagramAwait Polling cmd n d, [], c) \<and>
      fst (process_datagram_authed Ls True cmd n d c) =
        (if fst (datagram (exchange Ls) (udp_packet_from c))
         then UdpLookup assoc_id pkt (wire_Address (TuicAddress_from addr)) else Finished (Err BadCommand))) \<and>
    (length pkt < 2 ^ 16 \<and> uni_out w = [] \<and> fst (send_packet_quic Lc (Inr w) assoc_id pkt addr cc) = Ok w' \<and>
      content r = uni_out w' \<longrightarrow>
      (\<exists>cmd r'. process_uni_stream Ls r c = (UniAwait Polling cmd r', [], c) \<and>
        fst (process_uni_stream_authed Ls True cmd r' c) =
          (if fst (uni_stream (exchange Ls) (udp_packet_from c))
           then UdpLookup assoc_id pkt (wire_Address (TuicAddress_from addr)) else Finished (Err BadCommand))))"
proof (intro conjI impI)
  let ?a = "TuicAddress_from addr"
  let ?cmd = "Packet assoc_id (of_nat (length pkt)) (wire_Address ?a)"
  let ?d = "encode_Command (Packet assoc_id (of_nat (length pkt)) ?a) @ pkt"
  have "send_packet_native Lc q assoc_id pkt addr = conn_send_datagram q ?d" for q :: "bytes \<Rightarrow> quinn_error + unit"
    by (simp add: client_env.send_packet_native_eq [OF client] del: encode_Command.simps)
  moreover from server_reads_datagram [OF server addr, of assoc_id "of_nat (length pkt)" pkt]
  have "process_datagram Ls ?d c = (DatagramAwait Polling ?cmd (length (encode_Command (Packet assoc_id (of_nat (length pkt)) ?a))) ?d, [], c)"
    by (auto simp: process_datagram_def Let_def length_encode_Packet serialized_len_wire simp del: encode_Command.simps)
  ultimately show "\<exists>d cmd n. (\<forall>q :: bytes \<Rightarrow> quinn_error + unit. send_packet_native Lc q assoc_id pkt addr = conn_send_datagram q d) \<and>
      process_datagram Ls d c = (DatagramAwait Polling cmd n d, [], c) \<and>
      fst (process_datagram_authed Ls True cmd n d c) =
        (if fst (datagram (exchange Ls) (udp_packet_from c))
         then UdpLookup assoc_id pkt (wire_Address ?a) else Finished (Err BadCommand))"
    by (intro exI [of _ ?d] exI [of _ ?cmd] exI [of _ "length (encode_Command (Packet assoc_id (of_nat (length pkt)) ?a))"])
      (simp add: process_datagram_authed_def slice_from_def split_beta Let_def del: encode_Command.simps)
next
  assume "length pkt < 2 ^ 16 \<and> uni_out w = [] \<and> fst (send_packet_quic Lc (Inr w) assoc_id pkt addr cc) = Ok w' \<and>
      content r = uni_out w'"
  then have len: "unat (of_nat (length pkt) :: u16) = length pkt"
    and r: "content r = encode_Command (Packet assoc_id (of_nat (length pkt)) (TuicAddress_from addr)) @ pkt"
    using client_env.send_packet_quic_Ok [OF client, of w assoc_id pkt addr cc w'] by (auto simp: unat_of_nat)
  from wire_reader.read_Command_encode [OF server_env.recv_wire [OF server] r] addr
  obtain r' where cmd: "Command_read_from (recv_read Ls) (order Ls) r =
      Ok (Packet assoc_id (of_nat (length pkt)) (wire_Address (TuicAddress_from addr)), r')" and r': "content r' = pkt"
    by (auto simp: yields_def)
  from quinn_receiver.q_read_exact_more [OF server_env.recv_contract [OF server], of r' pkt "[]" "length pkt"] r'
  obtain r'' where "q_read_exact (recv_quinn Ls) (length pkt) r' = Ok (pkt, r'')" by (auto simp: yields_def)
  with cmd len show "\<exists>cmd r'. process_uni_stream Ls r c = (UniAwait Polling cmd r', [], c) \<and>
      fst (process_uni_stream_authed Ls True cmd r' c) =
        (if fst (uni_stream (exchange Ls) (udp_packet_from c))
         then UdpLookup assoc_id pkt (wire_Address (TuicAddress_from addr)) else Finished (Err BadCommand))"
    by (intro exI [of _ "Packet assoc_id (of_nat (length pkt)) (wire_Address (TuicAddress_from addr))"] exI [of _ r'])
      (simp add: process_uni_stream_def process_uni_stream_authed_def split_beta Let_def)
qed

theorem udp_to_server_witness:
  "\<exists>d cmd n. conn_send_datagram (\<lambda>d. Inr ()) d = Ok () \<and>
     process_datagram mem_lib d (shared demo_start) = (DatagramAwait Polling cmd n d, [], shared demo_start) \<and>
     fst (process_datagram_authed mem_lib True cmd n d (shared demo_start)) = UdpLookup 7 [1, 2] (DomainAddress ''a.b'' 53)"
proof -
  have a: "Address_ok (TuicAddress_from (RelayDomain ''a.b'' 53))" by code_simp
  have "fst (datagram (exchange mem_lib) (udp_packet_from (shared demo_start)))"
    by (simp add: mem.datagram_cell demo_start_def handle_init_def UdpPacketFrom_new_def)
  with udp_to_server [OF memc.client_env_axioms mem.server_env_axioms a, of 7 "[1, 2]" "shared demo_start", THEN conjunct1]
  show ?thesis by (fastforce simp: conn_send_datagram_def)
qed

text \<open>
  C10: A UDP packet reaches the client as the server received it. A payload of fewer than 65536
  bytes that the server sends back, as a datagram or on a stream, is what the client takes out of
  it, with the same associate id and address, except for the flow label and scope id of an IPv6
  address.
\<close>

theorem udp_to_client:
  assumes client: "client_env Lc bi_in bi_out uni_out uni_in" and server: "server_env Ls content sent"
    and addr: "Address_ok addr" and len: "length pkt < 2 ^ 16"
  shows "(\<exists>d. (\<forall>q. packet_to_datagram (vec Ls) q assoc_id pkt addr = map_err SendDatagram (returned (q d))) \<and>
      parse_datagram Lc d = Ok (assoc_id, pkt, RelayAddress_from (wire_Address addr))) \<and>
    (sent w = [] \<and> packet_to_uni_stream (vec Ls) (send_write Ls) (send_quinn Ls) (Inr w) assoc_id pkt addr = Ok w' \<and>
      uni_in recv = sent w' \<longrightarrow>
      parse_uni_stream Lc recv = Ok (assoc_id, pkt, RelayAddress_from (wire_Address addr)))"
proof (intro conjI impI)
  let ?d = "encode_Command (Packet assoc_id (of_nat (length pkt)) addr) @ pkt"
  have n: "unat (of_nat (length pkt) :: u16) = length pkt" using len by (simp add: unat_of_nat)
  note buffer = server_env.vec_contract [OF server]
  have buf: "Command_write_to_buf (vec Ls) cmd [] = encode_Command cmd" for cmd
    using byte_buffer.write_Command [OF buffer, of cmd "[]"] by simp
  have ok: "Command_ok (Packet assoc_id (of_nat (length pkt)) addr)" using addr by simp
  show "\<exists>d. (\<forall>q. packet_to_datagram (vec Ls) q assoc_id pkt addr = map_err SendDatagram (returned (q d))) \<and>
      parse_datagram Lc d = Ok (assoc_id, pkt, RelayAddress_from (wire_Address addr))"
    using byte_buffer.extend_from_slice [OF buffer] client_env.parse_datagram_cases [OF client ok, of pkt] n
    by (intro exI [of _ ?d])
      (simp add: packet_to_datagram_def buf Let_def del: encode_Command.simps Command_write_to_buf.simps)
  assume "sent w = [] \<and> packet_to_uni_stream (vec Ls) (send_write Ls) (send_quinn Ls) (Inr w) assoc_id pkt addr = Ok w' \<and>
      uni_in recv = sent w'"
  then have "uni_in recv = ?d"
    using byte_writer.write_all_Ok [OF quinn_sender.axioms(1) [OF server_env.send_contract [OF server]]]
      quinn_sender.q_write_all_Ok [OF server_env.send_contract [OF server]]
      quinn_sender.q_finish_Ok [OF server_env.send_contract [OF server]]
    by (fastforce simp: packet_to_uni_stream_def Command_write_to_def buf Let_def outcome_simps
        simp del: encode_Command.simps Command_write_to_buf.simps)
  from client_env.parse_uni_stream_ok [OF client ok _ this] n
  show "parse_uni_stream Lc recv = Ok (assoc_id, pkt, RelayAddress_from (wire_Address addr))" by simp
qed

theorem udp_to_client_witness:
  "\<exists>d. packet_to_datagram (vec mem_lib) (\<lambda>d. Inr d) 7 [1, 2] (SocketAddress (V6 (Ipv6Addr 0 0 0 0 0 0 0 1) 53 9 9)) = Ok d \<and>
     parse_datagram mem_client d = Ok (7, [1, 2], RelaySocket (V6 (Ipv6Addr 0 0 0 0 0 0 0 1) 53 0 0))"
proof -
  let ?a = "SocketAddress (V6 (Ipv6Addr 0 0 0 0 0 0 0 1) 53 9 9)"
  have "Address_ok ?a" "length ([1, 2] :: bytes) < 2 ^ 16" by simp_all
  from udp_to_client [OF memc.client_env_axioms mem.server_env_axioms this, of 7, THEN conjunct1]
  obtain d where "packet_to_datagram (vec mem_lib) q 7 [1, 2] ?a = map_err SendDatagram (returned (q d))"
    "parse_datagram mem_client d = Ok (7, [1, 2], RelayAddress_from (wire_Address ?a))" for q :: "bytes \<Rightarrow> quinn_error + bytes"
    by blast
  then show ?thesis by (intro exI [of _ d]) simp
qed

text \<open>
  C7: A client is let in exactly with one of the server's tokens. When a client that was started with
  a token sends its authentication, and a server that was started with a list of tokens reads it,
  the server marks the connection as authenticated if one of its tokens has the same hash as the
  client's; otherwise it closes the connection with \<open>AuthenticationFailed\<close>. Nothing but the hash
  is sent.
\<close>

theorem token_end_to_end:
  assumes client: "client_env Lc bi_in bi_out uni_out uni_in" and server: "server_env Ls content sent"
    and program: "client_main Ec cnet cargs = Ok (ClientRun config timeout l login)"
    and craw: "ClientRawConfig_parse Ec cargs = Ok craw" "rr_token (rc_relay craw) = Some t"
    and serving: "server_main Es snet sargs = Ok (Serve srv)" and sraw: "RawConfig_parse Es sargs = Ok sraw"
    and hash: "client_blake3 Ec = h" "blake3_hash Es = h" "\<And>bs. length (h bs) = 32"
    and sending: "fst (send_token Lc (Inr w) (token_digest config) cc) = Ok w'" "uni_out w = []"
    and reading: "content r = uni_out w'" "token c = srv_token srv"
  shows "uni_out w' = encode_Command (Authenticate (h (as_bytes t))) \<and>
    (if \<exists>t' \<in> set (raw_token sraw). h (as_bytes t') = h (as_bytes t)
     then \<exists>woken c'. process_uni_stream Ls r c = (Finished (Ok ()), woken, c') \<and>
        is_authenticated (auth c') \<and> closes c' = closes c
     else \<exists>woken c'. process_uni_stream Ls r c = (Finished (Err AuthenticationFailed), woken, c') \<and>
        closes c' = closes c @ [(0xfffffff1, ''authentication failed'')])"
proof -
  have digest: "token_digest config = h (as_bytes t)"
    using client_main_Run [OF program] craw hash(1) by (metis option.inject outcome.inject(1))
  from sending have out: "uni_out w' = encode_Command (Authenticate (h (as_bytes t)))"
    using client_env.send_command_Ok [OF client] by (auto simp: send_token_def with_send_stream_Ok digest)
  have tokens: "srv_token srv = (\<lambda>t. h (as_bytes t)) ` set (raw_token sraw)"
    using serving sraw hash(2)
    by (auto simp: server_main_def Server_init_def Config_parse_def outcome_simps Let_def
        split: outcome.splits ConfigError.splits)
  have "content r = encode_Command (Authenticate (h (as_bytes t))) @ []" using out reading(1) by simp
  from wire_reader.read_Command_encode [OF server_env.recv_wire [OF server] this] hash(3)
  obtain r' where "Command_read_from (recv_read Ls) (order Ls) r = Ok (Authenticate (h (as_bytes t)), r')"
    by (auto simp: yields_def)
  note read = this
  have "h (as_bytes t) \<in> token c \<longleftrightarrow> (\<exists>t' \<in> set (raw_token sraw). h (as_bytes t') = h (as_bytes t))"
    unfolding reading(2) tokens image_iff by (simp add: eq_commute [of "h (as_bytes t)"])
  with read out show ?thesis
    by (cases "h (as_bytes t) \<in> token c")
      (simp_all add: process_uni_stream_def wake_def set_authenticated_def controller_close_def log_event_def tuic_const
        Let_def del: encode_Command.simps)
qed

theorem token_end_to_end_witness:
  "\<exists>w' woken c'. fst (send_token mem_client (Inr []) (blake3_hash demo_server_env (as_bytes ''secret''))
       (fst (Connection_new demo_config))) = Ok w' \<and>
     process_uni_stream mem_lib w' (shared (handle_init {blake3_hash demo_server_env (as_bytes ''secret'')} 1500 :: (bytes, bytes) server)) = (Finished (Ok ()), woken, c') \<and> is_authenticated (auth c')"
proof -
  define h where "h = (\<lambda>bs :: bytes. take 32 (bs @ replicate 32 0))"
  have hash: "client_blake3 demo_client_env = h" "blake3_hash demo_server_env = h" and len: "length (h bs) = 32" for bs
    by (simp_all add: demo_client_env_def demo_server_env_def h_def)
  obtain config timeout login where
    run: "client_main demo_client_env demo_socks5_net demo_run_args = Ok (ClientRun config timeout () login)"
    using demo_runs by blast
  have t: "rr_token (rc_relay demo_run_raw) = Some ''secret''" by (simp add: demo_run_raw_def)
  obtain srv where srv: "server_main demo_server_env demo_net demo_server_args = Ok (Serve srv)"
    "srv_token srv = {h (as_bytes ''secret'')}"
    using demo_serves hash by auto
  have digest: "token_digest config = h (as_bytes ''secret'')"
    using client_main_Run [OF run] demo_run_parse t hash by (metis option.inject outcome.inject(1))
  obtain w' where w': "fst (send_token mem_client (Inr []) (token_digest config) (fst (Connection_new demo_config))) = Ok w'"
    by (auto simp: send_token_def with_send_stream_def get_send_stream_def send_command_def Command_write_to_def
        SendStream_finish_def mem_client_def vec_writer_def)
  let ?c = "shared (handle_init {h (as_bytes ''secret'')} 1500 :: (bytes, bytes) server)"
  have "raw_token demo_server_raw = [''secret'']" and "token ?c = srv_token srv"
    by (simp_all add: demo_server_raw_def handle_init_def srv(2))
  with token_end_to_end [OF memc.client_env_axioms mem.server_env_axioms run demo_run_parse t srv(1) demo_server_parse
      hash len w' refl refl, of ?c] digest w'
  show ?thesis unfolding hash by auto
qed

text \<open>What the server sends on the stream of a \<open>Connect\<close>, when the stream works.\<close>

definition connect_candidates ::
  "(string \<Rightarrow> u16 \<Rightarrow> io_error + SocketAddr list) \<Rightarrow> Address \<Rightarrow> io_error + SocketAddr list" where
  "connect_candidates lookup addr =
     (case addr of SocketAddress a \<Rightarrow> Inr [a] | DomainAddress domain port \<Rightarrow> lookup domain port)"

lemma task_connect_sent:
  assumes server: "server_env Ls content sent"
    and task: "task_connect (vec Ls) (send_write Ls) (send_quinn Ls) lookup tcp copy send recv addr = (res, send')"
      "sent send = []"
    and works: "\<And>bs. \<exists>x. write_all (send_write Ls) bs send = Ok x" "\<And>x. \<exists>y. q_finish (send_quinn Ls) x = Ok y"
  shows "sent send' =
    (case connect_candidates lookup addr of
       Inl _ \<Rightarrow> []
     | Inr addrs \<Rightarrow> encode_Command (Response (first_target tcp addrs \<noteq> None)))"
proof -
  note sender = server_env.send_contract [OF server]
  have buf: "Command_write_to_buf (vec Ls) cmd [] = encode_Command cmd" for cmd
    using byte_buffer.write_Command [OF server_env.vec_contract [OF server], of cmd "[]"] by simp
  have wr: "\<exists>x. Command_write_to (vec Ls) (send_write Ls) cmd send = Ok x \<and> sent x = encode_Command cmd" for cmd
    using works(1) [of "encode_Command cmd"] task(2) byte_writer.write_all_Ok [OF quinn_sender.axioms(1) [OF sender]]
    by (fastforce simp: Command_write_to_def buf simp del: Command_write_to_buf.simps encode_Command.simps)
  show ?thesis
  proof (cases "connect_candidates lookup addr")
    case (Inl e)
    with task show ?thesis by (auto simp: task_connect_def connect_candidates_def)
  next
    case (Inr addrs)
    show ?thesis
    proof (cases "first_target tcp addrs")
      case None
      obtain x where x: "Command_write_to (vec Ls) (send_write Ls) (Response False) send = Ok x" "sent x = encode_Command (Response False)"
        using wr by blast
      obtain y where "q_finish (send_quinn Ls) x = Ok y" using works(2) by blast
      with task(1) Inr None x quinn_sender.q_finish_Ok [OF sender] show ?thesis
        by (auto simp: task_connect_def connect_candidates_def simp del: encode_Command.simps)
    next
      case (Some target)
      obtain x where x: "Command_write_to (vec Ls) (send_write Ls) (Response True) send = Ok x" "sent x = encode_Command (Response True)"
        using wr by blast
      with task(1) Inr Some show ?thesis
        by (auto simp: task_connect_def connect_candidates_def simp del: encode_Command.simps)
    qed
  qed
qed

text \<open>
  C8: A connection is relayed exactly if its target can be reached. The server reads the \<open>Connect\<close>
  command with the address the client was asked for; when it then relays, and its stream works,
  the client hands a stream to the requesting program exactly if the name was resolved and one of
  the addresses accepted. In particular a name that cannot be resolved is answered by no response
  at all, which the client treats as a refusal.
\<close>

theorem connect_end_to_end:
  assumes client: "client_env Lc bi_in bi_out uni_out uni_in" and server: "server_env Ls content sent"
    and addr: "Address_ok (TuicAddress_from addr)"
    and w: "Command_write_to (c_vec Lc) (bi_write Lc) (Connect (TuicAddress_from addr)) bi = Ok bi1" "bi_out bi = []"
    and srv_in: "content recv = bi_out bi1"
    and task: "task_connect (vec Ls) (send_write Ls) (send_quinn Ls) lookup tcp copy send recv'
      (wire_Address (TuicAddress_from addr)) = (res, send')" "sent send = []"
    and works: "\<And>bs. \<exists>x. write_all (send_write Ls) bs send = Ok x" "\<And>x. \<exists>y. q_finish (send_quinn Ls) x = Ok y"
    and answer: "bi_in bi1 = sent send' @ (if sent send' = encode_Command (Response True) then tunnel else [])"
  shows "(\<exists>recv'. process_bi_stream Ls send recv c =
      (BiAwait Polling (Connect (wire_Address (TuicAddress_from addr))) send recv', [], c)) \<and>
    (fst (handle_connect Lc (Inr bi) addr cc) \<noteq> Ok None \<longleftrightarrow>
      (\<exists>addrs target. connect_candidates lookup (wire_Address (TuicAddress_from addr)) = Inr addrs \<and>
        first_target tcp addrs = Some target))"
proof
  have "bi_out bi1 = encode_Command (Connect (TuicAddress_from addr))"
    using w byte_writer.write_all_Ok [OF client_env.bi_writer [OF client]]
    by (auto simp: Command_write_to_def client_env.write_command_buf [OF client]
        simp del: encode_Command.simps Command_write_to_buf.simps)
  with srv_in have "content recv = encode_Command (Connect (TuicAddress_from addr)) @ []" by simp
  from wire_reader.read_Command_encode [OF server_env.recv_wire [OF server] this] addr
  show "\<exists>recv'. process_bi_stream Ls send recv c =
      (BiAwait Polling (Connect (wire_Address (TuicAddress_from addr))) send recv', [], c)"
    by (auto simp: yields_def process_bi_stream_def)
next
  let ?found = "\<exists>addrs target. connect_candidates lookup (wire_Address (TuicAddress_from addr)) = Inr addrs \<and>
    first_target tcp addrs = Some target"
  have out: "sent send' = encode_Command (Response True)" if ?found
    using task_connect_sent [OF server task works] that by auto
  have not: "\<nexists>rest. bi_in bi1 = encode_Command (Response True) @ rest" if "\<not> ?found"
    using task_connect_sent [OF server task works] that answer by (auto simp: tuic_const split: sum.splits)
  show "fst (handle_connect Lc (Inr bi) addr cc) \<noteq> Ok None \<longleftrightarrow> ?found"
  proof (cases ?found)
    case True
    with out answer have "bi_in bi1 = encode_Command (Response True) @ tunnel" by simp
    with client w(1) obtain bi2 where "fst (handle_connect Lc (Inr bi) addr cc) = Ok (Some bi2)"
      by (rule client_env.handle_connect_accepted [where c = cc]) simp
    with True show ?thesis by simp
  next
    case False
    with client_env.handle_connect_refused [OF client w(1) not, of cc] show ?thesis by simp
  qed
qed

theorem connect_end_to_end_witness:
  "fst (handle_connect mem_client (Inr (encode_Command (Response True) @ [7], [])) (RelayDomain ''a.b'' 80)
     (fst (Connection_new demo_config))) \<noteq> Ok None"
proof -
  let ?addr = "RelayDomain ''a.b'' 80" and ?target = "V4 (Ipv4Addr 10 0 0 1) 80"
    and ?cmd = "encode_Command (Connect (TuicAddress_from (RelayDomain ''a.b'' 80)))"
  have a: "Address_ok (TuicAddress_from ?addr)" by code_simp
  have w: "Command_write_to (vec mem_lib) (send_write mem_lib) cmd [] = Ok (encode_Command cmd)" for cmd
    using byte_buffer.write_Command [OF mem.vec_contract, of cmd "[]"]
    by (simp add: Command_write_to_def mem_lib_def vec_writer_def del: encode_Command.simps Command_write_to_buf.simps)
  have task: "task_connect (vec mem_lib) (send_write mem_lib) (send_quinn mem_lib) (\<lambda>d p. Inr [?target]) (\<lambda>a. Inr 1)
      (\<lambda>_ _ _. Inr ()) [] ?cmd (wire_Address (TuicAddress_from ?addr)) = (Ok (), encode_Command (Response True))"
    using w [of "Response True"] by (simp add: task_connect_def del: encode_Command.simps)
  have works: "\<exists>x. write_all (send_write mem_lib) bs [] = Ok x" "\<exists>y. q_finish (send_quinn mem_lib) z = Ok y" for bs z
    by (simp_all add: mem_lib_def vec_writer_def buffered_send_def)
  have "connect_candidates (\<lambda>d p. Inr [?target]) (wire_Address (TuicAddress_from ?addr)) = Inr [?target]"
    by (simp add: connect_candidates_def)
  then show ?thesis
    using connect_end_to_end [OF memc.client_env_axioms mem.server_env_axioms a
        mem_write_Connect [of "Connect (TuicAddress_from ?addr)" "encode_Command (Response True) @ [7]" "[]"] _ _ task _ works,
        of ?cmd "[7]"]
    by (simp del: encode_Command.simps)
qed

end
